(* ===== verification/Gombit_Prelude.thy ===== *)
theory Gombit_Prelude
  imports Main "HOL-Library.AList" "HOL-Library.Char_ord" "HOL-Library.List_Lexorder"
    "HOL-Library.Sublist" "HOL-Library.Multiset" "HOL-Library.Word"
begin

section \<open>Shared vocabulary of the development\<close>

text \<open>
  What the component theories share: Go's time values and durations, its 64-bit integers and
  truncating division, results of fallible state-changing calls, and Go maps as association
  lists.

  \<^item> A \<open>time.Time\<close> is an \<open>int\<close>, the nanoseconds since Go's zero time, so that the zero
    value of the Go type is \<open>0\<close> and \<open>IsZero\<close> is a comparison with it. \<open>Before\<close>, \<open>After\<close>
    and \<open>Equal\<close> are the order of \<open>int\<close>, and \<open>Add\<close> is its addition (Go's \<open>Time\<close> spans
    hundreds of billions of years, so an addition of a \<open>Duration\<close> to a clock reading does
    not leave its range).
  \<^item> A \<open>time.Duration\<close> and an \<open>int64\<close> are an \<open>int\<close>; where arithmetic on them may leave the
    64-bit range, \<open>wrap64\<close> writes the wrap-around out.
  \<^item> A Go map is an association list with distinct keys: \<open>map_of\<close> reads it,
    \<open>AList.update\<close> and \<open>AList.delete\<close> write it, and the order of the list stands for the
    order in which a \<open>range\<close> loop visits the entries, which Go leaves open.
  \<^item> A Go string is a list of bytes (\<open>string\<close>), compared byte by byte.
  \<^item> A call that may fail and may change its receiver returns its result beside the new state;
    \<open>Inl\<close> is the error.
\<close>

type_synonym gotime = int
type_synonym duration = int

type_synonym ('e, 'a, 's) outcome = "('e + 'a) \<times> 's"

named_theorems go_time \<open>unfolding Go's operations on times\<close>
named_theorems frame \<open>what an operation leaves unchanged\<close>

definition IsZero :: "gotime \<Rightarrow> bool" where
  "IsZero t \<longleftrightarrow> t = 0"

declare IsZero_def [go_time]

text \<open>The units the source writes durations in.\<close>

abbreviation (input) Second :: duration where "Second \<equiv> 1000000000"
abbreviation (input) Minute :: duration where "Minute \<equiv> 60000000000"
abbreviation (input) Hour :: duration where "Hour \<equiv> 3600000000000"
abbreviation (input) Millisecond :: duration where "Millisecond \<equiv> 1000000"

subsection \<open>Signed 64-bit integers\<close>

definition MaxInt64 :: int where "MaxInt64 = 9223372036854775807"
definition MinInt64 :: int where "MinInt64 = - 9223372036854775808"

definition in_int64 :: "int \<Rightarrow> bool" where
  "in_int64 x \<longleftrightarrow> MinInt64 \<le> x \<and> x \<le> MaxInt64"

definition wrap64 :: "int \<Rightarrow> int" where
  "wrap64 x = (x + 9223372036854775808) mod 18446744073709551616 - 9223372036854775808"

text \<open>Go's \<open>/\<close> truncates towards zero.\<close>

definition quot :: "int \<Rightarrow> int \<Rightarrow> int" where
  "quot a b = sgn a * sgn b * (\<bar>a\<bar> div \<bar>b\<bar>)"

lemmas int64_defs = in_int64_def MaxInt64_def MinInt64_def

lemma wrap64_id [simp]: "in_int64 x \<Longrightarrow> wrap64 x = x"
  by (simp add: wrap64_def int64_defs)

lemma wrap64_in [simp]: "in_int64 (wrap64 x)"
proof -
  let ?m = "(x + 9223372036854775808) mod 18446744073709551616"
  have "0 \<le> ?m" "?m < 18446744073709551616" by simp_all
  then show ?thesis by (simp add: wrap64_def int64_defs)
qed

lemma quot_nonneg: "0 \<le> a \<Longrightarrow> 0 < b \<Longrightarrow> quot a b = a div b"
  by (cases "a = 0") (simp_all add: quot_def)

subsection \<open>Go maps as association lists\<close>

text \<open>
  An entry of a map is written and removed with the library's operations. These are the facts
  the component proofs rewrite with.
\<close>

declare map_of_eq_Some_iff [simp del] Some_eq_map_of_iff [simp del]
declare split_paired_All [simp del] split_paired_Ex [simp del]

lemma map_of_aupdate [simp]:
  "map_of (AList.update k v al) k' = (if k' = k then Some v else map_of al k')"
  by (simp add: update_conv')

lemma map_of_adelete [simp]:
  "map_of (AList.delete k al) k' = (if k' = k then None else map_of al k')"
  by (simp add: delete_conv')

lemma set_adelete: "set (AList.delete k al) = {p \<in> set al. fst p \<noteq> k}"
  by (auto simp: AList.delete_eq)

lemma set_aupdate:
  "distinct (map fst al) \<Longrightarrow> set (AList.update k v al) = insert (k, v) {p \<in> set al. fst p \<noteq> k}"
  by (induction al) (auto simp: image_iff)

lemma distinct_fst_filter: "distinct (map fst al) \<Longrightarrow> distinct (map fst (filter P al))"
  by (induction al) auto

lemma map_of_filter_distinct:
  "distinct (map fst al) \<Longrightarrow>
   map_of (filter P al) k =
     (case map_of al k of None \<Rightarrow> None | Some v \<Rightarrow> if P (k, v) then Some v else None)"
  by (induction al) (auto split: option.splits simp: map_of_eq_None_iff image_iff)

lemma length_filter_split:
  "length (filter P xs) + length (filter (\<lambda>x. \<not> P x) xs) = length xs"
  by (induction xs) auto

lemma map_of_in_set: "map_of al k = Some v \<Longrightarrow> (k, v) \<in> set al"
  by (rule map_of_SomeD)

lemma set_in_map_of: "distinct (map fst al) \<Longrightarrow> (k, v) \<in> set al \<Longrightarrow> map_of al k = Some v"
  by simp

lemma sorted_wrt_unique:
  assumes "\<And>x. \<not> P x x" "\<And>x y z. P x y \<Longrightarrow> P y z \<Longrightarrow> P x z"
    and "sorted_wrt P xs" "sorted_wrt P ys" "set xs = set ys"
  shows "xs = ys"
  using assms(3-5)
proof (induction xs arbitrary: ys)
  case (Cons x xs)
  then obtain y ys' where ys: "ys = y # ys'" by (cases ys) auto
  have "x = y"
  proof (rule ccontr)
    assume "x \<noteq> y"
    then have "y \<in> set xs" "x \<in> set ys'" using Cons.prems(3) ys by auto
    then have "P x y" "P y x" using Cons.prems(1,2) ys by auto
    then show False using assms(1,2) by blast
  qed
  moreover have "x \<notin> set xs" "x \<notin> set ys'"
    using Cons.prems(1,2) ys \<open>x = y\<close> assms(1) by auto
  then have "set xs = set ys'" using Cons.prems(3) ys \<open>x = y\<close> by (metis insert_ident list.simps(15))
  ultimately show ?case using Cons.IH[of ys'] Cons.prems(1,2) ys by simp
qed simp

text \<open>A call that returned no error, by its result and its new state.\<close>

lemma outcome_Inr: "\<not> isl (fst r) \<Longrightarrow> r = (Inr (projr (fst r)), snd r)"
  by (cases r) (auto simp: isl_def)

end
