(* ===== verification/Jobs_Types.thy ===== *)
theory Jobs_Types
  imports Gombit_Prelude
begin

section \<open>Background jobs: the data of package jobs\<close>

text \<open>
  The values the parts of \<open>src/jobs\<close> exchange: the envelope a queue stores
  (\<open>job.go\<close>), why a run failed (\<open>errors.go\<close>), what a worker records of a job it gave
  up on (\<open>failed.go\<close>), a uniqueness claim (\<open>unique.go\<close>), a leased delivery and a queue's
  counts (\<open>queue.go\<close>), and the rule for job and queue names
  (\<open>config.ValidJobName\<close>). Errors are constructors; the parts of an error message that
  only format one of its values are left out.
\<close>

subsection \<open>Definitions\<close>

record Envelope =
  env_ID :: string
  env_Name :: string
  env_Version :: int
  env_Payload :: string
  env_Metadata :: "(string \<times> string) list"
  env_EnqueuedAt :: gotime
  env_Attempt :: int

text \<open>\<open>Kind\<close>: the classes of \<open>errors.go\<close>. \<open>KindNil\<close> is the empty kind of no failure.\<close>

datatype Kind = KindNil | KindUnknownJob | KindDecode | KindUnsupportedVersion | KindPanic
  | KindTimeout | KindUpgrade | KindHandler

text \<open>\<open>Envelope.validate\<close>: the name first, then the ID; both failures are \<open>KindDecode\<close>.\<close>

datatype envelope_problem = NoJobName | NoJobID

definition envelope_validate :: "Envelope \<Rightarrow> envelope_problem option" where
  "envelope_validate e =
     (if env_Name e = '''' then Some NoJobName
      else if env_ID e = '''' then Some NoJobID
      else None)"

text \<open>
  \<open>config.ValidJobName\<close>. The loop ranges over runes with their byte offset; a rune that is
  not one of the listed ASCII characters is refused, whatever bytes encode it, so the loop over
  bytes decides the same names: every byte of a multi-byte rune is at least 128.
\<close>

definition lower_or_digit :: "char \<Rightarrow> bool" where
  "lower_or_digit c \<longleftrightarrow> CHR ''a'' \<le> c \<and> c \<le> CHR ''z'' \<or> CHR ''0'' \<le> c \<and> c \<le> CHR ''9''"

definition name_separator :: "char \<Rightarrow> bool" where
  "name_separator c \<longleftrightarrow> c = CHR ''_'' \<or> c = CHR ''.'' \<or> c = CHR '':'' \<or> c = CHR ''-''"

fun valid_name_from :: "nat \<Rightarrow> string \<Rightarrow> bool" where
  "valid_name_from i [] = True"
| "valid_name_from i (r # rs) =
     (if lower_or_digit r then valid_name_from (Suc i) rs
      else if 0 < i \<and> name_separator r then valid_name_from (Suc i) rs
      else False)"

definition ValidJobName :: "string \<Rightarrow> bool" where
  "ValidJobName name =
     (if name = '''' \<or> 128 < length name then False else valid_name_from 0 name)"

definition ValidName :: "string \<Rightarrow> bool" where
  "ValidName name = ValidJobName name"

text \<open>\<open>failed.go\<close>\<close>

definition ReasonExhausted :: string where "ReasonExhausted = ''attempts exhausted''"
definition ReasonPermanent :: string where "ReasonPermanent = ''permanent failure''"
definition ReasonUndecodable :: string where "ReasonUndecodable = ''undecodable envelope''"

record Failure =
  f_Reason :: string
  f_Kind :: Kind
  f_Error :: string
  f_At :: gotime

record FailedJob =
  fj_Queue :: string
  fj_Envelope :: Envelope
  fj_RawEnvelope :: string
  fj_Attempts :: int
  fj_Failure :: Failure

text \<open>\<open>unique.go\<close>: a uniqueness claim of a dispatch, and what \<open>BeginOnce\<close> reports.\<close>

record UniqueKey =
  uk_Key :: string
  uk_TTL :: duration
  uk_UntilDone :: bool

datatype OnceState = OnceAcquired | OnceDone | OnceBusy

text \<open>\<open>queue.go\<close>: a leased job and the counts of a queue.\<close>

record Delivery =
  d_Queue :: string
  d_Envelope :: Envelope
  d_Receipt :: string
  d_LeaseExpired :: bool
  d_AvailableAt :: gotime
  d_Err :: "string option"

record QueueStats =
  qs_Ready :: nat
  qs_Scheduled :: nat
  qs_Reserved :: nat
  qs_Failed :: nat
  qs_OldestReady :: gotime

text \<open>
  The errors a queue returns: the sentinels of \<open>queue.go\<close>, \<open>failed.go\<close> and
  \<open>unique.go\<close>, and the argument checks that have no sentinel of their own.
  \<open>QueueUnavailable\<close> is an error of the storage behind a queue (a Redis call that failed).
\<close>

datatype queue_error =
    ErrNoJob
  | ErrLeaseLost
  | ErrDuplicateJob
  | ErrInvalidQueue string
  | ErrClosed
  | ErrNotFailed
  | DuplicateError string string string
  | EnvelopeHasNoID
  | LeaseNotPositive
  | EmptyUniqueKey
  | UniqueTTLNotPositive
  | QueueUnavailable

definition unique_validate :: "UniqueKey \<Rightarrow> queue_error option" where
  "unique_validate u =
     (if uk_Key u = '''' then Some EmptyUniqueKey
      else if uk_TTL u \<le> 0 then Some UniqueTTLNotPositive
      else None)"

subsection \<open>Lemmas\<close>

lemma valid_name_from_Suc:
  "valid_name_from (Suc i) s \<longleftrightarrow> (\<forall>c \<in> set s. lower_or_digit c \<or> name_separator c)"
  by (induction s arbitrary: i) auto

text \<open>The loop decides the rule its comment states.\<close>

lemma ValidName_iff:
  "ValidName name \<longleftrightarrow>
     name \<noteq> [] \<and> length name \<le> 128 \<and> lower_or_digit (hd name) \<and>
     (\<forall>c \<in> set (tl name). lower_or_digit c \<or> name_separator c)"
  by (cases name) (auto simp: ValidName_def ValidJobName_def valid_name_from_Suc)

lemma ValidName_nonempty [simp]: "ValidName name \<Longrightarrow> name \<noteq> ''''"
  by (simp add: ValidName_iff)

end
