(* ===== verification/Jobs_Memory.thy ===== *)
theory Jobs_Memory
  imports Jobs_Types
begin

section \<open>The in-memory job queue\<close>

text \<open>
  \<open>src/jobs/memory.go\<close>, the whole driver: \<open>MemoryQueue\<close> with its jobs, its uniqueness
  claims and its \<open>Once\<close> records. Every method of the source holds the queue's mutex for its
  whole body, so a method is one function from the queue to its result and the new queue.

  \<^item> The jobs, the claims and the records are association lists in the order a \<open>range\<close> loop
    visits them. A method that changes a \<open>*memoryJob\<close> it found in the map replaces that entry.
  \<^item> The queue's clock is an argument: one reading for each call of \<open>q.now()\<close> in the order the
    method makes them, so two readings of one call may differ.
  \<^item> \<open>uuid.NewString\<close> is an argument of \<open>Reserve\<close>: the receipt of the new lease.
  \<^item> The counters \<open>seq\<close> (a \<open>uint64\<close>) and \<open>ops\<close> are natural numbers: reaching the end of
    their range takes \<open>2 ^ 64\<close> operations.
\<close>

subsection \<open>State\<close>

record memoryClaim =
  mc_holder :: string
  mc_expires :: gotime

definition onceDoneMarker :: string where "onceDoneMarker = ''done''"

definition claimSweepEvery :: nat where "claimSweepEvery = 256"

type_synonym memoryKey = "string \<times> string"

record memoryJob =
  mj_queue :: string
  mj_env :: Envelope
  mj_attempts :: int
  mj_availableAt :: gotime
  mj_seq :: nat
  mj_reserved :: bool
  mj_receipt :: string
  mj_leaseDeadline :: gotime
  mj_failure :: "Failure option"
  mj_raw :: string
  mj_unique :: string
  mj_uniqueTTL :: duration
  mj_heldUnique :: bool

record MemoryQueue =
  mq_ops :: nat
  mq_jobs :: "(memoryKey \<times> memoryJob) list"
  mq_uniques :: "(memoryKey \<times> memoryClaim) list"
  mq_once :: "(string \<times> memoryClaim) list"
  mq_seq :: nat
  mq_closed :: bool

definition NewMemoryQueue :: MemoryQueue where
  "NewMemoryQueue = \<lparr>mq_ops = 0, mq_jobs = [], mq_uniques = [], mq_once = [], mq_seq = 0,
     mq_closed = False\<rparr>"

subsection \<open>Claims\<close>

definition sweepClaims :: "MemoryQueue \<Rightarrow> gotime \<Rightarrow> MemoryQueue" where
  "sweepClaims q now =
     (let ops = Suc (mq_ops q) in
      if ops < claimSweepEvery then q\<lparr>mq_ops := ops\<rparr>
      else q\<lparr>mq_ops := 0,
             mq_uniques := filter (\<lambda>(k, c). now < mc_expires c) (mq_uniques q),
             mq_once := filter (\<lambda>(k, c). now < mc_expires c) (mq_once q)\<rparr>)"

definition mq_ClaimCount :: "MemoryQueue \<Rightarrow> nat" where
  "mq_ClaimCount q = length (mq_uniques q) + length (mq_once q)"

definition releaseUnique :: "MemoryQueue \<Rightarrow> memoryJob \<Rightarrow> MemoryQueue \<times> memoryJob" where
  "releaseUnique q job =
     (if \<not> mj_heldUnique job then (q, job)
      else
        let ukey = (mj_queue job, mj_unique job);
            q' = (case map_of (mq_uniques q) ukey of
                    Some claim \<Rightarrow>
                      if mc_holder claim = env_ID (mj_env job)
                      then q\<lparr>mq_uniques := AList.delete ukey (mq_uniques q)\<rparr> else q
                  | None \<Rightarrow> q)
        in (q', job\<lparr>mj_heldUnique := False\<rparr>))"

subsection \<open>Push\<close>

text \<open>\<open>at\<close> of a push or a release: now when it is zero or in the past.\<close>

definition clampAt :: "gotime \<Rightarrow> gotime \<Rightarrow> gotime" where
  "clampAt at now = (if IsZero at \<or> at < now then now else at)"

definition newJob :: "string \<Rightarrow> Envelope \<Rightarrow> gotime \<Rightarrow> nat \<Rightarrow> memoryJob" where
  "newJob queue env at seq =
     \<lparr>mj_queue = queue, mj_env = env, mj_attempts = 0, mj_availableAt = at, mj_seq = seq,
      mj_reserved = False, mj_receipt = '''', mj_leaseDeadline = 0, mj_failure = None,
      mj_raw = '''', mj_unique = '''', mj_uniqueTTL = 0, mj_heldUnique = False\<rparr>"

text \<open>
  The tail of \<open>push\<close>: store the job under its key and, with a uniqueness claim, the claim.
\<close>

definition storeJob ::
  "MemoryQueue \<Rightarrow> string \<Rightarrow> Envelope \<Rightarrow> gotime \<Rightarrow> UniqueKey option \<Rightarrow> gotime \<Rightarrow> MemoryQueue" where
  "storeJob q queue env at unique now =
     (let seq = Suc (mq_seq q);
          env' = env\<lparr>env_Attempt := 0\<rparr>;
          job = newJob queue env' (clampAt at now) seq;
          q' = q\<lparr>mq_seq := seq\<rparr>
      in case unique of
           None \<Rightarrow> q'\<lparr>mq_jobs := AList.update (queue, env_ID env) job (mq_jobs q')\<rparr>
         | Some u \<Rightarrow>
             let uniques = AList.update (queue, uk_Key u)
                   \<lparr>mc_holder = env_ID env, mc_expires = now + uk_TTL u\<rparr> (mq_uniques q');
                 job' = (if uk_UntilDone u
                         then job\<lparr>mj_unique := uk_Key u, mj_uniqueTTL := uk_TTL u,
                                  mj_heldUnique := True\<rparr>
                         else job)
             in q'\<lparr>mq_uniques := uniques,
                   mq_jobs := AList.update (queue, env_ID env) job' (mq_jobs q')\<rparr>)"

text \<open>
  \<open>push\<close>. The clock is read for the sweep (\<open>now1\<close>), for the check of the claim
  (\<open>now2\<close>) and for the job (\<open>now3\<close>); without a uniqueness claim only the last is read.
\<close>

definition push ::
  "MemoryQueue \<Rightarrow> string \<Rightarrow> Envelope \<Rightarrow> gotime \<Rightarrow> UniqueKey option \<Rightarrow> gotime \<Rightarrow> gotime \<Rightarrow> gotime
   \<Rightarrow> (queue_error, unit, MemoryQueue) outcome" where
  "push q queue env at unique now1 now2 now3 =
     (if \<not> ValidName queue then (Inl (ErrInvalidQueue queue), q)
      else if env_ID env = '''' then (Inl EnvelopeHasNoID, q)
      else if mq_closed q then (Inl ErrClosed, q)
      else
        let q1 = (case unique of None \<Rightarrow> q | Some u \<Rightarrow> sweepClaims q now1);
            held = (case unique of
                      None \<Rightarrow> None
                    | Some u \<Rightarrow>
                        (case map_of (mq_uniques q1) (queue, uk_Key u) of
                           None \<Rightarrow> None
                         | Some claim \<Rightarrow>
                             if now2 < mc_expires claim
                             then Some (DuplicateError queue (uk_Key u) (mc_holder claim))
                             else None))
        in case held of
             Some err \<Rightarrow> (Inl err, q1)
           | None \<Rightarrow>
               (case map_of (mq_jobs q1) (queue, env_ID env) of
                  Some _ \<Rightarrow> (Inl ErrDuplicateJob, q1)
                | None \<Rightarrow> (Inr (), storeJob q1 queue env at unique now3)))"

definition mq_Push ::
  "MemoryQueue \<Rightarrow> string \<Rightarrow> Envelope \<Rightarrow> gotime \<Rightarrow> gotime
   \<Rightarrow> (queue_error, unit, MemoryQueue) outcome" where
  "mq_Push q queue env at now = push q queue env at None now now now"

definition mq_PushUnique ::
  "MemoryQueue \<Rightarrow> string \<Rightarrow> Envelope \<Rightarrow> gotime \<Rightarrow> UniqueKey \<Rightarrow> gotime \<Rightarrow> gotime \<Rightarrow> gotime
   \<Rightarrow> (queue_error, unit, MemoryQueue) outcome" where
  "mq_PushUnique q queue env at unique now1 now2 now3 =
     (case unique_validate unique of
        Some err \<Rightarrow> (Inl err, q)
      | None \<Rightarrow> push q queue env at (Some unique) now1 now2 now3)"

subsection \<open>Reserve\<close>

definition readyAt :: "memoryJob \<Rightarrow> gotime" where
  "readyAt j = (if mj_reserved j then mj_leaseDeadline j else mj_availableAt j)"

definition available :: "memoryJob \<Rightarrow> gotime \<Rightarrow> bool" where
  "available j now =
     (if mj_failure j \<noteq> None then False
      else if mj_reserved j then \<not> now < mj_leaseDeadline j
      else \<not> now < mj_availableAt j)"

definition before :: "memoryJob \<Rightarrow> memoryJob \<Rightarrow> bool" where
  "before j other =
     (let a = readyAt j; b = readyAt other in
      if a \<noteq> b then a < b else mj_seq j < mj_seq other)"

text \<open>The inner loop: the best available job of \<open>queue\<close> among the entries still to visit.\<close>

fun reserveScan ::
  "gotime \<Rightarrow> string \<Rightarrow> (memoryKey \<times> memoryJob) list \<Rightarrow> (memoryKey \<times> memoryJob) option
   \<Rightarrow> (memoryKey \<times> memoryJob) option" where
  "reserveScan now queue [] next = next"
| "reserveScan now queue (kj # rest) next =
     (if mj_queue (snd kj) \<noteq> queue \<or> \<not> available (snd kj) now then reserveScan now queue rest next
      else if (case next of None \<Rightarrow> True | Some n \<Rightarrow> before (snd kj) (snd n))
           then reserveScan now queue rest (Some kj)
           else reserveScan now queue rest next)"

definition leaseJob :: "memoryJob \<Rightarrow> string \<Rightarrow> gotime \<Rightarrow> duration \<Rightarrow> memoryJob" where
  "leaseJob j receipt now lease =
     j\<lparr>mj_attempts := mj_attempts j + 1, mj_reserved := True, mj_receipt := receipt,
       mj_leaseDeadline := now + lease\<rparr>"

definition deliveryOf :: "string \<Rightarrow> memoryJob \<Rightarrow> string \<Rightarrow> Delivery" where
  "deliveryOf queue j receipt =
     \<lparr>d_Queue = queue, d_Envelope = (mj_env j)\<lparr>env_Attempt := mj_attempts j + 1\<rparr>,
      d_Receipt = receipt, d_LeaseExpired = mj_reserved j, d_AvailableAt = readyAt j,
      d_Err = None\<rparr>"

text \<open>The outer loop over the queues in priority order.\<close>

fun reserveQueues ::
  "MemoryQueue \<Rightarrow> string list \<Rightarrow> duration \<Rightarrow> string \<Rightarrow> gotime
   \<Rightarrow> (queue_error, Delivery, MemoryQueue) outcome" where
  "reserveQueues q [] lease receipt now = (Inl ErrNoJob, q)"
| "reserveQueues q (queue # queues) lease receipt now =
     (case reserveScan now queue (mq_jobs q) None of
        None \<Rightarrow> reserveQueues q queues lease receipt now
      | Some (k, j) \<Rightarrow>
          (Inr (deliveryOf queue j receipt),
           q\<lparr>mq_jobs := AList.update k (leaseJob j receipt now lease) (mq_jobs q)\<rparr>))"

definition mq_Reserve ::
  "MemoryQueue \<Rightarrow> string list \<Rightarrow> duration \<Rightarrow> string \<Rightarrow> gotime
   \<Rightarrow> (queue_error, Delivery, MemoryQueue) outcome" where
  "mq_Reserve q queues lease receipt now =
     (if lease \<le> 0 then (Inl LeaseNotPositive, q)
      else case find (\<lambda>queue. \<not> ValidName queue) queues of
             Some bad \<Rightarrow> (Inl (ErrInvalidQueue bad), q)
           | None \<Rightarrow>
               if mq_closed q then (Inl ErrClosed, q)
               else reserveQueues q queues lease receipt now)"

subsection \<open>Settling a delivery\<close>

definition leased :: "MemoryQueue \<Rightarrow> Delivery \<Rightarrow> queue_error + memoryJob" where
  "leased q d =
     (if mq_closed q then Inl ErrClosed
      else case map_of (mq_jobs q) (d_Queue d, env_ID (d_Envelope d)) of
             None \<Rightarrow> Inl ErrLeaseLost
           | Some job \<Rightarrow>
               if \<not> mj_reserved job \<or> d_Receipt d = '''' \<or> mj_receipt job \<noteq> d_Receipt d
               then Inl ErrLeaseLost else Inr job)"

definition jobKey :: "memoryJob \<Rightarrow> memoryKey" where
  "jobKey j = (mj_queue j, env_ID (mj_env j))"

text \<open>
  \<open>putJob\<close> is the effect of assigning to the fields of the job \<open>d\<close> leases: the map entry
  under the delivery's key is that object.
\<close>

definition putJob :: "MemoryQueue \<Rightarrow> memoryKey \<Rightarrow> memoryJob \<Rightarrow> MemoryQueue" where
  "putJob q k j = q\<lparr>mq_jobs := AList.update k j (mq_jobs q)\<rparr>"

definition deliveryKey :: "Delivery \<Rightarrow> memoryKey" where
  "deliveryKey d = (d_Queue d, env_ID (d_Envelope d))"

definition mq_Ack :: "MemoryQueue \<Rightarrow> Delivery \<Rightarrow> (queue_error, unit, MemoryQueue) outcome" where
  "mq_Ack q d =
     (case leased q d of
        Inl err \<Rightarrow> (Inl err, q)
      | Inr job \<Rightarrow>
          let (q1, job') = releaseUnique q job
          in (Inr (), q1\<lparr>mq_jobs := AList.delete (jobKey job') (mq_jobs q1)\<rparr>))"

definition release ::
  "MemoryQueue \<Rightarrow> Delivery \<Rightarrow> gotime \<Rightarrow> bool \<Rightarrow> gotime \<Rightarrow> (queue_error, unit, MemoryQueue) outcome"
where
  "release q d at uncount now =
     (case leased q d of
        Inl err \<Rightarrow> (Inl err, q)
      | Inr job \<Rightarrow>
          let attempts = (if uncount \<and> 0 < mj_attempts job then mj_attempts job - 1
                          else mj_attempts job);
              seq = Suc (mq_seq q)
          in (Inr (), putJob (q\<lparr>mq_seq := seq\<rparr>) (deliveryKey d)
                (job\<lparr>mj_attempts := attempts, mj_reserved := False, mj_receipt := '''',
                     mj_availableAt := clampAt at now, mj_seq := seq\<rparr>)))"

definition mq_Release ::
  "MemoryQueue \<Rightarrow> Delivery \<Rightarrow> gotime \<Rightarrow> gotime \<Rightarrow> (queue_error, unit, MemoryQueue) outcome" where
  "mq_Release q d at now = release q d at False now"

definition mq_Postpone ::
  "MemoryQueue \<Rightarrow> Delivery \<Rightarrow> gotime \<Rightarrow> gotime \<Rightarrow> (queue_error, unit, MemoryQueue) outcome" where
  "mq_Postpone q d at now = release q d at True now"

definition mq_Extend ::
  "MemoryQueue \<Rightarrow> Delivery \<Rightarrow> duration \<Rightarrow> gotime \<Rightarrow> (queue_error, unit, MemoryQueue) outcome" where
  "mq_Extend q d lease now =
     (if lease \<le> 0 then (Inl LeaseNotPositive, q)
      else case leased q d of
             Inl err \<Rightarrow> (Inl err, q)
           | Inr job \<Rightarrow>
               (Inr (), putJob q (deliveryKey d) (job\<lparr>mj_leaseDeadline := now + lease\<rparr>)))"

definition mq_Bury ::
  "MemoryQueue \<Rightarrow> Delivery \<Rightarrow> Failure \<Rightarrow> gotime \<Rightarrow> (queue_error, unit, MemoryQueue) outcome" where
  "mq_Bury q d f now =
     (case leased q d of
        Inl err \<Rightarrow> (Inl err, q)
      | Inr job \<Rightarrow>
          let f' = (if IsZero (f_At f) then f\<lparr>f_At := now\<rparr> else f);
              job1 = job\<lparr>mj_reserved := False, mj_receipt := '''', mj_failure := Some f'\<rparr>;
              (q1, job2) = releaseUnique q job1
          in (Inr (), putJob q1 (deliveryKey d) job2))"

subsection \<open>Once records\<close>

definition mq_BeginOnce ::
  "MemoryQueue \<Rightarrow> string \<Rightarrow> string \<Rightarrow> duration \<Rightarrow> gotime \<Rightarrow> OnceState \<times> MemoryQueue" where
  "mq_BeginOnce q key token lock now =
     (let q1 = sweepClaims q now;
          acquire = q1\<lparr>mq_once := AList.update key
                      \<lparr>mc_holder = token, mc_expires = now + lock\<rparr> (mq_once q1)\<rparr>
      in case map_of (mq_once q1) key of
           None \<Rightarrow> (OnceAcquired, acquire)
         | Some claim \<Rightarrow>
             if now < mc_expires claim
             then (if mc_holder claim = onceDoneMarker then (OnceDone, q1) else (OnceBusy, q1))
             else (OnceAcquired, acquire))"

text \<open>\<open>FinishOnce\<close> reads the clock for the check (\<open>now1\<close>) and for the record (\<open>now2\<close>).\<close>

definition mq_FinishOnce ::
  "MemoryQueue \<Rightarrow> string \<Rightarrow> string \<Rightarrow> duration \<Rightarrow> gotime \<Rightarrow> gotime
   \<Rightarrow> (queue_error, unit, MemoryQueue) outcome" where
  "mq_FinishOnce q key token keep now1 now2 =
     (case map_of (mq_once q) key of
        None \<Rightarrow> (Inl ErrLeaseLost, q)
      | Some claim \<Rightarrow>
          if mc_holder claim = token \<and> now1 < mc_expires claim
          then (Inr (), q\<lparr>mq_once := AList.update key
                  \<lparr>mc_holder = onceDoneMarker, mc_expires = now2 + keep\<rparr> (mq_once q)\<rparr>)
          else (Inl ErrLeaseLost, q))"

definition mq_AbandonOnce :: "MemoryQueue \<Rightarrow> string \<Rightarrow> string \<Rightarrow> MemoryQueue" where
  "mq_AbandonOnce q key token =
     (case map_of (mq_once q) key of
        None \<Rightarrow> q
      | Some claim \<Rightarrow>
          if mc_holder claim = token then q\<lparr>mq_once := AList.delete key (mq_once q)\<rparr> else q)"

subsection \<open>Failed jobs\<close>

definition failedJob :: "memoryJob \<Rightarrow> Failure \<Rightarrow> FailedJob" where
  "failedJob j f =
     \<lparr>fj_Queue = mj_queue j, fj_Envelope = (mj_env j)\<lparr>env_Attempt := mj_attempts j\<rparr>,
      fj_RawEnvelope = mj_raw j, fj_Attempts = mj_attempts j, fj_Failure = f\<rparr>"

fun collectFailed :: "string \<Rightarrow> (memoryKey \<times> memoryJob) list \<Rightarrow> FailedJob list" where
  "collectFailed queue [] = []"
| "collectFailed queue ((k, j) # rest) =
     (case mj_failure j of
        None \<Rightarrow> collectFailed queue rest
      | Some f \<Rightarrow> if mj_queue j = queue then failedJob j f # collectFailed queue rest
                  else collectFailed queue rest)"

text \<open>The comparison \<open>sort.Slice\<close> is given: latest failure first, then the larger ID.\<close>

definition failedLess :: "FailedJob \<Rightarrow> FailedJob \<Rightarrow> bool" where
  "failedLess a b =
     (if f_At (fj_Failure a) \<noteq> f_At (fj_Failure b)
      then f_At (fj_Failure b) < f_At (fj_Failure a)
      else env_ID (fj_Envelope b) < env_ID (fj_Envelope a))"

fun insertFailed :: "FailedJob \<Rightarrow> FailedJob list \<Rightarrow> FailedJob list" where
  "insertFailed x [] = [x]"
| "insertFailed x (y # ys) = (if failedLess y x then y # insertFailed x ys else x # y # ys)"

fun sortFailed :: "FailedJob list \<Rightarrow> FailedJob list" where
  "sortFailed [] = []"
| "sortFailed (x # xs) = insertFailed x (sortFailed xs)"

definition mq_Failed :: "MemoryQueue \<Rightarrow> string \<Rightarrow> int \<Rightarrow> queue_error + FailedJob list" where
  "mq_Failed q queue limit =
     (if \<not> ValidName queue then Inl (ErrInvalidQueue queue)
      else if mq_closed q then Inl ErrClosed
      else let out = sortFailed (collectFailed queue (mq_jobs q)) in
           Inr (if 0 < limit \<and> limit < int (length out) then take (nat limit) out else out))"

definition failed :: "MemoryQueue \<Rightarrow> string \<Rightarrow> string \<Rightarrow> queue_error + memoryJob \<times> Failure" where
  "failed q queue jid =
     (if mq_closed q then Inl ErrClosed
      else case map_of (mq_jobs q) (queue, jid) of
             None \<Rightarrow> Inl ErrNotFailed
           | Some job \<Rightarrow>
               (case mj_failure job of None \<Rightarrow> Inl ErrNotFailed | Some f \<Rightarrow> Inr (job, f)))"

definition mq_FailedJob :: "MemoryQueue \<Rightarrow> string \<Rightarrow> string \<Rightarrow> queue_error + FailedJob" where
  "mq_FailedJob q queue jid =
     (case failed q queue jid of Inl err \<Rightarrow> Inl err | Inr (job, f) \<Rightarrow> Inr (failedJob job f))"

text \<open>\<open>RetryFailed\<close> reads the clock for the claim (\<open>now1\<close>) and for the job (\<open>now2\<close>).\<close>

definition requeue :: "memoryJob \<Rightarrow> gotime \<Rightarrow> nat \<Rightarrow> memoryJob" where
  "requeue job now seq =
     job\<lparr>mj_failure := None, mj_attempts := 0, mj_availableAt := now, mj_seq := seq\<rparr>"

definition mq_RetryFailed ::
  "MemoryQueue \<Rightarrow> string \<Rightarrow> string \<Rightarrow> gotime \<Rightarrow> gotime \<Rightarrow> (queue_error, unit, MemoryQueue) outcome"
where
  "mq_RetryFailed q queue jid now1 now2 =
     (case failed q queue jid of
        Inl err \<Rightarrow> (Inl err, q)
      | Inr (job, f) \<Rightarrow>
          let seq = Suc (mq_seq q) in
          if mj_unique job = ''''
          then (Inr (), putJob (q\<lparr>mq_seq := seq\<rparr>) (queue, jid) (requeue job now2 seq))
          else
            let ukey = (queue, mj_unique job);
                holder = (case map_of (mq_uniques q) ukey of
                            None \<Rightarrow> None
                          | Some claim \<Rightarrow>
                              if now1 < mc_expires claim \<and> mc_holder claim \<noteq> jid
                              then Some (mc_holder claim) else None)
            in case holder of
                 Some h \<Rightarrow> (Inl (DuplicateError queue (mj_unique job) h), q)
               | None \<Rightarrow>
                   (Inr (), putJob (q\<lparr>mq_seq := seq,
                                     mq_uniques := AList.update ukey
                                       \<lparr>mc_holder = jid, mc_expires = now1 + mj_uniqueTTL job\<rparr>
                                       (mq_uniques q)\<rparr>)
                              (queue, jid) (requeue (job\<lparr>mj_heldUnique := True\<rparr>) now2 seq)))"

definition mq_ForgetFailed ::
  "MemoryQueue \<Rightarrow> string \<Rightarrow> string \<Rightarrow> (queue_error, unit, MemoryQueue) outcome" where
  "mq_ForgetFailed q queue jid =
     (case failed q queue jid of
        Inl err \<Rightarrow> (Inl err, q)
      | Inr _ \<Rightarrow> (Inr (), q\<lparr>mq_jobs := AList.delete (queue, jid) (mq_jobs q)\<rparr>))"

definition purged :: "string \<Rightarrow> gotime \<Rightarrow> memoryJob \<Rightarrow> bool" where
  "purged queue cutoff j =
     (mj_queue j = queue \<and>
      (case mj_failure j of None \<Rightarrow> False | Some f \<Rightarrow> IsZero cutoff \<or> f_At f < cutoff))"

definition mq_PurgeFailed ::
  "MemoryQueue \<Rightarrow> string \<Rightarrow> gotime \<Rightarrow> (queue_error, nat, MemoryQueue) outcome" where
  "mq_PurgeFailed q queue cutoff =
     (if \<not> ValidName queue then (Inl (ErrInvalidQueue queue), q)
      else if mq_closed q then (Inl ErrClosed, q)
      else (Inr (length (filter (\<lambda>(k, j). purged queue cutoff j) (mq_jobs q))),
            q\<lparr>mq_jobs := filter (\<lambda>(k, j). \<not> purged queue cutoff j) (mq_jobs q)\<rparr>))"

subsection \<open>Counts and closing\<close>

definition countJob :: "gotime \<Rightarrow> memoryJob \<Rightarrow> QueueStats \<Rightarrow> QueueStats" where
  "countJob now job st =
     (if mj_failure job \<noteq> None then st\<lparr>qs_Failed := Suc (qs_Failed st)\<rparr>
      else if mj_reserved job \<and> now < mj_leaseDeadline job
      then st\<lparr>qs_Reserved := Suc (qs_Reserved st)\<rparr>
      else if \<not> mj_reserved job \<and> now < mj_availableAt job
      then st\<lparr>qs_Scheduled := Suc (qs_Scheduled st)\<rparr>
      else let st' = st\<lparr>qs_Ready := Suc (qs_Ready st)\<rparr>; at = readyAt job in
           if IsZero (qs_OldestReady st') \<or> at < qs_OldestReady st'
           then st'\<lparr>qs_OldestReady := at\<rparr> else st')"

fun countJobs ::
  "gotime \<Rightarrow> string \<Rightarrow> (memoryKey \<times> memoryJob) list \<Rightarrow> QueueStats \<Rightarrow> QueueStats" where
  "countJobs now queue [] st = st"
| "countJobs now queue ((k, j) # rest) st =
     countJobs now queue rest (if mj_queue j \<noteq> queue then st else countJob now j st)"

definition zeroStats :: QueueStats where
  "zeroStats = \<lparr>qs_Ready = 0, qs_Scheduled = 0, qs_Reserved = 0, qs_Failed = 0,
     qs_OldestReady = 0\<rparr>"

definition mq_Stats :: "MemoryQueue \<Rightarrow> string \<Rightarrow> gotime \<Rightarrow> queue_error + QueueStats" where
  "mq_Stats q queue now =
     (if \<not> ValidName queue then Inl (ErrInvalidQueue queue)
      else if mq_closed q then Inl ErrClosed
      else Inr (countJobs now queue (mq_jobs q) zeroStats))"

definition mq_Len :: "MemoryQueue \<Rightarrow> nat" where
  "mq_Len q = length (mq_jobs q)"

definition mq_Close :: "MemoryQueue \<Rightarrow> MemoryQueue" where
  "mq_Close q = q\<lparr>mq_closed := True, mq_jobs := []\<rparr>"

subsection \<open>The invariant\<close>

text \<open>
  What every method keeps: a job is stored under its queue and ID, an ID is never empty, a job's
  sequence number was handed out and is no other job's, a lease has a receipt and is never on a
  failed job, a job that is not leased has no receipt, and a job that holds a uniqueness key names
  one and has not failed.
\<close>

definition job_ok :: "nat \<Rightarrow> memoryKey \<Rightarrow> memoryJob \<Rightarrow> bool" where
  "job_ok seq k j \<longleftrightarrow>
     k = jobKey j \<and> env_ID (mj_env j) \<noteq> '''' \<and> ValidName (mj_queue j) \<and>
     env_Attempt (mj_env j) = 0 \<and> mj_seq j \<le> seq \<and> 0 \<le> mj_attempts j \<and>
     (mj_reserved j \<longrightarrow> mj_receipt j \<noteq> '''' \<and> mj_failure j = None) \<and>
     (\<not> mj_reserved j \<longrightarrow> mj_receipt j = '''') \<and>
     (mj_heldUnique j \<longrightarrow> mj_unique j \<noteq> '''' \<and> mj_failure j = None)"

definition mq_ok :: "MemoryQueue \<Rightarrow> bool" where
  "mq_ok q \<longleftrightarrow>
     distinct (map fst (mq_jobs q)) \<and> distinct (map fst (mq_uniques q)) \<and>
     distinct (map fst (mq_once q)) \<and>
     (\<forall>k j. map_of (mq_jobs q) k = Some j \<longrightarrow> job_ok (mq_seq q) k j) \<and>
     (\<forall>k1 j1 k2 j2. map_of (mq_jobs q) k1 = Some j1 \<longrightarrow> map_of (mq_jobs q) k2 = Some j2 \<longrightarrow>
        mj_seq j1 = mj_seq j2 \<longrightarrow> k1 = k2)"

lemma seq_uniques_comm [simp]:
  "mq_uniques_update g (mq_seq_update f q) = mq_seq_update f (mq_uniques_update g q)"
  by (cases q) simp

lemma mq_ok_job: "mq_ok q \<Longrightarrow> map_of (mq_jobs q) k = Some j \<Longrightarrow> job_ok (mq_seq q) k j"
  by (simp add: mq_ok_def)

lemma mq_ok_inj:
  "mq_ok q \<Longrightarrow> map_of (mq_jobs q) k1 = Some j1 \<Longrightarrow> map_of (mq_jobs q) k2 = Some j2 \<Longrightarrow>
   mj_seq j1 = mj_seq j2 \<Longrightarrow> k1 = k2"
  unfolding mq_ok_def by blast

lemma job_ok_mono: "job_ok s k j \<Longrightarrow> s \<le> s' \<Longrightarrow> job_ok s' k j"
  by (simp add: job_ok_def)

lemma mq_ok_distinct: "mq_ok q \<Longrightarrow> distinct (map fst (mq_jobs q))"
  by (simp add: mq_ok_def)

lemma mq_ok_new: "mq_ok NewMemoryQueue"
  by (simp add: mq_ok_def NewMemoryQueue_def)

text \<open>Replacing a job, keeping its sequence number or taking the next one.\<close>

lemma putJob_ok:
  assumes "mq_ok q" "map_of (mq_jobs q) k = Some j" "job_ok (mq_seq q) k j'" "mj_seq j' = mj_seq j"
  shows "mq_ok (putJob q k j')"
  using assms unfolding mq_ok_def putJob_def by (auto simp: distinct_update)

lemma putJob_fresh_ok:
  assumes ok: "mq_ok q" and j: "job_ok (Suc (mq_seq q)) k j'" "mj_seq j' = Suc (mq_seq q)"
  shows "mq_ok (putJob (q\<lparr>mq_seq := Suc (mq_seq q)\<rparr>) k j')"
proof -
  have le: "mj_seq j < Suc (mq_seq q)" if "map_of (mq_jobs q) k' = Some j" for k' j
    using mq_ok_job[OF ok that] by (simp add: job_ok_def)
  have "job_ok (Suc (mq_seq q)) k' j" if "map_of (mq_jobs q) k' = Some j" for k' j
    using mq_ok_job[OF ok that] by (auto simp: job_ok_def)
  with ok j le show ?thesis
    unfolding mq_ok_def putJob_def by (auto simp: distinct_update) (metis less_irrefl)+
qed

lemma delete_job_ok: "mq_ok q \<Longrightarrow> mq_ok (q\<lparr>mq_jobs := AList.delete k (mq_jobs q)\<rparr>)"
  unfolding mq_ok_def by (auto simp: distinct_delete)

lemma filter_job_ok: "mq_ok q \<Longrightarrow> mq_ok (q\<lparr>mq_jobs := filter P (mq_jobs q)\<rparr>)"
  unfolding mq_ok_def
  by (auto simp: distinct_fst_filter map_of_filter_distinct split: option.splits if_splits)

lemma mq_ok_uniques:
  "mq_ok q \<Longrightarrow> distinct (map fst us) \<Longrightarrow> mq_ok (q\<lparr>mq_uniques := us\<rparr>)"
  by (simp add: mq_ok_def)

lemma mq_ok_once: "mq_ok q \<Longrightarrow> distinct (map fst os) \<Longrightarrow> mq_ok (q\<lparr>mq_once := os\<rparr>)"
  by (simp add: mq_ok_def)

lemma sweepClaims_ok: "mq_ok q \<Longrightarrow> mq_ok (sweepClaims q now)"
  by (simp add: mq_ok_def sweepClaims_def Let_def distinct_fst_filter)

lemma sweepClaims_jobs [simp]:
  "mq_jobs (sweepClaims q now) = mq_jobs q" "mq_seq (sweepClaims q now) = mq_seq q"
  "mq_closed (sweepClaims q now) = mq_closed q"
  by (simp_all add: sweepClaims_def Let_def)

text \<open>A sweep drops expired entries only: an unexpired claim or record reads the same.\<close>

lemma sweepClaims_live:
  assumes "mq_ok q"
  shows "map_of (mq_uniques (sweepClaims q now)) k = Some c \<and> now < mc_expires c \<longleftrightarrow>
         map_of (mq_uniques q) k = Some c \<and> now < mc_expires c"
    and "map_of (mq_once (sweepClaims q now)) o' = Some c \<and> now < mc_expires c \<longleftrightarrow>
         map_of (mq_once q) o' = Some c \<and> now < mc_expires c"
  using assms by (auto simp: sweepClaims_def Let_def mq_ok_def map_of_filter_distinct
      split: option.splits if_splits)

lemma releaseUnique_frame [simp]:
  "mq_jobs (fst (releaseUnique q j)) = mq_jobs q"
  "mq_seq (fst (releaseUnique q j)) = mq_seq q"
  "mq_closed (fst (releaseUnique q j)) = mq_closed q"
  "mq_once (fst (releaseUnique q j)) = mq_once q"
  by (auto simp: releaseUnique_def Let_def split: option.splits)

lemma releaseUnique_job:
  "snd (releaseUnique q j) = j\<lparr>mj_heldUnique := False\<rparr>"
  by (cases j) (auto simp: releaseUnique_def Let_def split: option.splits)

lemma releaseUnique_ok: "mq_ok q \<Longrightarrow> mq_ok (fst (releaseUnique q j))"
  by (auto simp: releaseUnique_def Let_def mq_ok_def distinct_delete split: option.splits)

subsection \<open>Reading a lease\<close>

lemma leased_Inr:
  "leased q d = Inr job \<longleftrightarrow>
     \<not> mq_closed q \<and> map_of (mq_jobs q) (deliveryKey d) = Some job \<and> mj_reserved job \<and>
     d_Receipt d \<noteq> '''' \<and> mj_receipt job = d_Receipt d"
  by (auto simp: leased_def deliveryKey_def split: option.splits)

lemma leased_Inl:
  "leased q d = Inl e \<Longrightarrow> e = (if mq_closed q then ErrClosed else ErrLeaseLost)"
  by (auto simp: leased_def split: option.splits if_splits)

lemma leased_key: "mq_ok q \<Longrightarrow> leased q d = Inr job \<Longrightarrow> jobKey job = deliveryKey d"
  by (auto simp: leased_Inr dest: mq_ok_job simp: job_ok_def)

lemma leased_failure: "mq_ok q \<Longrightarrow> leased q d = Inr job \<Longrightarrow> mj_failure job = None"
  by (auto simp: leased_Inr dest: mq_ok_job simp: job_ok_def)

subsection \<open>Every operation keeps the invariant\<close>

lemma storeJob_ok:
  assumes "mq_ok q" "ValidName queue" "env_ID env \<noteq> ''''" "\<And>u. unique = Some u \<Longrightarrow> uk_Key u \<noteq> ''''"
  shows "mq_ok (storeJob q queue env at unique now)"
proof -
  let ?s = "Suc (mq_seq q)"
  let ?job = "newJob queue (env\<lparr>env_Attempt := 0\<rparr>) (clampAt at now) ?s"
  show ?thesis
  proof (cases unique)
    case None
    have "mq_ok (putJob (q\<lparr>mq_seq := ?s\<rparr>) (queue, env_ID env) ?job)"
      by (rule putJob_fresh_ok) (use assms in \<open>simp_all add: job_ok_def newJob_def jobKey_def\<close>)
    then show ?thesis by (simp add: storeJob_def Let_def None putJob_def)
  next
    case (Some u)
    let ?q = "q\<lparr>mq_uniques := AList.update (queue, uk_Key u)
                \<lparr>mc_holder = env_ID env, mc_expires = now + uk_TTL u\<rparr> (mq_uniques q)\<rparr>"
    let ?job' = "if uk_UntilDone u then ?job\<lparr>mj_unique := uk_Key u, mj_uniqueTTL := uk_TTL u,
                   mj_heldUnique := True\<rparr> else ?job"
    have "mq_ok ?q"
      using assms(1) by (intro mq_ok_uniques) (simp_all add: distinct_update mq_ok_def)
    then have "mq_ok (putJob (?q\<lparr>mq_seq := Suc (mq_seq ?q)\<rparr>) (queue, env_ID env) ?job')"
      by (rule putJob_fresh_ok)
        (use assms Some in \<open>simp_all add: job_ok_def newJob_def jobKey_def\<close>)
    then show ?thesis by (simp add: storeJob_def Let_def Some putJob_def split: if_splits)
  qed
qed

lemma push_cases:
  assumes "push q queue env at unique n1 n2 n3 = (r, q')"
  obtains (refused) e where "r = Inl e"
      "q' = q \<or> (\<exists>u. unique = Some u) \<and> q' = sweepClaims q n1"
  | (stored) q1 where "r = Inr ()" "q' = storeJob q1 queue env at unique n3"
      "q1 = q \<and> unique = None \<or> (\<exists>u. unique = Some u) \<and> q1 = sweepClaims q n1"
      "ValidName queue" "env_ID env \<noteq> ''''" "\<not> mq_closed q"
      "map_of (mq_jobs q) (queue, env_ID env) = None"
  using assms by (auto simp: push_def Let_def split: if_splits option.splits)

lemma push_ok:
  assumes ok: "mq_ok q" and u: "\<And>u. unique = Some u \<Longrightarrow> uk_Key u \<noteq> ''''"
    and eq: "push q queue env at unique n1 n2 n3 = (r, q')"
  shows "mq_ok q'"
  using eq
proof (cases rule: push_cases)
  case (refused e)
  with ok show ?thesis by (auto simp: sweepClaims_ok)
next
  case (stored q1)
  with ok have "mq_ok q1" by (auto simp: sweepClaims_ok)
  with stored u show ?thesis by (auto intro: storeJob_ok)
qed

lemma mq_Push_ok: "mq_ok q \<Longrightarrow> mq_ok (snd (mq_Push q queue env at now))"
  by (cases "mq_Push q queue env at now") (auto simp: mq_Push_def intro: push_ok)

lemma mq_PushUnique_ok: "mq_ok q \<Longrightarrow> mq_ok (snd (mq_PushUnique q queue env at u n1 n2 n3))"
  by (cases "push q queue env at (Some u) n1 n2 n3")
    (auto simp: mq_PushUnique_def unique_validate_def intro: push_ok)

lemma leaseJob_ok:
  "job_ok s k j \<Longrightarrow> mj_failure j = None \<Longrightarrow> receipt \<noteq> '''' \<Longrightarrow> job_ok s k (leaseJob j receipt now lease)"
  by (simp add: job_ok_def leaseJob_def jobKey_def)

lemma release_ok: "mq_ok q \<Longrightarrow> mq_ok (snd (release q d at uncount now))"
  by (auto simp: release_def Let_def leased_Inr split: sum.splits intro!: putJob_fresh_ok
      dest: mq_ok_job simp: job_ok_def jobKey_def)

lemma mq_Release_ok: "mq_ok q \<Longrightarrow> mq_ok (snd (mq_Release q d at now))"
  and mq_Postpone_ok: "mq_ok q \<Longrightarrow> mq_ok (snd (mq_Postpone q d at now))"
  by (simp_all add: mq_Release_def mq_Postpone_def release_ok)

lemma mq_Extend_ok: "mq_ok q \<Longrightarrow> mq_ok (snd (mq_Extend q d lease now))"
  by (auto simp: mq_Extend_def leased_Inr split: sum.splits intro!: putJob_ok
      dest: mq_ok_job simp: job_ok_def jobKey_def)

lemma mq_Ack_eq:
  "leased q d = Inr job \<Longrightarrow>
   mq_Ack q d = (Inr (), (fst (releaseUnique q job))\<lparr>mq_jobs := AList.delete (jobKey job) (mq_jobs q)\<rparr>)"
  by (simp add: mq_Ack_def split_beta releaseUnique_job jobKey_def)

lemma mq_Ack_err: "leased q d = Inl e \<Longrightarrow> mq_Ack q d = (Inl e, q)"
  by (simp add: mq_Ack_def)

lemma mq_Ack_ok: "mq_ok q \<Longrightarrow> mq_ok (snd (mq_Ack q d))"
  using delete_job_ok[OF releaseUnique_ok, of q]
  by (cases "leased q d") (auto simp: mq_Ack_eq mq_Ack_err)

definition buried :: "memoryJob \<Rightarrow> Failure \<Rightarrow> gotime \<Rightarrow> memoryJob" where
  "buried j f now =
     j\<lparr>mj_reserved := False, mj_receipt := '''',
       mj_failure := Some (if IsZero (f_At f) then f\<lparr>f_At := now\<rparr> else f), mj_heldUnique := False\<rparr>"

lemma mq_Bury_eq:
  "leased q d = Inr job \<Longrightarrow>
   mq_Bury q d f now = (Inr (), putJob (fst (releaseUnique q job)) (deliveryKey d) (buried job f now))"
  by (cases job) (auto simp: mq_Bury_def Let_def releaseUnique_def buried_def split: option.splits)

lemma mq_Bury_err: "leased q d = Inl e \<Longrightarrow> mq_Bury q d f now = (Inl e, q)"
  by (simp add: mq_Bury_def)

lemma mq_Bury_ok:
  assumes ok: "mq_ok q"
  shows "mq_ok (snd (mq_Bury q d f now))"
proof (cases "leased q d")
  case (Inl e)
  with ok show ?thesis by (simp add: mq_Bury_err)
next
  case (Inr job)
  then have j: "map_of (mq_jobs q) (deliveryKey d) = Some job" by (simp add: leased_Inr)
  have "mq_ok (putJob (fst (releaseUnique q job)) (deliveryKey d) (buried job f now))"
    by (rule putJob_ok[OF releaseUnique_ok[OF ok]])
      (use j mq_ok_job[OF ok j] in \<open>auto simp: job_ok_def buried_def jobKey_def\<close>)
  with Inr show ?thesis by (simp add: mq_Bury_eq)
qed

lemma mq_BeginOnce_frame [simp]:
  "mq_jobs (snd (mq_BeginOnce q key token lock now)) = mq_jobs q"
  "mq_uniques (snd (mq_BeginOnce q key token lock now)) = mq_uniques (sweepClaims q now)"
  "mq_closed (snd (mq_BeginOnce q key token lock now)) = mq_closed q"
  by (auto simp: mq_BeginOnce_def Let_def split: option.splits)

lemma mq_BeginOnce_ok: "mq_ok q \<Longrightarrow> mq_ok (snd (mq_BeginOnce q key token lock now))"
  by (drule sweepClaims_ok[where now = now])
    (auto simp: mq_BeginOnce_def Let_def mq_ok_def distinct_update split: option.splits)

lemma mq_FinishOnce_ok: "mq_ok q \<Longrightarrow> mq_ok (snd (mq_FinishOnce q key token keep n1 n2))"
  by (auto simp: mq_FinishOnce_def mq_ok_def distinct_update split: option.splits)

lemma mq_AbandonOnce_ok: "mq_ok q \<Longrightarrow> mq_ok (mq_AbandonOnce q key token)"
  by (auto simp: mq_AbandonOnce_def mq_ok_def distinct_delete split: option.splits)

lemma failed_Inr:
  "failed q queue jid = Inr (job, f) \<longleftrightarrow>
     \<not> mq_closed q \<and> map_of (mq_jobs q) (queue, jid) = Some job \<and> mj_failure job = Some f"
  by (auto simp: failed_def split: option.splits)

lemma requeue_ok:
  "job_ok s k j \<Longrightarrow> mj_failure j \<noteq> None \<Longrightarrow> held \<longrightarrow> mj_unique j \<noteq> '''' \<Longrightarrow> s \<le> seq \<Longrightarrow>
   job_ok seq k (requeue (j\<lparr>mj_heldUnique := held\<rparr>) now seq)"
  by (auto simp: job_ok_def requeue_def jobKey_def)

lemma mq_RetryFailed_ok: "mq_ok q \<Longrightarrow> mq_ok (snd (mq_RetryFailed q queue jid n1 n2))"
proof (cases "failed q queue jid")
  case (Inl e)
  then show "mq_ok q \<Longrightarrow> ?thesis" by (simp add: mq_RetryFailed_def)
next
  case (Inr jf)
  obtain job f where jf: "jf = (job, f)" by (cases jf)
  assume ok: "mq_ok q"
  from Inr jf have j: "map_of (mq_jobs q) (queue, jid) = Some job" "mj_failure job = Some f"
    by (simp_all add: failed_Inr)
  then have jok: "job_ok (mq_seq q) (queue, jid) job" using ok by (simp add: mq_ok_job)
  let ?s = "Suc (mq_seq q)"
  have held: "job_ok ?s (queue, jid) (requeue (job\<lparr>mj_heldUnique := h\<rparr>) n2 ?s)"
    if "h \<longrightarrow> mj_unique job \<noteq> ''''" for h
    by (rule requeue_ok[OF jok]) (use j that in simp_all)
  show ?thesis
  proof (cases "mj_unique job = ''''")
    case True
    with jok have "\<not> mj_heldUnique job" by (simp add: job_ok_def)
    with held[of False] have "job_ok ?s (queue, jid) (requeue job n2 ?s)" by (cases job) simp
    with ok have "mq_ok (putJob (q\<lparr>mq_seq := ?s\<rparr>) (queue, jid) (requeue job n2 ?s))"
      by (intro putJob_fresh_ok) (simp_all add: requeue_def)
    with Inr jf True show ?thesis by (simp add: mq_RetryFailed_def Let_def)
  next
    case False
    let ?us = "AList.update (queue, mj_unique job)
                 \<lparr>mc_holder = jid, mc_expires = n1 + mj_uniqueTTL job\<rparr> (mq_uniques q)"
    let ?q = "q\<lparr>mq_uniques := ?us\<rparr>"
    have "mq_ok ?q" using ok by (intro mq_ok_uniques) (simp_all add: mq_ok_def distinct_update)
    moreover have "job_ok (Suc (mq_seq ?q)) (queue, jid) (requeue (job\<lparr>mj_heldUnique := True\<rparr>) n2 ?s)"
      using held[of True] False by simp
    ultimately have "mq_ok (putJob (?q\<lparr>mq_seq := Suc (mq_seq ?q)\<rparr>) (queue, jid)
        (requeue (job\<lparr>mj_heldUnique := True\<rparr>) n2 ?s))"
      by (rule putJob_fresh_ok) (simp add: requeue_def)
    then show ?thesis
      using ok Inr jf False by (auto simp: mq_RetryFailed_def Let_def split: option.splits)
  qed
qed

lemma mq_ForgetFailed_ok: "mq_ok q \<Longrightarrow> mq_ok (snd (mq_ForgetFailed q queue jid))"
  by (auto simp: mq_ForgetFailed_def delete_job_ok split: sum.splits)

lemma mq_PurgeFailed_ok: "mq_ok q \<Longrightarrow> mq_ok (snd (mq_PurgeFailed q queue cutoff))"
  by (simp add: mq_PurgeFailed_def filter_job_ok)

lemma mq_Close_ok: "mq_ok q \<Longrightarrow> mq_ok (mq_Close q)"
  by (simp add: mq_ok_def mq_Close_def)

subsection \<open>What Reserve picks\<close>

text \<open>
  \<open>before\<close> orders jobs by when they became available and then by push order; it is a strict
  order, total on jobs with different sequence numbers.
\<close>

lemma before_irrefl [simp]: "\<not> before j j"
  by (simp add: before_def Let_def)

lemma before_trans: "before a b \<Longrightarrow> before b c \<Longrightarrow> before a c"
  by (auto simp: before_def Let_def split: if_splits)

lemma before_asym: "before a b \<Longrightarrow> \<not> before b a"
  by (auto simp: before_def Let_def split: if_splits)

lemma not_before_trans: "\<not> before a b \<Longrightarrow> \<not> before b c \<Longrightarrow> \<not> before a c"
  by (auto simp: before_def Let_def split: if_splits)

lemma before_total: "mj_seq a \<noteq> mj_seq b \<Longrightarrow> \<not> before a b \<Longrightarrow> before b a"
  by (auto simp: before_def Let_def split: if_splits)

definition eligible :: "gotime \<Rightarrow> string \<Rightarrow> memoryJob \<Rightarrow> bool" where
  "eligible now queue j \<longleftrightarrow> mj_queue j = queue \<and> available j now"

lemma reserveScan_None:
  "reserveScan now queue al next = None \<longleftrightarrow>
     next = None \<and> (\<forall>kj \<in> set al. \<not> eligible now queue (snd kj))"
  by (induction al arbitrary: "next") (auto simp: eligible_def split: option.splits)

lemma reserveScan_Some:
  "reserveScan now queue al next = Some kj \<Longrightarrow>
     next = Some kj \<or> kj \<in> set al \<and> eligible now queue (snd kj)"
  by (induction al arbitrary: "next") (auto simp: eligible_def split: option.splits if_splits)

lemma reserveScan_least:
  "reserveScan now queue al next = Some kj \<Longrightarrow>
     (\<forall>n. next = Some n \<longrightarrow> \<not> before (snd n) (snd kj)) \<and>
     (\<forall>kj' \<in> set al. eligible now queue (snd kj') \<longrightarrow> \<not> before (snd kj') (snd kj))"
proof (induction al arbitrary: "next")
  case Nil
  then show ?case by simp
next
  case (Cons a al)
  show ?case
  proof (cases "eligible now queue (snd a)")
    case False
    with Cons show ?thesis by (auto simp: eligible_def)
  next
    case True
    show ?thesis
    proof (cases "case next of None \<Rightarrow> True | Some n \<Rightarrow> before (snd a) (snd n)")
      case better: True
      with True Cons.prems have "reserveScan now queue al (Some a) = Some kj"
        by (simp add: eligible_def)
      note IH = Cons.IH[OF this]
      have "\<not> before (snd n) (snd kj)" if "next = Some n" for n
        using IH better that before_asym before_trans not_before_trans by (metis option.simps(5))
      with IH show ?thesis by auto
    next
      case worse: False
      then obtain n where n: "next = Some n" "\<not> before (snd a) (snd n)"
        by (auto split: option.splits)
      with True Cons.prems have "reserveScan now queue al next = Some kj"
        by (simp add: eligible_def)
      note IH = Cons.IH[OF this]
      with n show ?thesis using not_before_trans by auto
    qed
  qed
qed

text \<open>
  \<open>nextJob\<close> is what \<open>Reserve\<close> promises to pick in a queue: an available job that became
  available before every other available job of the queue. No iteration order enters it.
\<close>

definition nextJob :: "MemoryQueue \<Rightarrow> gotime \<Rightarrow> string \<Rightarrow> memoryKey \<Rightarrow> memoryJob \<Rightarrow> bool" where
  "nextJob q now queue k j \<longleftrightarrow>
     map_of (mq_jobs q) k = Some j \<and> eligible now queue j \<and>
     (\<forall>k' j'. map_of (mq_jobs q) k' = Some j' \<longrightarrow> eligible now queue j' \<longrightarrow> k' \<noteq> k \<longrightarrow> before j j')"

definition noneEligible :: "MemoryQueue \<Rightarrow> gotime \<Rightarrow> string \<Rightarrow> bool" where
  "noneEligible q now queue \<longleftrightarrow>
     (\<forall>k j. map_of (mq_jobs q) k = Some j \<longrightarrow> \<not> eligible now queue j)"

lemma reserveScan_nextJob:
  assumes "mq_ok q"
  shows "reserveScan now queue (mq_jobs q) None = Some (k, j) \<longleftrightarrow> nextJob q now queue k j"
proof
  assume scan: "reserveScan now queue (mq_jobs q) None = Some (k, j)"
  from reserveScan_Some[OF scan] have kj: "map_of (mq_jobs q) k = Some j" "eligible now queue j"
    using mq_ok_distinct[OF assms] by auto
  have "before j j'" if "map_of (mq_jobs q) k' = Some j'" "eligible now queue j'" "k' \<noteq> k" for k' j'
  proof -
    have "\<not> before j' j" using reserveScan_least[OF scan] map_of_in_set[OF that(1)] that(2) by auto
    moreover have "mj_seq j' \<noteq> mj_seq j" using mq_ok_inj[OF assms that(1) kj(1)] that(3) by blast
    ultimately show ?thesis using before_total by metis
  qed
  with kj show "nextJob q now queue k j" by (simp add: nextJob_def)
next
  assume nj: "nextJob q now queue k j"
  then have "(k, j) \<in> set (mq_jobs q)" "eligible now queue j"
    by (auto simp: nextJob_def dest: map_of_in_set)
  then obtain k' j' where scan: "reserveScan now queue (mq_jobs q) None = Some (k', j')"
    by (cases "reserveScan now queue (mq_jobs q) None") (auto simp: reserveScan_None)
  from reserveScan_Some[OF scan] have k': "map_of (mq_jobs q) k' = Some j'" "eligible now queue j'"
    using mq_ok_distinct[OF assms] by auto
  have "\<not> before j j'"
    using reserveScan_least[OF scan] \<open>(k, j) \<in> set (mq_jobs q)\<close> \<open>eligible now queue j\<close> by auto
  with nj k' have "k' = k" by (auto simp: nextJob_def)
  with nj k' scan show "reserveScan now queue (mq_jobs q) None = Some (k, j)"
    by (simp add: nextJob_def)
qed

lemma reserveScan_noneEligible:
  assumes "mq_ok q"
  shows "reserveScan now queue (mq_jobs q) None = None \<longleftrightarrow> noneEligible q now queue"
proof -
  have "map_of (mq_jobs q) k = Some j \<longleftrightarrow> (k, j) \<in> set (mq_jobs q)" for k j
    using mq_ok_distinct[OF assms] by (simp add: map_of_eq_Some_iff)
  then show ?thesis by (auto simp: reserveScan_None noneEligible_def)
qed

lemma first_split:
  "(\<exists>qs1 queue qs2. c # cs = qs1 @ queue # qs2 \<and> P qs1 queue) \<longleftrightarrow>
     P [] c \<or> (\<exists>qs1 queue qs2. cs = qs1 @ queue # qs2 \<and> P (c # qs1) queue)"
  by (auto simp: Cons_eq_append_conv)

definition reservedFrom ::
  "MemoryQueue \<Rightarrow> duration \<Rightarrow> string \<Rightarrow> gotime \<Rightarrow> Delivery \<Rightarrow> MemoryQueue \<Rightarrow> string list \<Rightarrow> string \<Rightarrow> bool"
where
  "reservedFrom q lease receipt now d q' qs1 queue \<longleftrightarrow>
     (\<forall>qu \<in> set qs1. noneEligible q now qu) \<and>
     (\<exists>k j. nextJob q now queue k j \<and> d = deliveryOf queue j receipt \<and>
        q' = putJob q k (leaseJob j receipt now lease))"

lemma reserveQueues_Inr:
  assumes "mq_ok q"
  shows "reserveQueues q queues lease receipt now = (Inr d, q') \<longleftrightarrow>
     (\<exists>qs1 queue qs2. queues = qs1 @ queue # qs2 \<and> reservedFrom q lease receipt now d q' qs1 queue)"
proof (induction queues)
  case Nil
  then show ?case by simp
next
  case (Cons queue queues)
  show ?case
  proof (cases "reserveScan now queue (mq_jobs q) None")
    case None
    then have none: "noneEligible q now queue" by (simp add: reserveScan_noneEligible[OF assms])
    then have "\<not> nextJob q now queue k j" for k j by (auto simp: noneEligible_def nextJob_def)
    with None none Cons.IH show ?thesis
      unfolding first_split by (simp add: reservedFrom_def)
  next
    case (Some kj)
    obtain k j where kj: "kj = (k, j)" by (cases kj)
    have nj: "nextJob q now queue k' j' \<longleftrightarrow> k' = k \<and> j' = j" for k' j'
      using Some kj reserveScan_nextJob[OF assms, of now queue k' j'] by auto
    have "nextJob q now queue k j" using nj by simp
    then have some: "\<not> noneEligible q now queue"
      unfolding noneEligible_def nextJob_def by blast
    with Some kj nj show ?thesis
      unfolding first_split by (auto simp: putJob_def reservedFrom_def)
  qed
qed

lemma reserveQueues_Inl:
  assumes "mq_ok q"
  shows "reserveQueues q queues lease receipt now = (Inl e, q') \<longleftrightarrow>
     e = ErrNoJob \<and> q' = q \<and> (\<forall>queue \<in> set queues. noneEligible q now queue)"
proof (induction queues)
  case (Cons queue queues)
  then show ?case
    using reserveScan_noneEligible[OF assms, of now queue]
    by (auto split: option.splits)
qed auto

lemma mq_Reserve_Inr:
  assumes "mq_ok q"
  shows "mq_Reserve q queues lease receipt now = (Inr d, q') \<longleftrightarrow>
     0 < lease \<and> (\<forall>queue \<in> set queues. ValidName queue) \<and> \<not> mq_closed q \<and>
     (\<exists>qs1 queue qs2. queues = qs1 @ queue # qs2 \<and> reservedFrom q lease receipt now d q' qs1 queue)"
  unfolding mq_Reserve_def reserveQueues_Inr[OF assms, symmetric]
  by (auto split: option.splits simp: find_None_iff find_Some_iff)

lemma mq_Reserve_state_err:
  assumes "mq_ok q" "mq_Reserve q queues lease receipt now = (Inl e, q')"
  shows "q' = q"
  using assms(2) reserveQueues_Inl[OF assms(1)]
  by (auto simp: mq_Reserve_def split: if_splits option.splits)

lemma mq_Reserve_ok:
  assumes ok: "mq_ok q" and r: "receipt \<noteq> ''''"
  shows "mq_ok (snd (mq_Reserve q queues lease receipt now))"
proof (cases "mq_Reserve q queues lease receipt now")
  case (Pair r' q')
  show ?thesis
  proof (cases r')
    case (Inl e)
    with Pair have "q' = q" by (auto intro: mq_Reserve_state_err[OF ok])
    with Pair ok show ?thesis by simp
  next
    case (Inr d)
    with Pair mq_Reserve_Inr[OF ok] obtain queue k j where
      nj: "nextJob q now queue k j" and q': "q' = putJob q k (leaseJob j receipt now lease)"
      unfolding reservedFrom_def by blast
    then have j: "map_of (mq_jobs q) k = Some j" "mj_failure j = None"
      by (auto simp: nextJob_def eligible_def available_def split: if_splits)
    have "mq_ok (putJob q k (leaseJob j receipt now lease))"
      by (rule putJob_ok[OF ok j(1)])
        (use leaseJob_ok[OF mq_ok_job[OF ok j(1)] j(2) r] in \<open>simp_all add: leaseJob_def\<close>)
    with Pair q' show ?thesis by simp
  qed
qed

end
