(* ===== verification/Jobs_Queue.thy ===== *)
theory Jobs_Queue
  imports Jobs_Memory
begin

section \<open>The driver contract of a job queue\<close>

text \<open>
  \<open>src/jobs/queue.go\<close> declares the interface \<open>Queue\<close> that a worker consumes and states in its
  comments what every driver promises. Here the interface is the record \<open>queue_ops\<close> of a
  driver's methods, what a driver shows of a job is a \<open>jobView\<close> (waiting, leased or given up),
  and the promises are the locale \<open>leasing_queue\<close>. Its lemmas follow from the promises alone.
  \<open>MemoryQueue\<close> is shown to keep them at the end, by an interpretation.
\<close>

subsection \<open>The interface and what it shows\<close>

datatype jobState = Waiting gotime | LeasedTo string gotime | GivenUp Failure

record jobView =
  jv_env :: Envelope
  jv_attempts :: int
  jv_state :: jobState

text \<open>When a job became, or becomes, available; and whether it is due.\<close>

fun readyTime :: "jobState \<Rightarrow> gotime option" where
  "readyTime (Waiting at) = Some at"
| "readyTime (LeasedTo receipt deadline) = Some deadline"
| "readyTime (GivenUp f) = None"

definition jv_due :: "gotime \<Rightarrow> jobView \<Rightarrow> bool" where
  "jv_due now v \<longleftrightarrow> (case readyTime (jv_state v) of None \<Rightarrow> False | Some t \<Rightarrow> t \<le> now)"

definition jv_isLeased :: "jobView \<Rightarrow> bool" where
  "jv_isLeased v \<longleftrightarrow> (case jv_state v of LeasedTo _ _ \<Rightarrow> True | _ \<Rightarrow> False)"

text \<open>A delivery holds the current lease of the job it names.\<close>

definition holdsLease :: "jobView option \<Rightarrow> Delivery \<Rightarrow> bool" where
  "holdsLease vo d \<longleftrightarrow> d_Receipt d \<noteq> '''' \<and>
     (case vo of
        None \<Rightarrow> False
      | Some v \<Rightarrow> (case jv_state v of LeasedTo r _ \<Rightarrow> r = d_Receipt d | _ \<Rightarrow> False))"

text \<open>
  The methods of the interface. A driver reads its clock inside a call; through the interface a
  call happens at one instant, its last argument.
\<close>

record 'q queue_ops =
  op_Push :: "'q \<Rightarrow> string \<Rightarrow> Envelope \<Rightarrow> gotime \<Rightarrow> gotime \<Rightarrow> (queue_error, unit, 'q) outcome"
  op_PushUnique :: "'q \<Rightarrow> string \<Rightarrow> Envelope \<Rightarrow> gotime \<Rightarrow> UniqueKey \<Rightarrow> gotime
                    \<Rightarrow> (queue_error, unit, 'q) outcome"
  op_Reserve :: "'q \<Rightarrow> string list \<Rightarrow> duration \<Rightarrow> string \<Rightarrow> gotime \<Rightarrow> (queue_error, Delivery, 'q) outcome"
  op_Ack :: "'q \<Rightarrow> Delivery \<Rightarrow> (queue_error, unit, 'q) outcome"
  op_Release :: "'q \<Rightarrow> Delivery \<Rightarrow> gotime \<Rightarrow> gotime \<Rightarrow> (queue_error, unit, 'q) outcome"
  op_Postpone :: "'q \<Rightarrow> Delivery \<Rightarrow> gotime \<Rightarrow> gotime \<Rightarrow> (queue_error, unit, 'q) outcome"
  op_Extend :: "'q \<Rightarrow> Delivery \<Rightarrow> duration \<Rightarrow> gotime \<Rightarrow> (queue_error, unit, 'q) outcome"
  op_Bury :: "'q \<Rightarrow> Delivery \<Rightarrow> Failure \<Rightarrow> gotime \<Rightarrow> (queue_error, unit, 'q) outcome"
  op_Failed :: "'q \<Rightarrow> string \<Rightarrow> int \<Rightarrow> queue_error + FailedJob list"
  op_FailedJob :: "'q \<Rightarrow> string \<Rightarrow> string \<Rightarrow> queue_error + FailedJob"
  op_RetryFailed :: "'q \<Rightarrow> string \<Rightarrow> string \<Rightarrow> gotime \<Rightarrow> (queue_error, unit, 'q) outcome"
  op_ForgetFailed :: "'q \<Rightarrow> string \<Rightarrow> string \<Rightarrow> (queue_error, unit, 'q) outcome"
  op_PurgeFailed :: "'q \<Rightarrow> string \<Rightarrow> gotime \<Rightarrow> (queue_error, nat, 'q) outcome"
  op_Stats :: "'q \<Rightarrow> string \<Rightarrow> gotime \<Rightarrow> queue_error + QueueStats"
  op_Close :: "'q \<Rightarrow> 'q"

definition mem_ops :: "MemoryQueue queue_ops" where
  "mem_ops = \<lparr>op_Push = mq_Push,
     op_PushUnique = (\<lambda>q queue env at u now. mq_PushUnique q queue env at u now now now),
     op_Reserve = mq_Reserve, op_Ack = mq_Ack, op_Release = mq_Release,
     op_Postpone = mq_Postpone, op_Extend = mq_Extend, op_Bury = mq_Bury,
     op_Failed = mq_Failed, op_FailedJob = mq_FailedJob,
     op_RetryFailed = (\<lambda>q queue jid now. mq_RetryFailed q queue jid now now),
     op_ForgetFailed = mq_ForgetFailed, op_PurgeFailed = mq_PurgeFailed, op_Stats = mq_Stats,
     op_Close = mq_Close\<rparr>"

definition viewJob :: "memoryJob \<Rightarrow> jobView" where
  "viewJob j =
     \<lparr>jv_env = mj_env j, jv_attempts = mj_attempts j,
      jv_state = (case mj_failure j of
                    Some f \<Rightarrow> GivenUp f
                  | None \<Rightarrow> if mj_reserved j then LeasedTo (mj_receipt j) (mj_leaseDeadline j)
                            else Waiting (mj_availableAt j))\<rparr>"

definition mq_view :: "MemoryQueue \<Rightarrow> memoryKey \<Rightarrow> jobView option" where
  "mq_view q k = map_option viewJob (map_of (mq_jobs q) k)"

text \<open>
  What a call that settles a delivery promises: with the current lease it succeeds and changes
  that job only; without it, \<open>ErrLeaseLost\<close> and no change; on a closed queue, \<open>ErrClosed\<close>.
\<close>

definition settles ::
  "('q \<Rightarrow> bool) \<Rightarrow> ('q \<Rightarrow> memoryKey \<Rightarrow> jobView option) \<Rightarrow> ('q \<Rightarrow> bool)
   \<Rightarrow> ('q \<Rightarrow> (queue_error, unit, 'q) outcome) \<Rightarrow> Delivery \<Rightarrow> (jobView \<Rightarrow> jobView option) \<Rightarrow> bool" where
  "settles invar view closed call d upd \<longleftrightarrow>
     (\<forall>q. invar q \<longrightarrow>
        (if closed q then call q = (Inl ErrClosed, q)
         else if holdsLease (view q (deliveryKey d)) d
         then \<exists>q'. call q = (Inr (), q') \<and> invar q' \<and> \<not> closed q' \<and>
                view q' = (view q)(deliveryKey d := Option.bind (view q (deliveryKey d)) upd)
         else call q = (Inl ErrLeaseLost, q)))"

definition stampFailure :: "Failure \<Rightarrow> gotime \<Rightarrow> Failure" where
  "stampFailure f now = (if IsZero (f_At f) then f\<lparr>f_At := now\<rparr> else f)"

text \<open>
  What a successful \<open>Reserve\<close> promises: a due job of the first listed queue that has one, no
  other due job of that queue having become available earlier; the delivery counts one more
  attempt and the job is leased under the new receipt.
\<close>

definition reserves ::
  "(memoryKey \<Rightarrow> jobView option) \<Rightarrow> (memoryKey \<Rightarrow> jobView option) \<Rightarrow> string list \<Rightarrow> duration
   \<Rightarrow> string \<Rightarrow> gotime \<Rightarrow> Delivery \<Rightarrow> bool" where
  "reserves view view' queues lease receipt now d \<longleftrightarrow>
     d_Receipt d = receipt \<and> d_Err d = None \<and>
     (\<exists>qs1 qs2. queues = qs1 @ d_Queue d # qs2 \<and>
        (\<forall>queue \<in> set qs1. \<forall>jid v. view (queue, jid) = Some v \<longrightarrow> \<not> jv_due now v)) \<and>
     (\<exists>v. view (deliveryKey d) = Some v \<and> jv_due now v \<and>
        (\<forall>jid v'. view (d_Queue d, jid) = Some v' \<longrightarrow> jv_due now v' \<longrightarrow>
           the (readyTime (jv_state v)) \<le> the (readyTime (jv_state v'))) \<and>
        d_Envelope d = (jv_env v)\<lparr>env_Attempt := jv_attempts v + 1\<rparr> \<and>
        d_LeaseExpired d = jv_isLeased v \<and> Some (d_AvailableAt d) = readyTime (jv_state v) \<and>
        view' = view(deliveryKey d \<mapsto>
                  v\<lparr>jv_attempts := jv_attempts v + 1, jv_state := LeasedTo receipt (now + lease)\<rparr>))"

lemma holdsLease_isLeased: "holdsLease vo d \<Longrightarrow> \<exists>v. vo = Some v \<and> jv_isLeased v"
  by (auto simp: holdsLease_def jv_isLeased_def split: option.splits jobState.splits)

subsection \<open>The contract\<close>

locale leasing_queue =
  fixes ops :: "'q queue_ops"
    and invar :: "'q \<Rightarrow> bool"
    and view :: "'q \<Rightarrow> memoryKey \<Rightarrow> jobView option"
    and closed :: "'q \<Rightarrow> bool"
  assumes reserve_Inr:
    "invar q \<Longrightarrow> receipt \<noteq> '''' \<Longrightarrow> op_Reserve ops q queues lease receipt now = (Inr d, q') \<Longrightarrow>
     0 < lease \<and> invar q' \<and> \<not> closed q' \<and> reserves (view q) (view q') queues lease receipt now d"
    and reserve_Inl:
    "invar q \<Longrightarrow> op_Reserve ops q queues lease receipt now = (Inl e, q') \<Longrightarrow>
     q' = q \<and> (e = ErrNoJob \<longrightarrow>
       (\<forall>queue \<in> set queues. \<forall>jid v. view q (queue, jid) = Some v \<longrightarrow> \<not> jv_due now v))"
    and ack: "settles invar view closed (\<lambda>q. op_Ack ops q d) d (\<lambda>v. None)"
    and release: "settles invar view closed (\<lambda>q. op_Release ops q d at now) d
      (\<lambda>v. Some (v\<lparr>jv_state := Waiting (clampAt at now)\<rparr>))"
    and postpone: "settles invar view closed (\<lambda>q. op_Postpone ops q d at now) d
      (\<lambda>v. Some (v\<lparr>jv_attempts := (if 0 < jv_attempts v then jv_attempts v - 1 else jv_attempts v),
                   jv_state := Waiting (clampAt at now)\<rparr>))"
    and extend: "0 < lease \<Longrightarrow> settles invar view closed (\<lambda>q. op_Extend ops q d lease now) d
      (\<lambda>v. Some (v\<lparr>jv_state := LeasedTo (d_Receipt d) (now + lease)\<rparr>))"
    and bury: "settles invar view closed (\<lambda>q. op_Bury ops q d f now) d
      (\<lambda>v. Some (v\<lparr>jv_state := GivenUp (stampFailure f now)\<rparr>))"
begin

lemma settlesD:
  assumes "settles invar view closed call d upd" "invar q"
  shows "closed q \<Longrightarrow> call q = (Inl ErrClosed, q)"
    and "\<not> closed q \<Longrightarrow> \<not> holdsLease (view q (deliveryKey d)) d \<Longrightarrow> call q = (Inl ErrLeaseLost, q)"
    and "\<not> closed q \<Longrightarrow> holdsLease (view q (deliveryKey d)) d \<Longrightarrow>
         \<exists>q'. call q = (Inr (), q') \<and> invar q' \<and> \<not> closed q' \<and>
           view q' = (view q)(deliveryKey d := Option.bind (view q (deliveryKey d)) upd)"
  using assms unfolding settles_def by (auto split: if_splits)

text \<open>A successful \<open>Reserve\<close> gives its caller the lease.\<close>

lemma reserve_holds:
  assumes "invar q" "receipt \<noteq> ''''" "op_Reserve ops q queues lease receipt now = (Inr d, q')"
  shows "holdsLease (view q' (deliveryKey d)) d"
  using reserve_Inr[OF assms] assms(2) by (auto simp: reserves_def holdsLease_def)

text \<open>
  While a lease runs, no \<open>Reserve\<close> delivers the job; nor does one deliver a job a worker gave up
  on, or one whose time has not come.
\<close>

lemma reserve_only_due:
  assumes "invar q" "receipt \<noteq> ''''" "op_Reserve ops q queues lease receipt now = (Inr d, q')"
    and "view q k = Some v" "\<not> jv_due now v"
  shows "deliveryKey d \<noteq> k"
  using reserve_Inr[OF assms(1-3)] assms(4,5) by (auto simp: reserves_def)

text \<open>
  Once another \<open>Reserve\<close> took the job, nothing the holder of the old lease calls has an effect.
\<close>

lemma stale_lease_lost:
  assumes "invar q" "receipt \<noteq> ''''" "op_Reserve ops q queues lease receipt now = (Inr d2, q')"
    and "deliveryKey d1 = deliveryKey d2" "d_Receipt d1 \<noteq> receipt"
    and "settles invar view closed call d1 upd"
  shows "call q' = (Inl ErrLeaseLost, q')"
proof -
  from reserve_Inr[OF assms(1-3)] have q': "invar q'" "\<not> closed q'"
    and r: "reserves (view q) (view q') queues lease receipt now d2" by auto
  from r assms(4,5) have "\<not> holdsLease (view q' (deliveryKey d1)) d1"
    by (auto simp: reserves_def holdsLease_def)
  with settlesD(2)[OF assms(6) q'(1)] q'(2) show ?thesis by simp
qed

text \<open>A settled delivery cannot be settled again, unless the call only renewed its lease.\<close>

lemma settle_once:
  assumes "settles invar view closed call d upd" "settles invar view closed call2 d upd2"
    and "invar q" "call q = (Inr (), q')"
    and "\<And>v w. upd v = Some w \<Longrightarrow> \<not> jv_isLeased w"
  shows "call2 q' = (Inl ErrLeaseLost, q')"
proof -
  have nc: "\<not> closed q" and h: "holdsLease (view q (deliveryKey d)) d"
    using settlesD(1,2)[OF assms(1,3)] assms(4) by auto
  from settlesD(3)[OF assms(1,3) nc h] assms(4)
  have q': "invar q'" "\<not> closed q'"
    and v: "view q' = (view q)(deliveryKey d := Option.bind (view q (deliveryKey d)) upd)" by auto
  have "\<not> holdsLease (view q' (deliveryKey d)) d"
    using assms(5) unfolding v by (auto dest!: holdsLease_isLeased simp: bind_eq_Some_conv)
  with settlesD(2)[OF assms(2) q'(1) q'(2)] show ?thesis by simp
qed

end

subsection \<open>MemoryQueue keeps the contract\<close>

lemma viewJob_sel [simp]: "jv_env (viewJob j) = mj_env j" "jv_attempts (viewJob j) = mj_attempts j"
  by (simp_all add: viewJob_def)

lemma viewJob_ready:
  "mj_failure j = None \<Longrightarrow> readyTime (jv_state (viewJob j)) = Some (readyAt j)"
  "readyTime (jv_state (viewJob j)) = (if mj_failure j = None then Some (readyAt j) else None)"
  by (auto simp: viewJob_def readyAt_def split: option.splits)

lemma viewJob_due: "jv_due now (viewJob j) \<longleftrightarrow> available j now"
  by (auto simp: jv_due_def available_def viewJob_ready readyAt_def)

lemma viewJob_isLeased: "mj_failure j = None \<Longrightarrow> jv_isLeased (viewJob j) \<longleftrightarrow> mj_reserved j"
  by (simp add: viewJob_def jv_isLeased_def)

lemma mq_view_putJob: "mq_view (putJob q k j) = (mq_view q)(k \<mapsto> viewJob j)"
  by (auto simp: mq_view_def putJob_def fun_eq_iff)

lemma mq_view_delete:
  "mq_view (q\<lparr>mq_jobs := AList.delete k (mq_jobs q')\<rparr>) = (mq_view q')(k := None)"
  by (auto simp: mq_view_def fun_eq_iff)

lemma mq_view_jobs: "mq_jobs q = mq_jobs q' \<Longrightarrow> mq_view q = mq_view q'"
  by (simp add: mq_view_def fun_eq_iff)

lemma putJob_closed [simp]: "mq_closed (putJob q k j) = mq_closed q"
  by (simp add: putJob_def)

lemma mq_view_seq [simp]: "mq_view (q\<lparr>mq_seq := n\<rparr>) = mq_view q"
  by (simp add: mq_view_def fun_eq_iff)

lemma mq_holdsLease:
  assumes "mq_ok q"
  shows "holdsLease (mq_view q (deliveryKey d)) d \<longleftrightarrow>
     (\<exists>job. map_of (mq_jobs q) (deliveryKey d) = Some job \<and> mj_reserved job \<and>
        d_Receipt d \<noteq> '''' \<and> mj_receipt job = d_Receipt d)"
proof (cases "map_of (mq_jobs q) (deliveryKey d)")
  case None
  then show ?thesis by (simp add: holdsLease_def mq_view_def)
next
  case (Some job)
  from mq_ok_job[OF assms Some] have "mj_reserved job \<Longrightarrow> mj_failure job = None"
    by (simp add: job_ok_def)
  with Some show ?thesis
    by (auto simp: holdsLease_def mq_view_def viewJob_def split: option.splits)
qed

lemma mq_leased:
  assumes "mq_ok q"
  shows "mq_closed q \<Longrightarrow> leased q d = Inl ErrClosed"
    and "\<not> mq_closed q \<Longrightarrow> \<not> holdsLease (mq_view q (deliveryKey d)) d \<Longrightarrow> leased q d = Inl ErrLeaseLost"
    and "\<not> mq_closed q \<Longrightarrow> holdsLease (mq_view q (deliveryKey d)) d \<Longrightarrow> \<exists>job. leased q d = Inr job"
  using mq_holdsLease[OF assms, of d]
  by (auto simp add: leased_def deliveryKey_def split: option.splits)

text \<open>The common shape: with the lease, the job is replaced and nothing else is seen to change.\<close>

lemma mq_settlesI:
  assumes err: "\<And>q e. leased q d = Inl e \<Longrightarrow> call q = (Inl e, q)"
    and ok: "\<And>q job. mq_ok q \<Longrightarrow> leased q d = Inr job \<Longrightarrow>
      \<exists>q'. call q = (Inr (), q') \<and> mq_ok q' \<and> \<not> mq_closed q' \<and>
        mq_view q' = (mq_view q)(deliveryKey d := upd (viewJob job))"
  shows "settles mq_ok mq_view mq_closed call d upd"
  unfolding settles_def
proof (intro allI impI)
  fix q
  assume q: "mq_ok q"
  show "if mq_closed q then call q = (Inl ErrClosed, q)
        else if holdsLease (mq_view q (deliveryKey d)) d
        then \<exists>q'. call q = (Inr (), q') \<and> mq_ok q' \<and> \<not> mq_closed q' \<and>
               mq_view q' = (mq_view q)(deliveryKey d := Option.bind (mq_view q (deliveryKey d)) upd)
        else call q = (Inl ErrLeaseLost, q)"
  proof (cases "\<not> mq_closed q \<and> holdsLease (mq_view q (deliveryKey d)) d")
    case True
    then obtain job where job: "leased q d = Inr job" using mq_leased(3)[OF q] by blast
    then have "mq_view q (deliveryKey d) = Some (viewJob job)"
      by (simp add: leased_Inr mq_view_def)
    with ok[OF q job] True show ?thesis by simp
  next
    case False
    then show ?thesis using mq_leased(1,2)[OF q] err by auto
  qed
qed

lemma mq_Ack_settles: "settles mq_ok mq_view mq_closed (\<lambda>q. mq_Ack q d) d (\<lambda>v. None)"
proof (rule mq_settlesI)
  fix q job
  assume q: "mq_ok q" and l: "leased q d = Inr job"
  show "\<exists>q'. mq_Ack q d = (Inr (), q') \<and> mq_ok q' \<and> \<not> mq_closed q' \<and>
      mq_view q' = (mq_view q)(deliveryKey d := None)"
    using mq_Ack_ok[OF q, of d] leased_key[OF q l] leased_Inr[THEN iffD1, OF l]
    by (simp add: mq_Ack_eq[OF l] mq_view_delete)
qed (rule mq_Ack_err)

lemma release_settles:
  "settles mq_ok mq_view mq_closed (\<lambda>q. release q d at uncount now) d
     (\<lambda>v. Some (v\<lparr>jv_attempts := (if uncount \<and> 0 < jv_attempts v then jv_attempts v - 1
                                  else jv_attempts v),
                  jv_state := Waiting (clampAt at now)\<rparr>))"
proof (rule mq_settlesI)
  fix q job
  assume q: "mq_ok q" and l: "leased q d = Inr job"
  have "mq_ok (snd (release q d at uncount now))" by (rule release_ok[OF q])
  with l leased_failure[OF q l] leased_Inr[THEN iffD1, OF l]
  show "\<exists>q'. release q d at uncount now = (Inr (), q') \<and> mq_ok q' \<and> \<not> mq_closed q' \<and>
      mq_view q' = (mq_view q)(deliveryKey d \<mapsto>
        (viewJob job)\<lparr>jv_attempts := (if uncount \<and> 0 < jv_attempts (viewJob job)
                                      then jv_attempts (viewJob job) - 1
                                      else jv_attempts (viewJob job)),
                     jv_state := Waiting (clampAt at now)\<rparr>)"
    by (simp add: release_def Let_def mq_view_putJob viewJob_def)
qed (simp add: release_def)

lemma mq_Extend_settles:
  assumes "0 < lease"
  shows "settles mq_ok mq_view mq_closed (\<lambda>q. mq_Extend q d lease now) d
     (\<lambda>v. Some (v\<lparr>jv_state := LeasedTo (d_Receipt d) (now + lease)\<rparr>))"
proof (rule mq_settlesI)
  fix q job
  assume q: "mq_ok q" and l: "leased q d = Inr job"
  have "mq_ok (snd (mq_Extend q d lease now))" by (rule mq_Extend_ok[OF q])
  with assms l leased_failure[OF q l] leased_Inr[THEN iffD1, OF l]
  show "\<exists>q'. mq_Extend q d lease now = (Inr (), q') \<and> mq_ok q' \<and> \<not> mq_closed q' \<and>
      mq_view q' = (mq_view q)(deliveryKey d \<mapsto>
        (viewJob job)\<lparr>jv_state := LeasedTo (d_Receipt d) (now + lease)\<rparr>)"
    by (simp add: mq_Extend_def mq_view_putJob viewJob_def)
qed (use assms in \<open>simp add: mq_Extend_def\<close>)

lemma mq_Bury_settles:
  "settles mq_ok mq_view mq_closed (\<lambda>q. mq_Bury q d f now) d
     (\<lambda>v. Some (v\<lparr>jv_state := GivenUp (stampFailure f now)\<rparr>))"
proof (rule mq_settlesI)
  fix q job
  assume q: "mq_ok q" and l: "leased q d = Inr job"
  have "mq_ok (snd (mq_Bury q d f now))" by (rule mq_Bury_ok[OF q])
  with l leased_Inr[THEN iffD1, OF l] show "\<exists>q'. mq_Bury q d f now = (Inr (), q') \<and> mq_ok q' \<and> \<not> mq_closed q' \<and>
      mq_view q' = (mq_view q)(deliveryKey d \<mapsto>
        (viewJob job)\<lparr>jv_state := GivenUp (stampFailure f now)\<rparr>)"
    by (simp add: mq_Bury_eq mq_view_putJob viewJob_def buried_def stampFailure_def
        mq_view_jobs[of "fst (releaseUnique q job)" q])
qed (rule mq_Bury_err)

lemma mq_view_due:
  assumes "mq_ok q"
  shows "noneEligible q now queue \<longleftrightarrow> (\<forall>jid v. mq_view q (queue, jid) = Some v \<longrightarrow> \<not> jv_due now v)"
proof
  assume "noneEligible q now queue"
  then show "\<forall>jid v. mq_view q (queue, jid) = Some v \<longrightarrow> \<not> jv_due now v"
    using mq_ok_job[OF assms]
    by (auto simp: noneEligible_def eligible_def mq_view_def viewJob_due job_ok_def jobKey_def)
next
  assume none: "\<forall>jid v. mq_view q (queue, jid) = Some v \<longrightarrow> \<not> jv_due now v"
  show "noneEligible q now queue"
    unfolding noneEligible_def
  proof (intro allI impI notI)
    fix k j
    assume j: "map_of (mq_jobs q) k = Some j" "eligible now queue j"
    then have "k = (queue, env_ID (mj_env j))"
      using mq_ok_job[OF assms j(1)] by (simp add: eligible_def job_ok_def jobKey_def)
    with j none[rule_format, of "env_ID (mj_env j)" "viewJob j"] show False
      by (simp add: mq_view_def viewJob_due eligible_def)
  qed
qed

lemma before_readyAt: "\<not> before a b \<Longrightarrow> readyAt b \<le> readyAt a"
  by (auto simp: before_def Let_def split: if_splits)

lemma reservedFrom_reserves:
  assumes q: "mq_ok q" and queues: "queues = qs1 @ queue # qs2"
    and r: "reservedFrom q lease receipt now d q' qs1 queue"
  shows "reserves (mq_view q) (mq_view q') queues lease receipt now d"
proof -
  from r obtain k j where none: "\<forall>queue \<in> set qs1. noneEligible q now queue"
    and nj: "nextJob q now queue k j" and d: "d = deliveryOf queue j receipt"
    and q': "q' = putJob q k (leaseJob j receipt now lease)"
    unfolding reservedFrom_def by blast
  from nj have j: "map_of (mq_jobs q) k = Some j" "available j now" "mj_queue j = queue"
    by (auto simp: nextJob_def eligible_def)
  then have fl: "mj_failure j = None" by (simp add: available_def split: if_splits)
  have k: "k = deliveryKey d" "deliveryKey d = (queue, env_ID (mj_env j))"
    using mq_ok_job[OF q j(1)] j(3) by (auto simp: d job_ok_def jobKey_def deliveryOf_def deliveryKey_def)
  have le: "readyAt j \<le> readyAt j'"
    if "map_of (mq_jobs q) (queue, jid) = Some j'" "available j' now" for jid j'
  proof (cases "(queue, jid) = k")
    case False
    have "mj_queue j' = queue" using mq_ok_job[OF q that(1)] by (simp add: job_ok_def jobKey_def)
    with nj that False have "before j j'" by (auto simp: nextJob_def eligible_def)
    then show ?thesis by (auto simp: before_def Let_def split: if_splits)
  qed (use that j(1) in auto)
  have "\<forall>queue \<in> set qs1. \<forall>jid v. mq_view q (queue, jid) = Some v \<longrightarrow> \<not> jv_due now v"
    using none mq_view_due[OF q] by blast
  moreover have "mq_view q (deliveryKey d) = Some (viewJob j)" using j(1) k(1) by (simp add: mq_view_def)
  moreover have "mq_view q' = (mq_view q)(deliveryKey d \<mapsto>
      (viewJob j)\<lparr>jv_attempts := jv_attempts (viewJob j) + 1, jv_state := LeasedTo receipt (now + lease)\<rparr>)"
    using fl by (simp add: q' k(1)[symmetric] mq_view_putJob viewJob_def leaseJob_def)
  moreover have "the (readyTime (jv_state (viewJob j))) \<le> the (readyTime (jv_state v'))"
    if v': "mq_view q (d_Queue d, jid) = Some v'" "jv_due now v'" for jid v'
  proof -
    from v' obtain j' where "map_of (mq_jobs q) (queue, jid) = Some j'" "v' = viewJob j'" "available j' now"
      by (auto simp: mq_view_def viewJob_due d deliveryOf_def)
    with le fl show ?thesis by (auto simp: viewJob_ready available_def split: if_splits)
  qed
  ultimately show ?thesis
    using j fl queues unfolding reserves_def
    by (auto simp: d deliveryOf_def viewJob_due viewJob_isLeased viewJob_ready)
qed

interpretation mem: leasing_queue mem_ops mq_ok mq_view mq_closed
proof
  fix q receipt queues lease now d q'
  assume q: "mq_ok q" and r: "receipt \<noteq> ''''"
    and res: "op_Reserve mem_ops q queues lease receipt now = (Inr d, q')"
  then have res: "mq_Reserve q queues lease receipt now = (Inr d, q')" by (simp add: mem_ops_def)
  then obtain qs1 queue qs2 where s: "0 < lease" "\<not> mq_closed q" "queues = qs1 @ queue # qs2"
    and rf: "reservedFrom q lease receipt now d q' qs1 queue"
    using mq_Reserve_Inr[OF q] by blast
  from rf s(2) have "\<not> mq_closed q'" by (auto simp: reservedFrom_def)
  with s reservedFrom_reserves[OF q s(3) rf] mq_Reserve_ok[OF q r, of queues lease now] res
  show "0 < lease \<and> mq_ok q' \<and> \<not> mq_closed q' \<and>
      reserves (mq_view q) (mq_view q') queues lease receipt now d" by simp
next
  fix q queues lease receipt now e q'
  assume q: "mq_ok q" and "op_Reserve mem_ops q queues lease receipt now = (Inl e, q')"
  then have res: "mq_Reserve q queues lease receipt now = (Inl e, q')" by (simp add: mem_ops_def)
  have "\<forall>queue \<in> set queues. noneEligible q now queue" if "e = ErrNoJob"
    using res that reserveQueues_Inl[OF q]
    by (auto simp: mq_Reserve_def split: if_splits option.splits)
  with mq_Reserve_state_err[OF q res] mq_view_due[OF q]
  show "q' = q \<and> (e = ErrNoJob \<longrightarrow>
      (\<forall>queue \<in> set queues. \<forall>jid v. mq_view q (queue, jid) = Some v \<longrightarrow> \<not> jv_due now v))" by blast
qed (simp_all add: mem_ops_def mq_Ack_settles mq_Extend_settles mq_Bury_settles mq_Release_def
  mq_Postpone_def release_settles[where uncount = False, simplified]
  release_settles[where uncount = True, simplified])

end
