(* ===== verification/Jobs_Traces.thy ===== *)
theory Jobs_Traces
  imports Jobs_Queue
begin

section \<open>Histories of the in-memory queue\<close>

text \<open>
  Goroutines call the methods of a \<open>MemoryQueue\<close> in any order; its mutex makes a history a
  sequence of whole calls. A call with its arguments, its clock readings and its new receipt is
  an \<open>mq_call\<close>, what its caller sees is an \<open>mq_obs\<close>, and \<open>mq_run\<close> runs a history. The
  theorems say what holds of every history: the invariant, that a lease is exclusive until its
  deadline, that a job is only removed by who may remove it, that one \<open>Reserve\<close> after another
  drains a queue in order, and that uniqueness claims and \<open>Once\<close> locks exclude each other.
\<close>

datatype mq_call =
    CPush string Envelope gotime gotime
  | CPushUnique string Envelope gotime UniqueKey gotime gotime gotime
  | CReserve "string list" duration string gotime
  | CAck Delivery
  | CRelease Delivery gotime gotime
  | CPostpone Delivery gotime gotime
  | CExtend Delivery duration gotime
  | CBury Delivery Failure gotime
  | CBeginOnce string string duration gotime
  | CFinishOnce string string duration gotime gotime
  | CAbandonOnce string string
  | CRetryFailed string string gotime gotime
  | CForgetFailed string string
  | CPurgeFailed string gotime
  | CClose

datatype mq_obs = ODone | OErr queue_error | ODelivery Delivery | OOnce OnceState | OPurged nat

definition obs :: "('a \<Rightarrow> mq_obs) \<Rightarrow> (queue_error, 'a, MemoryQueue) outcome \<Rightarrow> mq_obs \<times> MemoryQueue" where
  "obs f r = (case fst r of Inl e \<Rightarrow> OErr e | Inr a \<Rightarrow> f a, snd r)"

fun mq_do :: "mq_call \<Rightarrow> MemoryQueue \<Rightarrow> mq_obs \<times> MemoryQueue" where
  "mq_do (CPush queue env at now) q = obs (\<lambda>_. ODone) (mq_Push q queue env at now)"
| "mq_do (CPushUnique queue env at u n1 n2 n3) q =
     obs (\<lambda>_. ODone) (mq_PushUnique q queue env at u n1 n2 n3)"
| "mq_do (CReserve queues lease receipt now) q = obs ODelivery (mq_Reserve q queues lease receipt now)"
| "mq_do (CAck d) q = obs (\<lambda>_. ODone) (mq_Ack q d)"
| "mq_do (CRelease d at now) q = obs (\<lambda>_. ODone) (mq_Release q d at now)"
| "mq_do (CPostpone d at now) q = obs (\<lambda>_. ODone) (mq_Postpone q d at now)"
| "mq_do (CExtend d lease now) q = obs (\<lambda>_. ODone) (mq_Extend q d lease now)"
| "mq_do (CBury d f now) q = obs (\<lambda>_. ODone) (mq_Bury q d f now)"
| "mq_do (CBeginOnce key token lock now) q =
     (OOnce (fst (mq_BeginOnce q key token lock now)), snd (mq_BeginOnce q key token lock now))"
| "mq_do (CFinishOnce key token keep n1 n2) q = obs (\<lambda>_. ODone) (mq_FinishOnce q key token keep n1 n2)"
| "mq_do (CAbandonOnce key token) q = (ODone, mq_AbandonOnce q key token)"
| "mq_do (CRetryFailed queue jid n1 n2) q = obs (\<lambda>_. ODone) (mq_RetryFailed q queue jid n1 n2)"
| "mq_do (CForgetFailed queue jid) q = obs (\<lambda>_. ODone) (mq_ForgetFailed q queue jid)"
| "mq_do (CPurgeFailed queue cutoff) q = obs OPurged (mq_PurgeFailed q queue cutoff)"
| "mq_do CClose q = (ODone, mq_Close q)"

fun mq_run :: "mq_call list \<Rightarrow> MemoryQueue \<Rightarrow> mq_obs list \<times> MemoryQueue" where
  "mq_run [] q = ([], q)"
| "mq_run (c # cs) q =
     (let (ob, q1) = mq_do c q; (obs, q2) = mq_run cs q1 in (ob # obs, q2))"

text \<open>A receipt is a fresh UUID, so never the empty string.\<close>

fun call_ok :: "mq_call \<Rightarrow> bool" where
  "call_ok (CReserve queues lease receipt now) \<longleftrightarrow> receipt \<noteq> ''''"
| "call_ok _ \<longleftrightarrow> True"

inductive mq_reachable :: "MemoryQueue \<Rightarrow> bool" where
  start: "mq_reachable NewMemoryQueue"
| call: "mq_reachable q \<Longrightarrow> call_ok c \<Longrightarrow> mq_reachable (snd (mq_do c q))"

lemma snd_obs [simp]: "snd (obs f r) = snd r"
  by (simp add: obs_def)

lemma obs_ODelivery:
  "obs ODelivery r = (ODelivery d, q') \<longleftrightarrow> r = (Inr d, q')"
  "fst (obs ODelivery r) = ODelivery d \<longleftrightarrow> fst r = Inr d"
  by (cases r; auto simp: obs_def split: sum.splits)+

lemma mq_run_Cons [simp]:
  "mq_run (c # cs) q =
     (fst (mq_do c q) # fst (mq_run cs (snd (mq_do c q))), snd (mq_run cs (snd (mq_do c q))))"
  by (simp add: split_beta)

declare mq_run.simps(2) [simp del]

lemma mq_run_append:
  "mq_run (cs @ ds) q =
     (fst (mq_run cs q) @ fst (mq_run ds (snd (mq_run cs q))), snd (mq_run ds (snd (mq_run cs q))))"
  by (induction cs arbitrary: q) simp_all

lemma length_mq_run [simp]: "length (fst (mq_run cs q)) = length cs"
  by (induction cs arbitrary: q) simp_all

lemmas mq_ops_ok = mq_Push_ok mq_PushUnique_ok mq_Reserve_ok mq_Ack_ok mq_Release_ok mq_Postpone_ok
  mq_Extend_ok mq_Bury_ok mq_BeginOnce_ok mq_FinishOnce_ok mq_AbandonOnce_ok mq_RetryFailed_ok
  mq_ForgetFailed_ok mq_PurgeFailed_ok mq_Close_ok

lemma mq_do_ok: "mq_ok q \<Longrightarrow> call_ok c \<Longrightarrow> mq_ok (snd (mq_do c q))"
  by (cases c) (simp_all add: mq_ops_ok)

lemma mq_run_ok: "mq_ok q \<Longrightarrow> list_all call_ok cs \<Longrightarrow> mq_ok (snd (mq_run cs q))"
  by (induction cs arbitrary: q) (simp_all add: mq_do_ok)

lemma reachable_ok: "mq_reachable q \<Longrightarrow> mq_ok q"
  by (induction rule: mq_reachable.induct) (simp_all add: mq_ok_new mq_do_ok)

text \<open>Only \<open>Close\<close> closes the queue, and nothing opens it again.\<close>

lemma mq_Reserve_closed [simp]: "mq_closed (snd (mq_Reserve q queues lease receipt now)) = mq_closed q"
proof -
  have "mq_closed (snd (reserveQueues q queues lease receipt now)) = mq_closed q"
    by (induction queues) (auto split: option.splits)
  then show ?thesis by (simp add: mq_Reserve_def split: option.splits)
qed

lemma push_closed [simp]: "mq_closed (snd (push q queue env at u n1 n2 n3)) = mq_closed q"
  by (auto simp: push_def storeJob_def Let_def split: option.splits)

lemma settle_closed [simp]:
  "mq_closed (snd (mq_Ack q d)) = mq_closed q"
  "mq_closed (snd (release q d at uncount now)) = mq_closed q"
  "mq_closed (snd (mq_Extend q d lease now)) = mq_closed q"
  "mq_closed (snd (mq_Bury q d f now)) = mq_closed q"
  by (auto simp: mq_Ack_def release_def mq_Extend_def mq_Bury_def Let_def split_beta split: sum.splits)

lemma mq_RetryFailed_closed [simp]: "mq_closed (snd (mq_RetryFailed q queue jid n1 n2)) = mq_closed q"
  by (auto simp: mq_RetryFailed_def Let_def split: option.splits sum.splits if_splits)

lemma mq_do_closed: "mq_closed (snd (mq_do c q)) = (c = CClose \<or> mq_closed q)"
  by (cases c) (auto simp: mq_Push_def mq_PushUnique_def mq_Release_def mq_Postpone_def mq_FinishOnce_def
      mq_AbandonOnce_def mq_ForgetFailed_def mq_PurgeFailed_def mq_Close_def
      split: option.splits sum.splits)

lemma mq_run_closed: "mq_closed (snd (mq_run cs q)) = (CClose \<in> set cs \<or> mq_closed q)"
  by (induction cs arbitrary: q) (auto simp: mq_do_closed)

subsection \<open>What a call does to a job\<close>

text \<open>Each operation's effect on the entry of one key.\<close>

lemma storeJob_jobs:
  "k \<noteq> (queue, env_ID env) \<Longrightarrow>
   map_of (mq_jobs (storeJob q queue env at u now)) k = map_of (mq_jobs q) k"
  by (auto simp: storeJob_def Let_def split: option.splits)

lemma push_at:
  assumes "map_of (mq_jobs q) k = Some j"
  shows "map_of (mq_jobs (snd (push q queue env at u n1 n2 n3))) k = Some j"
proof (cases "push q queue env at u n1 n2 n3")
  case (Pair r q')
  then show ?thesis
  proof (cases rule: push_cases)
    case (stored q1)
    with assms have "k \<noteq> (queue, env_ID env)" by auto
    with stored(3) show ?thesis by (auto simp: Pair assms storeJob_jobs stored(2))
  qed (auto simp: Pair assms)
qed

lemma mq_Reserve_at:
  assumes "mq_ok q" "map_of (mq_jobs q) k = Some j"
  shows "map_of (mq_jobs (snd (mq_Reserve q queues lease receipt now))) k =
     Some (if \<exists>d. fst (mq_Reserve q queues lease receipt now) = Inr d \<and> deliveryKey d = k
           then leaseJob j receipt now lease else j)"
    and "fst (mq_Reserve q queues lease receipt now) = Inr d \<Longrightarrow> deliveryKey d = k \<Longrightarrow> available j now"
proof -
  obtain r q' where r: "mq_Reserve q queues lease receipt now = (r, q')" by (cases "mq_Reserve q queues lease receipt now")
  have "map_of (mq_jobs q') k =
     Some (if \<exists>d. r = Inr d \<and> deliveryKey d = k then leaseJob j receipt now lease else j) \<and>
     (\<forall>d. r = Inr d \<longrightarrow> deliveryKey d = k \<longrightarrow> available j now)"
  proof (cases r)
    case (Inl e)
    with r mq_Reserve_state_err[OF assms(1)] have "q' = q" by blast
    with Inl assms show ?thesis by simp
  next
    case (Inr d)
    with r mq_Reserve_Inr[OF assms(1)] obtain queue k' j' where
      nj: "nextJob q now queue k' j'" and d: "d = deliveryOf queue j' receipt"
      and q': "q' = putJob q k' (leaseJob j' receipt now lease)"
      unfolding reservedFrom_def by blast
    from nj have j': "map_of (mq_jobs q) k' = Some j'" "mj_queue j' = queue" "available j' now"
      by (auto simp: nextJob_def eligible_def)
    then have "deliveryKey d = k'"
      using mq_ok_job[OF assms(1) j'(1)] by (simp add: d deliveryOf_def deliveryKey_def job_ok_def jobKey_def)
    with Inr q' j' assms(2) show ?thesis by (auto simp: putJob_def)
  qed
  with r show "map_of (mq_jobs (snd (mq_Reserve q queues lease receipt now))) k =
     Some (if \<exists>d. fst (mq_Reserve q queues lease receipt now) = Inr d \<and> deliveryKey d = k
           then leaseJob j receipt now lease else j)"
    and "fst (mq_Reserve q queues lease receipt now) = Inr d \<Longrightarrow> deliveryKey d = k \<Longrightarrow> available j now"
    by simp_all
qed

text \<open>A settling call touches the job it names only, and that one only with its lease.\<close>

definition unleased :: "MemoryQueue \<Rightarrow> Delivery \<Rightarrow> memoryKey \<Rightarrow> bool" where
  "unleased q d k \<longleftrightarrow> deliveryKey d \<noteq> k \<or> (\<forall>job. leased q d \<noteq> Inr job)"

lemma settle_other:
  assumes "unleased q d k" "mq_ok q"
  shows "map_of (mq_jobs (snd (mq_Ack q d))) k = map_of (mq_jobs q) k"
    and "map_of (mq_jobs (snd (release q d at uncount now))) k = map_of (mq_jobs q) k"
    and "map_of (mq_jobs (snd (mq_Extend q d lease now))) k = map_of (mq_jobs q) k"
    and "map_of (mq_jobs (snd (mq_Bury q d f now))) k = map_of (mq_jobs q) k"
  using assms leased_key[OF assms(2)]
  by (cases "leased q d";
      auto simp: unleased_def mq_Ack_eq mq_Ack_err release_def mq_Extend_def mq_Bury_eq mq_Bury_err
        putJob_def Let_def)+

lemma failed_other:
  assumes "map_of (mq_jobs q) k = Some j" "mj_failure j = None"
  shows "map_of (mq_jobs (snd (mq_RetryFailed q queue jid n1 n2))) k = Some j"
    and "map_of (mq_jobs (snd (mq_ForgetFailed q queue jid))) k = Some j"
    and "mq_ok q \<Longrightarrow> map_of (mq_jobs (snd (mq_PurgeFailed q queue cutoff))) k = Some j"
  using assms mq_ok_distinct
  by (auto simp: mq_RetryFailed_def mq_ForgetFailed_def mq_PurgeFailed_def failed_def putJob_def Let_def
      purged_def map_of_filter_distinct split: option.splits sum.splits if_splits)

subsection \<open>Push order\<close>

text \<open>
  A call leaves a job its place in the order, or sends it to the end: a job that is pushed,
  released or retried gets a number above all that were handed out.
\<close>

definition ordersAfter :: "MemoryQueue \<Rightarrow> MemoryQueue \<Rightarrow> bool" where
  "ordersAfter q q' \<longleftrightarrow> (\<forall>k j'. map_of (mq_jobs q') k = Some j' \<longrightarrow>
     (\<exists>j. map_of (mq_jobs q) k = Some j \<and> mj_seq j' = mj_seq j) \<or> mj_seq j' = Suc (mq_seq q))"

lemma ordersAfter_same [simp]: "mq_jobs q' = mq_jobs q \<Longrightarrow> ordersAfter q q'"
  by (simp add: ordersAfter_def)

lemma ordersAfter_put:
  assumes "map_of (mq_jobs q) k = Some j \<and> mj_seq j' = mj_seq j \<or> mj_seq j' = Suc (mq_seq q)" "mq_jobs q' = mq_jobs q"
  shows "ordersAfter q (putJob q' k j')"
  using assms by (auto simp: ordersAfter_def putJob_def)

lemma push_orders: "ordersAfter q (snd (push q queue env at u n1 n2 n3))"
proof (cases "push q queue env at u n1 n2 n3")
  case (Pair r q')
  then show ?thesis
  proof (cases rule: push_cases)
    case (stored q1)
    then have "mq_jobs q1 = mq_jobs q" "mq_seq q1 = mq_seq q" by auto
    with stored(2) Pair show ?thesis
      by (auto simp: ordersAfter_def storeJob_def newJob_def Let_def split: option.splits if_splits)
  qed (use Pair in auto)
qed

lemma reserve_orders:
  assumes "mq_ok q"
  shows "ordersAfter q (snd (mq_Reserve q queues lease receipt now))"
proof (cases "mq_Reserve q queues lease receipt now")
  case (Pair r q')
  show ?thesis
  proof (cases r)
    case (Inl e)
    with Pair have "q' = q" using mq_Reserve_state_err[OF assms] by simp
    with Pair show ?thesis by simp
  next
    case (Inr d)
    with Pair have "mq_Reserve q queues lease receipt now = (Inr d, q')" by simp
    then obtain k j where "map_of (mq_jobs q) k = Some j" "q' = putJob q k (leaseJob j receipt now lease)"
      unfolding mq_Reserve_Inr[OF assms] reservedFrom_def nextJob_def by blast
    then show ?thesis using Pair by (simp add: ordersAfter_put[of q k j] leaseJob_def)
  qed
qed

lemma settle_orders:
  "ordersAfter q (snd (mq_Ack q d))" "ordersAfter q (snd (release q d at uncount now))"
  "ordersAfter q (snd (mq_Extend q d lease now))" "ordersAfter q (snd (mq_Bury q d f now))"
proof -
  have "ordersAfter q (snd (mq_Ack q d)) \<and> ordersAfter q (snd (release q d at uncount now)) \<and>
    ordersAfter q (snd (mq_Extend q d lease now)) \<and> ordersAfter q (snd (mq_Bury q d f now))"
  proof (cases "leased q d")
    case (Inl e)
    then show ?thesis by (simp add: mq_Ack_err release_def mq_Extend_def mq_Bury_err)
  next
    case (Inr job)
    from leased_Inr[THEN iffD1, OF Inr] have job: "map_of (mq_jobs q) (deliveryKey d) = Some job" by simp
    have "ordersAfter q (snd (mq_Ack q d))" by (simp add: mq_Ack_eq[OF Inr] ordersAfter_def)
    then show ?thesis
      by (simp add: Inr release_def mq_Extend_def mq_Bury_eq[OF Inr] buried_def Let_def
          ordersAfter_put[of q "deliveryKey d" job] job)
  qed
  then show "ordersAfter q (snd (mq_Ack q d))" "ordersAfter q (snd (release q d at uncount now))"
    "ordersAfter q (snd (mq_Extend q d lease now))" "ordersAfter q (snd (mq_Bury q d f now))" by simp_all
qed

lemma failed_orders:
  assumes "mq_ok q"
  shows "ordersAfter q (snd (mq_RetryFailed q queue jid n1 n2))"
    "ordersAfter q (snd (mq_ForgetFailed q queue jid))" "ordersAfter q (snd (mq_PurgeFailed q queue cutoff))"
  using mq_ok_distinct[OF assms]
  by (auto simp: ordersAfter_def mq_RetryFailed_def mq_ForgetFailed_def mq_PurgeFailed_def putJob_def
      requeue_def Let_def map_of_filter_distinct split: option.splits sum.splits if_splits)

lemma call_orders:
  assumes "mq_ok q"
  shows "ordersAfter q (snd (mq_do c q))"
  using assms
  by (cases c)
    (auto simp: push_orders reserve_orders settle_orders failed_orders mq_Push_def mq_PushUnique_def
      mq_Release_def mq_Postpone_def mq_FinishOnce_def mq_AbandonOnce_def mq_BeginOnce_def Let_def
      mq_Close_def ordersAfter_def[of q "q\<lparr>mq_closed := True, mq_jobs := []\<rparr>"] split: option.splits)

lemma orders_last:
  assumes "mq_ok q" "ordersAfter q q'" "map_of (mq_jobs q') k = Some j'"
  shows "(\<exists>j. map_of (mq_jobs q) k = Some j \<and> mj_seq j' = mj_seq j) \<or>
     (\<forall>k0 j0. map_of (mq_jobs q) k0 = Some j0 \<longrightarrow> mj_seq j0 < mj_seq j')"
proof -
  have "mj_seq j0 \<le> mq_seq q" if "map_of (mq_jobs q) k0 = Some j0" for k0 j0
    using mq_ok_job[OF assms(1) that] by (simp add: job_ok_def)
  with assms(2,3) show ?thesis unfolding ordersAfter_def by (metis le_imp_less_Suc)
qed

subsection \<open>A lease is exclusive\<close>

text \<open>
  A call that leaves the lease \<open>receipt\<close> on the job \<open>k\<close> alone: a \<open>Reserve\<close> before the
  deadline, a settling call that does not present the lease's receipt, anything else but \<open>Close\<close>.
\<close>

fun leavesLease :: "memoryKey \<Rightarrow> string \<Rightarrow> gotime \<Rightarrow> mq_call \<Rightarrow> bool" where
  "leavesLease k receipt deadline (CReserve queues lease r now) \<longleftrightarrow> r \<noteq> '''' \<and> now < deadline"
| "leavesLease k receipt deadline (CAck d) \<longleftrightarrow> deliveryKey d \<noteq> k \<or> d_Receipt d \<noteq> receipt"
| "leavesLease k receipt deadline (CRelease d at now) \<longleftrightarrow> deliveryKey d \<noteq> k \<or> d_Receipt d \<noteq> receipt"
| "leavesLease k receipt deadline (CPostpone d at now) \<longleftrightarrow> deliveryKey d \<noteq> k \<or> d_Receipt d \<noteq> receipt"
| "leavesLease k receipt deadline (CExtend d lease now) \<longleftrightarrow> deliveryKey d \<noteq> k \<or> d_Receipt d \<noteq> receipt"
| "leavesLease k receipt deadline (CBury d f now) \<longleftrightarrow> deliveryKey d \<noteq> k \<or> d_Receipt d \<noteq> receipt"
| "leavesLease k receipt deadline CClose \<longleftrightarrow> False"
| "leavesLease k receipt deadline _ \<longleftrightarrow> True"

lemma leavesLease_unleased:
  "deliveryKey d \<noteq> k \<or> d_Receipt d \<noteq> mj_receipt j \<Longrightarrow> map_of (mq_jobs q) k = Some j \<Longrightarrow> unleased q d k"
  by (auto simp: unleased_def leased_Inr)

lemma leavesLease_open: "list_all (leavesLease k r t) cs \<Longrightarrow> CClose \<notin> set cs"
  by (auto simp: list_all_iff)

lemma leavesLease_ok: "leavesLease k r t c \<Longrightarrow> call_ok c"
  by (cases c) simp_all

lemma mq_FinishOnce_jobs [simp]: "mq_jobs (snd (mq_FinishOnce q key token keep n1 n2)) = mq_jobs q"
  by (simp add: mq_FinishOnce_def split: option.splits)

lemma mq_AbandonOnce_jobs [simp]: "mq_jobs (mq_AbandonOnce q key token) = mq_jobs q"
  by (simp add: mq_AbandonOnce_def split: option.splits)

lemma mq_PushUnique_at:
  "map_of (mq_jobs q) k = Some j \<Longrightarrow>
   map_of (mq_jobs (snd (mq_PushUnique q queue env at u n1 n2 n3))) k = Some j"
  by (simp add: mq_PushUnique_def push_at split: option.splits)

lemma lease_kept:
  assumes ok: "mq_ok q" and j: "map_of (mq_jobs q) k = Some j" "mj_reserved j"
    and c: "leavesLease k (mj_receipt j) (mj_leaseDeadline j) c"
  shows "map_of (mq_jobs (snd (mq_do c q))) k = Some j"
    and "fst (mq_do c q) = ODelivery d \<Longrightarrow> deliveryKey d \<noteq> k"
proof -
  have fl: "mj_failure j = None" using mq_ok_job[OF ok j(1)] j(2) by (simp add: job_ok_def)
  note un = leavesLease_unleased[OF _ j(1)]
  have av: "\<not> available j now" if "now < mj_leaseDeadline j" for now
    using that j(2) fl by (simp add: available_def)
  note * = settle_other[OF un ok] failed_other[OF j(1) fl] mq_Reserve_at[OF ok j(1)] av
  show "map_of (mq_jobs (snd (mq_do c q))) k = Some j"
    using c by (cases c) (auto dest!: mq_Reserve_at(2)[OF ok j(1)] simp: * mq_Push_def push_at mq_PushUnique_at mq_Release_def mq_Postpone_def ok j(1))
  show "deliveryKey d \<noteq> k" if "fst (mq_do c q) = ODelivery d"
    using c that
    by (cases c) (auto dest: mq_Reserve_at(2)[OF ok j(1)] simp: av obs_ODelivery obs_def split: sum.splits)
qed

lemma run_lease_kept:
  assumes "mq_ok q" "map_of (mq_jobs q) k = Some j" "mj_reserved j"
    and "list_all (leavesLease k (mj_receipt j) (mj_leaseDeadline j)) cs"
  shows "map_of (mq_jobs (snd (mq_run cs q))) k = Some j \<and>
     (\<forall>d. ODelivery d \<in> set (fst (mq_run cs q)) \<longrightarrow> deliveryKey d \<noteq> k)"
  using assms
proof (induction cs arbitrary: q)
  case (Cons c cs)
  then have c: "leavesLease k (mj_receipt j) (mj_leaseDeadline j) c" by simp
  note step = lease_kept[OF Cons.prems(1-3) c]
  from Cons.IH[OF mq_do_ok[OF Cons.prems(1) leavesLease_ok[OF c]] step(1) Cons.prems(3)] Cons.prems(4) step(2)
  show ?case by auto
qed simp

subsection \<open>A job is not lost\<close>

text \<open>The calls that may remove the job \<open>k\<close> from the queue \<open>q\<close>.\<close>

definition removes :: "memoryKey \<Rightarrow> MemoryQueue \<Rightarrow> mq_call \<Rightarrow> bool" where
  "removes k q c \<longleftrightarrow>
     (case map_of (mq_jobs q) k of
        None \<Rightarrow> False
      | Some j \<Rightarrow>
         (case c of
            CAck d \<Rightarrow> deliveryKey d = k \<and> mj_reserved j \<and> mj_receipt j = d_Receipt d
          | CForgetFailed queue jid \<Rightarrow> k = (queue, jid) \<and> mj_failure j \<noteq> None
          | CPurgeFailed queue cutoff \<Rightarrow> purged queue cutoff j
          | CClose \<Rightarrow> True
          | _ \<Rightarrow> False))"

lemma removes_only:
  assumes ok: "mq_ok q" and j: "map_of (mq_jobs q) k = Some j"
    and gone: "map_of (mq_jobs (snd (mq_do c q))) k = None"
  shows "removes k q c"
proof (cases c)
  case (CAck d)
  with gone j have "\<not> unleased q d k" using settle_other(1)[OF _ ok, of d k] by auto
  with CAck j show ?thesis by (auto simp: removes_def unleased_def leased_Inr)
qed (use gone j mq_Reserve_at(1)[OF ok j] mq_ok_distinct[OF ok] in
    \<open>auto simp: removes_def mq_Push_def push_at mq_PushUnique_at mq_Release_def mq_Postpone_def
       release_def mq_Extend_def mq_Bury_def Let_def split_beta putJob_def mq_RetryFailed_def
       mq_ForgetFailed_def failed_def mq_PurgeFailed_def map_of_filter_distinct
       split: sum.splits option.splits if_splits\<close>)

lemma run_removes_only:
  assumes "mq_ok q" "list_all call_ok cs" "map_of (mq_jobs q) k = Some j"
    and "map_of (mq_jobs (snd (mq_run cs q))) k = None"
  shows "\<exists>pre c post. cs = pre @ c # post \<and> removes k (snd (mq_run pre q)) c"
  using assms
proof (induction cs arbitrary: q j)
  case (Cons c cs)
  show ?case
  proof (cases "map_of (mq_jobs (snd (mq_do c q))) k")
    case None
    with removes_only[OF Cons.prems(1,3)] have "removes k (snd (mq_run [] q)) c" by simp
    then show ?thesis by blast
  next
    case (Some j')
    with Cons.IH[of "snd (mq_do c q)" j'] Cons.prems mq_do_ok obtain pre c' post
      where "cs = pre @ c' # post" "removes k (snd (mq_run pre (snd (mq_do c q)))) c'" by auto
    then have "c # cs = (c # pre) @ c' # post" "removes k (snd (mq_run (c # pre) q)) c'" by simp_all
    then show ?thesis by blast
  qed
qed simp

subsection \<open>Draining a queue\<close>

text \<open>The keys of the jobs a \<open>Reserve\<close> of \<open>queue\<close> could take.\<close>

definition dueKeys :: "MemoryQueue \<Rightarrow> gotime \<Rightarrow> string \<Rightarrow> memoryKey set" where
  "dueKeys q now queue = {k. \<exists>j. map_of (mq_jobs q) k = Some j \<and> eligible now queue j}"

lemma dueKeys_finite [simp]: "finite (dueKeys q now queue)"
proof (rule finite_subset)
  show "dueKeys q now queue \<subseteq> fst ` set (mq_jobs q)"
    unfolding dueKeys_def by (auto dest!: map_of_in_set intro: rev_image_eqI)
qed simp

definition jobAt :: "MemoryQueue \<Rightarrow> memoryKey \<Rightarrow> memoryJob" where
  "jobAt q k = the (map_of (mq_jobs q) k)"

lemma dueKeysD:
  "k \<in> dueKeys q now queue \<Longrightarrow> map_of (mq_jobs q) k = Some (jobAt q k) \<and> eligible now queue (jobAt q k)"
  by (auto simp: dueKeys_def jobAt_def)

text \<open>The same, spelled out over the fields of a job.\<close>

lemma dueKeys_explicit:
  assumes "mq_ok q"
  shows "map_of (mq_jobs q) k = Some j \<and> fst k = queue \<and> mj_failure j = None \<and>
      (\<lambda>j. if mj_reserved j then mj_leaseDeadline j else mj_availableAt j) j \<le> now \<longleftrightarrow>
    k \<in> dueKeys q now queue \<and> j = jobAt q k"
proof (cases "map_of (mq_jobs q) k")
  case (Some j')
  then have "fst k = mj_queue j'" using mq_ok_job[OF assms Some] by (auto simp: job_ok_def jobKey_def)
  with Some show ?thesis by (auto simp: dueKeys_def jobAt_def eligible_def available_def)
qed (simp add: dueKeys_def)

lemma reserve_takes:
  assumes "mq_ok q" "mq_Reserve q queues lease receipt now = (Inr d, q')"
  shows "\<exists>qs1 qs2 j. queues = qs1 @ d_Queue d # qs2 \<and>
     (\<forall>queue \<in> set qs1. dueKeys q now queue = {}) \<and>
     map_of (mq_jobs q) (deliveryKey d) = Some j \<and> available j now \<and>
     (\<forall>k \<in> dueKeys q now (d_Queue d) - {deliveryKey d}. before j (jobAt q k)) \<and>
     d_Envelope d = (mj_env j)\<lparr>env_Attempt := mj_attempts j + 1\<rparr> \<and>
     d_Receipt d = receipt \<and> d_LeaseExpired d = mj_reserved j \<and>
     q' = putJob q (deliveryKey d) (leaseJob j receipt now lease)"
proof -
  note ok = assms(1)
  from assms(2) obtain qs1 queue qs2 k j where qs: "queues = qs1 @ queue # qs2"
    and none: "\<forall>qu \<in> set qs1. noneEligible q now qu" and nj: "nextJob q now queue k j"
    and d: "d = deliveryOf queue j receipt" and q': "q' = putJob q k (leaseJob j receipt now lease)"
    unfolding mq_Reserve_Inr[OF ok] reservedFrom_def by blast
  from nj have j: "map_of (mq_jobs q) k = Some j" "mj_queue j = queue" "available j now"
    by (auto simp: nextJob_def eligible_def)
  have k: "deliveryKey d = k"
    using mq_ok_job[OF ok j(1)] j(2) by (simp add: d deliveryOf_def deliveryKey_def job_ok_def jobKey_def)
  have "\<forall>k' \<in> dueKeys q now queue - {k}. before j (jobAt q k')"
    using nj dueKeysD unfolding nextJob_def by blast
  moreover have "\<forall>queue \<in> set qs1. dueKeys q now queue = {}"
    using none by (auto simp: dueKeys_def noneEligible_def)
  ultimately show ?thesis
    using qs j k q' by (intro exI[of _ qs1] exI[of _ qs2] exI[of _ j]) (simp add: d deliveryOf_def)
qed

text \<open>
  One \<open>Reserve\<close> of an open queue with a due job: it delivers the first and leaves the others due.
\<close>

lemma reserve_step:
  assumes ok: "mq_ok q" and opn: "\<not> mq_closed q" "ValidName queue" "0 < lease" "receipt \<noteq> ''''"
    and due: "dueKeys q now queue \<noteq> {}"
  obtains d q' where "mq_Reserve q [queue] lease receipt now = (Inr d, q')"
    "mq_ok q'" "\<not> mq_closed q'" "deliveryKey d \<in> dueKeys q now queue"
    "dueKeys q' now queue = dueKeys q now queue - {deliveryKey d}"
    "\<And>k. k \<noteq> deliveryKey d \<Longrightarrow> map_of (mq_jobs q') k = map_of (mq_jobs q) k"
    "\<And>k. k \<in> dueKeys q now queue \<Longrightarrow> k \<noteq> deliveryKey d \<Longrightarrow> before (jobAt q (deliveryKey d)) (jobAt q k)"
proof -
  from due have "\<not> noneEligible q now queue" by (auto simp: dueKeys_def noneEligible_def)
  then obtain k j where nj: "nextJob q now queue k j"
    using reserveScan_noneEligible[OF ok] reserveScan_nextJob[OF ok] by (metis not_None_eq surj_pair)
  define d q' where "d = deliveryOf queue j receipt" and "q' = putJob q k (leaseJob j receipt now lease)"
  have rf: "reservedFrom q lease receipt now d q' [] queue"
    using nj unfolding reservedFrom_def d_def q'_def by auto
  then have res: "mq_Reserve q [queue] lease receipt now = (Inr d, q')"
    using opn by (subst mq_Reserve_Inr[OF ok]) fastforce
  from nj have j: "map_of (mq_jobs q) k = Some j" "mj_queue j = queue"
    by (auto simp: nextJob_def eligible_def)
  then have k: "deliveryKey d = k"
    using mq_ok_job[OF ok j(1)] by (simp add: d_def deliveryOf_def deliveryKey_def job_ok_def jobKey_def)
  show thesis
  proof
    show "mq_ok q'" using mq_Reserve_ok[OF ok opn(4), of "[queue]" lease now] res by simp
    show "\<not> mq_closed q'" using opn by (simp add: q'_def)
    show "deliveryKey d \<in> dueKeys q now queue" using nj k by (auto simp: dueKeys_def nextJob_def)
    show "dueKeys q' now queue = dueKeys q now queue - {deliveryKey d}"
      using opn(3) j by (auto simp: dueKeys_def k q'_def putJob_def leaseJob_def eligible_def available_def)
    show "map_of (mq_jobs q') k' = map_of (mq_jobs q) k'" if "k' \<noteq> deliveryKey d" for k'
      using that by (simp add: k q'_def putJob_def)
    show "before (jobAt q (deliveryKey d)) (jobAt q k')"
      if "k' \<in> dueKeys q now queue" "k' \<noteq> deliveryKey d" for k'
      using nj that by (auto simp: dueKeys_def nextJob_def jobAt_def k)
  qed (rule res)
qed

abbreviation reserveAll :: "string \<Rightarrow> duration \<Rightarrow> gotime \<Rightarrow> string list \<Rightarrow> mq_call list" where
  "reserveAll queue lease now receipts \<equiv> map (\<lambda>r. CReserve [queue] lease r now) receipts"

lemma drain:
  assumes "mq_ok q" "\<not> mq_closed q" "ValidName queue" "0 < lease" "'''' \<notin> set receipts"
    and "length receipts = card (dueKeys q now queue)"
  shows "\<exists>ds q'. mq_run (reserveAll queue lease now receipts) q = (map ODelivery ds, q') \<and>
     mq_ok q' \<and> \<not> mq_closed q' \<and> dueKeys q' now queue = {} \<and>
     set (map deliveryKey ds) = dueKeys q now queue \<and> distinct (map deliveryKey ds) \<and>
     sorted_wrt (\<lambda>d1 d2. before (jobAt q (deliveryKey d1)) (jobAt q (deliveryKey d2))) ds"
  using assms
proof (induction receipts arbitrary: q)
  case Nil
  then show ?case by simp
next
  case (Cons r receipts)
  then have "dueKeys q now queue \<noteq> {}" by auto
  then obtain d q' where res: "mq_Reserve q [queue] lease r now = (Inr d, q')"
    and ok: "mq_ok q'" "\<not> mq_closed q'" and d: "deliveryKey d \<in> dueKeys q now queue"
    and due: "dueKeys q' now queue = dueKeys q now queue - {deliveryKey d}"
    and other: "\<And>k. k \<noteq> deliveryKey d \<Longrightarrow> map_of (mq_jobs q') k = map_of (mq_jobs q) k"
    and first: "\<And>k. k \<in> dueKeys q now queue \<Longrightarrow> k \<noteq> deliveryKey d \<Longrightarrow>
      before (jobAt q (deliveryKey d)) (jobAt q k)"
    using Cons.prems reserve_step[of q queue lease r now] by auto
  have "length receipts = card (dueKeys q' now queue)"
    using Cons.prems(6) d due by (simp add: card_Diff_singleton)
  with Cons.IH[OF ok] Cons.prems obtain ds q'' where
    run: "mq_run (reserveAll queue lease now receipts) q' = (map ODelivery ds, q'')"
    and fin: "mq_ok q''" "\<not> mq_closed q''" "dueKeys q'' now queue = {}"
    and ds: "set (map deliveryKey ds) = dueKeys q' now queue" "distinct (map deliveryKey ds)"
    and sorted: "sorted_wrt (\<lambda>d1 d2. before (jobAt q' (deliveryKey d1)) (jobAt q' (deliveryKey d2))) ds"
    by auto
  have run': "mq_run (reserveAll queue lease now (r # receipts)) q = (map ODelivery (d # ds), q'')"
    using res run by (simp add: obs_def)
  have ds': "deliveryKey ` set ds = dueKeys q now queue - {deliveryKey d}" using ds(1) due by simp
  have in_ds: "deliveryKey x \<in> dueKeys q now queue \<and> deliveryKey x \<noteq> deliveryKey d"
    if "x \<in> set ds" for x using ds' that by blast
  from sorted have "sorted_wrt (\<lambda>d1 d2. before (jobAt q (deliveryKey d1)) (jobAt q (deliveryKey d2))) ds"
    by (rule sorted_wrt_mono_rel[rotated]) (use in_ds other in \<open>simp add: jobAt_def\<close>)
  then have "sorted_wrt (\<lambda>d1 d2. before (jobAt q (deliveryKey d1)) (jobAt q (deliveryKey d2))) (d # ds)"
    unfolding sorted_wrt.simps(2) using first in_ds by blast
  moreover have "set (map deliveryKey (d # ds)) = dueKeys q now queue" using ds' d by (simp add: insert_absorb)
  moreover have "distinct (map deliveryKey (d # ds))" using ds' ds(2) by simp
  ultimately show ?case using run' fin by blast
qed

end
