(* ===== verification/Jobs_Claims.thy ===== *)
theory Jobs_Claims
  imports Jobs_Traces
begin

section \<open>Uniqueness claims and Once records\<close>

text \<open>
  A live claim on a uniqueness key, or a live \<open>Once\<close> record, outlasts every history whose calls
  neither come after its expiry nor settle it: sweeps drop expired entries only, other jobs and
  other tokens cannot release it, and a second claim on it is refused.
\<close>

subsection \<open>Uniqueness keys\<close>

text \<open>
  A call that leaves the claim of job \<open>holder\<close> on \<open>key\<close> of \<open>queue\<close> alone. Its clock has not
  reached the expiry; and a claim that is held \<open>untilDone\<close> ends with its holder, so the call does not
  settle or retry the holder. A claim held for a fixed time stays whatever happens to the holder.
\<close>

fun keepsUnique :: "bool \<Rightarrow> string \<Rightarrow> string \<Rightarrow> gotime \<Rightarrow> mq_call \<Rightarrow> bool" where
  "keepsUnique untilDone queue holder expires (CPushUnique queue' env at u n1 n2 n3) \<longleftrightarrow> n1 < expires \<and> n2 < expires"
| "keepsUnique untilDone queue holder expires (CBeginOnce key token lock now) \<longleftrightarrow> now < expires"
| "keepsUnique untilDone queue holder expires (CAck d) \<longleftrightarrow> (untilDone \<longrightarrow> deliveryKey d \<noteq> (queue, holder))"
| "keepsUnique untilDone queue holder expires (CBury d f now) \<longleftrightarrow> (untilDone \<longrightarrow> deliveryKey d \<noteq> (queue, holder))"
| "keepsUnique untilDone queue holder expires (CRetryFailed queue' jid n1 n2) \<longleftrightarrow>
     (untilDone \<longrightarrow> (queue', jid) \<noteq> (queue, holder)) \<and> n1 < expires"
| "keepsUnique untilDone queue holder expires c \<longleftrightarrow> call_ok c"

lemma keepsUnique_ok: "keepsUnique untilDone queue holder expires c \<Longrightarrow> call_ok c"
  by (cases c) simp_all

text \<open>No job stored under \<open>k\<close> holds \<open>key\<close> itself, so settling it releases another key or none.\<close>

definition detached :: "MemoryQueue \<Rightarrow> memoryKey \<Rightarrow> string \<Rightarrow> bool" where
  "detached q k key \<longleftrightarrow> (\<forall>j. map_of (mq_jobs q) k = Some j \<longrightarrow> mj_unique j \<noteq> key)"

lemma mq_Reserve_frame [simp]:
  "mq_uniques (snd (mq_Reserve q queues lease receipt now)) = mq_uniques q"
  "mq_once (snd (mq_Reserve q queues lease receipt now)) = mq_once q"
proof -
  have "mq_uniques (snd (reserveQueues q queues lease receipt now)) = mq_uniques q \<and>
        mq_once (snd (reserveQueues q queues lease receipt now)) = mq_once q"
    by (induction queues) (auto split: option.splits)
  then show "mq_uniques (snd (mq_Reserve q queues lease receipt now)) = mq_uniques q"
    "mq_once (snd (mq_Reserve q queues lease receipt now)) = mq_once q"
    by (auto simp: mq_Reserve_def split: option.splits)
qed

lemma settle_frame [simp]:
  "mq_uniques (snd (release q d at uncount now)) = mq_uniques q"
  "mq_uniques (snd (mq_Extend q d lease now)) = mq_uniques q"
  "mq_once (snd (release q d at uncount now)) = mq_once q"
  "mq_once (snd (mq_Extend q d lease now)) = mq_once q"
  "mq_once (snd (mq_Ack q d)) = mq_once q"
  "mq_once (snd (mq_Bury q d f now)) = mq_once q"
  by (auto simp: release_def mq_Extend_def mq_Ack_def mq_Bury_def putJob_def Let_def split_beta
      split: sum.splits)

lemma failed_frame [simp]:
  "mq_uniques (snd (mq_ForgetFailed q queue jid)) = mq_uniques q"
  "mq_uniques (snd (mq_PurgeFailed q queue cutoff)) = mq_uniques q"
  "mq_once (snd (mq_ForgetFailed q queue jid)) = mq_once q"
  "mq_once (snd (mq_PurgeFailed q queue cutoff)) = mq_once q"
  "mq_once (snd (mq_RetryFailed q queue jid n1 n2)) = mq_once q"
  by (auto simp: mq_ForgetFailed_def mq_PurgeFailed_def mq_RetryFailed_def putJob_def Let_def
      split: sum.splits option.splits)

lemma once_frame [simp]:
  "mq_uniques (snd (mq_FinishOnce q key token keep n1 n2)) = mq_uniques q"
  "mq_uniques (mq_AbandonOnce q key token) = mq_uniques q"
  by (auto simp: mq_FinishOnce_def mq_AbandonOnce_def split: option.splits)

lemma mq_Close_frame [simp]:
  "mq_uniques (mq_Close q) = mq_uniques q" "mq_once (mq_Close q) = mq_once q"
  by (simp_all add: mq_Close_def)

text \<open>Only a settlement of the holder releases its claim, and only if the job holds the key.\<close>

lemma releaseUnique_keeps:
  assumes "map_of (mq_uniques q) (queue, key) = Some claim"
    and "jobKey job \<noteq> (queue, mc_holder claim) \<or> mj_unique job \<noteq> key"
  shows "map_of (mq_uniques (fst (releaseUnique q job))) (queue, key) = Some claim"
  using assms by (auto simp: releaseUnique_def Let_def jobKey_def split: option.splits)

lemma settle_keeps:
  assumes "mq_ok q" "map_of (mq_uniques q) (queue, key) = Some claim"
    and "deliveryKey d \<noteq> (queue, mc_holder claim) \<or> detached q (queue, mc_holder claim) key"
  shows "map_of (mq_uniques (snd (mq_Ack q d))) (queue, key) = Some claim"
    and "map_of (mq_uniques (snd (mq_Bury q d f now))) (queue, key) = Some claim"
proof -
  have "map_of (mq_uniques (snd (mq_Ack q d))) (queue, key) = Some claim \<and>
    map_of (mq_uniques (snd (mq_Bury q d f now))) (queue, key) = Some claim"
  proof (cases "leased q d")
    case (Inr job)
    with leased_Inr[THEN iffD1, OF Inr] leased_key[OF assms(1) Inr] assms(3)
    have "jobKey job \<noteq> (queue, mc_holder claim) \<or> mj_unique job \<noteq> key" by (auto simp: detached_def)
    from releaseUnique_keeps[OF assms(2) this] show ?thesis
      by (simp add: mq_Ack_eq[OF Inr] mq_Bury_eq[OF Inr] putJob_def)
  qed (simp add: mq_Ack_err mq_Bury_err assms(2))
  then show "map_of (mq_uniques (snd (mq_Ack q d))) (queue, key) = Some claim"
    and "map_of (mq_uniques (snd (mq_Bury q d f now))) (queue, key) = Some claim" by simp_all
qed

lemma push_keeps:
  assumes "mq_ok q" "map_of (mq_uniques q) (queue, key) = Some claim"
    and "u = None \<or> n1 < mc_expires claim \<and> n2 < mc_expires claim"
  shows "map_of (mq_uniques (snd (push q queue' env at u n1 n2 n3))) (queue, key) = Some claim"
proof (cases u)
  case None
  with assms(2) show ?thesis by (auto simp: push_def storeJob_def Let_def split: option.splits)
next
  case (Some u')
  with sweepClaims_live(1)[OF assms(1), of n1 "(queue, key)" claim] assms(2,3)
  have "map_of (mq_uniques (sweepClaims q n1)) (queue, key) = Some claim" by simp
  with Some assms(2,3) show ?thesis by (auto simp: push_def storeJob_def Let_def split: option.splits)
qed

lemma retry_keeps:
  assumes "map_of (mq_uniques q) (queue, key) = Some claim" "n1 < mc_expires claim"
    and "(queue', jid) \<noteq> (queue, mc_holder claim) \<or> detached q (queue, mc_holder claim) key"
  shows "map_of (mq_uniques (snd (mq_RetryFailed q queue' jid n1 n2))) (queue, key) = Some claim"
  using assms
  by (auto simp: mq_RetryFailed_def failed_def detached_def Let_def putJob_def split: sum.splits option.splits)

lemma push_refused:
  assumes "mq_ok q" "map_of (mq_uniques q) (queue, uk_Key u) = Some claim"
    and "n1 < mc_expires claim" "n2 < mc_expires claim"
    and "unique_validate u = None" "ValidName queue" "env_ID env \<noteq> ''''" "\<not> mq_closed q"
  shows "mq_PushUnique q queue env at u n1 n2 n3 =
    (Inl (DuplicateError queue (uk_Key u) (mc_holder claim)), sweepClaims q n1)"
  using assms sweepClaims_live(1)[OF assms(1), of n1 "(queue, uk_Key u)" claim]
  by (simp add: mq_PushUnique_def push_def Let_def)

text \<open>A job gets its key when it is pushed, and a push of a key that is claimed is refused.\<close>

lemma push_detached:
  assumes "mq_ok q" "map_of (mq_uniques q) (queue, key) = Some claim" "detached q (queue, holder) key" "key \<noteq> ''''"
    and "u = None \<or> n1 < mc_expires claim \<and> n2 < mc_expires claim"
  shows "detached (snd (push q queue' env at u n1 n2 n3)) (queue, holder) key"
proof (cases u)
  case None
  with assms(3,4) show ?thesis
    by (auto simp: detached_def push_def storeJob_def newJob_def Let_def split: option.splits)
next
  case (Some u')
  with sweepClaims_live(1)[OF assms(1), of n1 "(queue, key)" claim] assms(2,5)
  have "map_of (mq_uniques (sweepClaims q n1)) (queue, key) = Some claim" by simp
  with Some assms(3-5) show ?thesis
    by (auto simp: detached_def push_def storeJob_def newJob_def Let_def split: option.splits if_splits)
qed

lemma putJob_detached:
  assumes "detached q k key" "map_of (mq_jobs q) k' = Some j" "mj_unique j' = mj_unique j" "mq_jobs q' = mq_jobs q"
  shows "detached (putJob q' k' j') k key"
  using assms by (simp add: detached_def putJob_def)

lemma reserve_detached:
  assumes "mq_ok q" "detached q k key"
  shows "detached (snd (mq_Reserve q queues lease receipt now)) k key"
proof (cases "mq_Reserve q queues lease receipt now")
  case (Pair r q')
  show ?thesis
  proof (cases r)
    case (Inl e)
    with Pair have "q' = q" using mq_Reserve_state_err[OF assms(1)] by simp
    with Pair assms(2) show ?thesis by simp
  next
    case (Inr d)
    with Pair obtain j where "map_of (mq_jobs q) (deliveryKey d) = Some j"
      "q' = putJob q (deliveryKey d) (leaseJob j receipt now lease)"
      using reserve_takes[OF assms(1), of queues lease receipt now d q'] by blast
    with Pair putJob_detached[OF assms(2)] show ?thesis by (simp add: leaseJob_def)
  qed
qed

lemma settle_detached:
  assumes "detached q k key"
  shows "detached (snd (mq_Ack q d)) k key"
    and "detached (snd (release q d at uncount now)) k key"
    and "detached (snd (mq_Extend q d lease now)) k key"
    and "detached (snd (mq_Bury q d f now)) k key"
proof -
  have "detached (snd (mq_Ack q d)) k key \<and> detached (snd (release q d at uncount now)) k key \<and>
    detached (snd (mq_Extend q d lease now)) k key \<and> detached (snd (mq_Bury q d f now)) k key"
  proof (cases "leased q d")
    case (Inl e)
    then show ?thesis using assms by (simp add: mq_Ack_err release_def mq_Extend_def mq_Bury_err)
  next
    case (Inr job)
    from leased_Inr[THEN iffD1, OF Inr] have job: "map_of (mq_jobs q) (deliveryKey d) = Some job" by simp
    have "detached (snd (mq_Ack q d)) k key" using assms by (simp add: mq_Ack_eq[OF Inr] detached_def)
    with assms show ?thesis
      by (simp add: Inr release_def mq_Extend_def mq_Bury_eq[OF Inr] buried_def Let_def putJob_detached[OF assms job])
  qed
  then show "detached (snd (mq_Ack q d)) k key" "detached (snd (release q d at uncount now)) k key"
    "detached (snd (mq_Extend q d lease now)) k key" "detached (snd (mq_Bury q d f now)) k key" by simp_all
qed

lemma detached_frame:
  "detached (snd (mq_BeginOnce q key' token lock now)) k key = detached q k key"
  "detached (snd (mq_FinishOnce q key' token keep n1 n2)) k key = detached q k key"
  "detached (mq_AbandonOnce q key' token) k key = detached q k key"
  "detached (mq_Close q) k key"
  by (auto simp: detached_def mq_BeginOnce_def Let_def mq_Close_def split: option.splits)

lemma failed_detached:
  assumes "mq_ok q" "detached q k key"
  shows "detached (snd (mq_RetryFailed q queue jid n1 n2)) k key"
    and "detached (snd (mq_ForgetFailed q queue jid)) k key"
    and "detached (snd (mq_PurgeFailed q queue cutoff)) k key"
  using assms mq_ok_distinct[OF assms(1)]
  by (auto simp: detached_def mq_RetryFailed_def mq_ForgetFailed_def mq_PurgeFailed_def failed_def putJob_def
      requeue_def Let_def map_of_filter_distinct split: option.splits sum.splits if_splits)

lemma unique_kept:
  assumes ok: "mq_ok q" and live: "map_of (mq_uniques q) (queue, key) = Some claim"
    and key: "key \<noteq> ''''" and free: "untilDone \<or> detached q (queue, mc_holder claim) key"
    and c: "keepsUnique untilDone queue (mc_holder claim) (mc_expires claim) c"
  shows "map_of (mq_uniques (snd (mq_do c q))) (queue, key) = Some claim"
    and "untilDone \<or> detached (snd (mq_do c q)) (queue, mc_holder claim) key"
proof -
  have sw: "now < mc_expires claim \<Longrightarrow> map_of (mq_uniques (sweepClaims q now)) (queue, key) = Some claim" for now
    using sweepClaims_live(1)[OF ok, of now "(queue, key)" claim] live by simp
  show "map_of (mq_uniques (snd (mq_do c q))) (queue, key) = Some claim"
    using c live free
    by (cases c)
      (auto simp: sw settle_keeps[OF ok live] retry_keeps[OF live] push_keeps[OF ok live] mq_Push_def
        mq_PushUnique_def mq_Release_def mq_Postpone_def split: option.splits)
  show "untilDone \<or> detached (snd (mq_do c q)) (queue, mc_holder claim) key"
    using c free
    by (cases c)
      (auto simp: reserve_detached settle_detached failed_detached push_detached[OF ok live _ key] ok mq_Push_def
        mq_PushUnique_def mq_Release_def mq_Postpone_def detached_frame split: option.splits)
qed

lemma run_unique_kept:
  assumes "mq_ok q" "map_of (mq_uniques q) (queue, key) = Some claim" "key \<noteq> ''''"
    and "untilDone \<or> detached q (queue, mc_holder claim) key"
    and "list_all (keepsUnique untilDone queue (mc_holder claim) (mc_expires claim)) cs"
  shows "mq_ok (snd (mq_run cs q)) \<and> map_of (mq_uniques (snd (mq_run cs q))) (queue, key) = Some claim"
  using assms
proof (induction cs arbitrary: q)
  case (Cons c cs)
  then have c: "keepsUnique untilDone queue (mc_holder claim) (mc_expires claim) c" by simp
  note step = unique_kept[OF Cons.prems(1-4) c]
  from Cons.IH[OF mq_do_ok[OF Cons.prems(1) keepsUnique_ok[OF c]] step(1) Cons.prems(3) step(2)]
    Cons.prems(5) show ?case by simp
qed simp

lemma push_claims:
  assumes "mq_PushUnique q queue env at u n1 n2 n3 = (Inr (), q')"
  shows "map_of (mq_uniques q') (queue, uk_Key u) =
      Some \<lparr>mc_holder = env_ID env, mc_expires = n3 + uk_TTL u\<rparr>"
    and "ValidName queue" "uk_Key u \<noteq> ''''" "0 < uk_TTL u"
    and "uk_UntilDone u \<or> detached q' (queue, env_ID env) (uk_Key u)"
  using assms
  by (auto simp: mq_PushUnique_def push_def storeJob_def newJob_def Let_def unique_validate_def detached_def
      split: if_splits option.splits)

text \<open>Settling a job that holds its key until it is done gives the key up.\<close>

lemma releaseUnique_frees:
  assumes "mj_heldUnique job"
  shows "\<nexists>c. map_of (mq_uniques (fst (releaseUnique q job))) (mj_queue job, mj_unique job) = Some c \<and>
     mc_holder c = env_ID (mj_env job)"
  using assms by (auto simp: releaseUnique_def Let_def split: option.splits)

subsection \<open>Once records\<close>

text \<open>A call that leaves the record \<open>holder\<close> wrote under \<open>key\<close> alone.\<close>

fun keepsOnce :: "string \<Rightarrow> string \<Rightarrow> gotime \<Rightarrow> mq_call \<Rightarrow> bool" where
  "keepsOnce key holder expires (CPushUnique queue env at u n1 n2 n3) \<longleftrightarrow> n1 < expires"
| "keepsOnce key holder expires (CBeginOnce key' token lock now) \<longleftrightarrow> now < expires"
| "keepsOnce key holder expires (CFinishOnce key' token keep n1 n2) \<longleftrightarrow> key' \<noteq> key \<or> token \<noteq> holder"
| "keepsOnce key holder expires (CAbandonOnce key' token) \<longleftrightarrow> key' \<noteq> key \<or> token \<noteq> holder"
| "keepsOnce key holder expires c \<longleftrightarrow> call_ok c"

lemma keepsOnce_ok: "keepsOnce key holder expires c \<Longrightarrow> call_ok c"
  by (cases c) simp_all

lemma push_once: "mq_once (snd (push q queue env at u n1 n2 n3)) =
    (if snd (push q queue env at u n1 n2 n3) = q then mq_once q
     else case u of None \<Rightarrow> mq_once q | Some u' \<Rightarrow> mq_once (sweepClaims q n1))"
  by (auto simp: push_def storeJob_def Let_def split: option.splits)

lemma once_kept:
  assumes ok: "mq_ok q" and live: "map_of (mq_once q) key = Some claim"
    and c: "keepsOnce key (mc_holder claim) (mc_expires claim) c"
  shows "map_of (mq_once (snd (mq_do c q))) key = Some claim"
proof -
  have sw: "now < mc_expires claim \<Longrightarrow> map_of (mq_once (sweepClaims q now)) key = Some claim" for now
    using sweepClaims_live(2)[OF ok, of now key claim] live by simp
  show ?thesis
    using c live
    by (cases c)
      (auto simp: sw push_once mq_Push_def mq_PushUnique_def mq_Release_def mq_Postpone_def
        mq_BeginOnce_def mq_FinishOnce_def mq_AbandonOnce_def Let_def split: option.splits)
qed

lemma run_once_kept:
  assumes "mq_ok q" "map_of (mq_once q) key = Some claim"
    and "list_all (keepsOnce key (mc_holder claim) (mc_expires claim)) cs"
  shows "mq_ok (snd (mq_run cs q)) \<and> map_of (mq_once (snd (mq_run cs q))) key = Some claim"
  using assms
proof (induction cs arbitrary: q)
  case (Cons c cs)
  then have c: "keepsOnce key (mc_holder claim) (mc_expires claim) c" by simp
  from Cons.IH[OF mq_do_ok[OF Cons.prems(1) keepsOnce_ok[OF c]] once_kept[OF Cons.prems(1,2) c]]
    Cons.prems(3) show ?case by simp
qed simp

lemma BeginOnce_held:
  assumes "mq_ok q" "map_of (mq_once q) key = Some claim" "now < mc_expires claim"
  shows "fst (mq_BeginOnce q key token lock now) =
    (if mc_holder claim = onceDoneMarker then OnceDone else OnceBusy)"
  using sweepClaims_live(2)[OF assms(1), of now key claim] assms(2,3)
  by (simp add: mq_BeginOnce_def Let_def)

lemma BeginOnce_acquired:
  assumes "mq_BeginOnce q key token lock now = (OnceAcquired, q')"
  shows "map_of (mq_once q') key = Some \<lparr>mc_holder = token, mc_expires = now + lock\<rparr>"
  using assms by (auto simp: mq_BeginOnce_def Let_def split: option.splits if_splits)

lemma FinishOnce_held:
  assumes "map_of (mq_once q) key = Some \<lparr>mc_holder = token, mc_expires = e\<rparr>" "n1 < e"
  shows "\<exists>q'. mq_FinishOnce q key token keep n1 n2 = (Inr (), q') \<and>
    map_of (mq_once q') key = Some \<lparr>mc_holder = onceDoneMarker, mc_expires = n2 + keep\<rparr>"
  using assms by (simp add: mq_FinishOnce_def)

end
