(* ===== verification/Jobs_Counts.thy ===== *)
theory Jobs_Counts
  imports Jobs_Traces
begin

section \<open>Counting and listing jobs\<close>

text \<open>
  \<open>Stats\<close> puts every job of a queue into exactly one of its four classes, \<open>Ready\<close> is what
  \<open>Reserve\<close> can take, and \<open>OldestReady\<close> is what it takes first. \<open>Failed\<close> lists the failed
  jobs in one order, whatever order the map is visited in.
\<close>

subsection \<open>The classes of Stats\<close>

definition isFailed :: "memoryJob \<Rightarrow> bool" where
  "isFailed j \<longleftrightarrow> mj_failure j \<noteq> None"

definition isReserved :: "gotime \<Rightarrow> memoryJob \<Rightarrow> bool" where
  "isReserved now j \<longleftrightarrow> mj_failure j = None \<and> mj_reserved j \<and> now < mj_leaseDeadline j"

definition isScheduled :: "gotime \<Rightarrow> memoryJob \<Rightarrow> bool" where
  "isScheduled now j \<longleftrightarrow> mj_failure j = None \<and> \<not> mj_reserved j \<and> now < mj_availableAt j"

lemmas class_defs = isFailed_def isReserved_def isScheduled_def available_def

definition countQ :: "(memoryJob \<Rightarrow> bool) \<Rightarrow> string \<Rightarrow> (memoryKey \<times> memoryJob) list \<Rightarrow> nat" where
  "countQ P queue al = length (filter (\<lambda>(k, j). mj_queue j = queue \<and> P j) al)"

lemma countQ_simps [simp]:
  "countQ P queue [] = 0"
  "countQ P queue ((k, j) # al) = (if mj_queue j = queue \<and> P j then Suc (countQ P queue al) else countQ P queue al)"
  by (simp_all add: countQ_def)

lemma countJobs_classes:
  "qs_Ready (countJobs now queue al st) = qs_Ready st + countQ (\<lambda>j. available j now) queue al"
  "qs_Scheduled (countJobs now queue al st) = qs_Scheduled st + countQ (isScheduled now) queue al"
  "qs_Reserved (countJobs now queue al st) = qs_Reserved st + countQ (isReserved now) queue al"
  "qs_Failed (countJobs now queue al st) = qs_Failed st + countQ isFailed queue al"
  by (induction now queue al st rule: countJobs.induct)
    (auto simp: countJob_def Let_def class_defs)

lemma one_class:
  "available j now \<and> \<not> isScheduled now j \<and> \<not> isReserved now j \<and> \<not> isFailed j \<or>
   \<not> available j now \<and> isScheduled now j \<and> \<not> isReserved now j \<and> \<not> isFailed j \<or>
   \<not> available j now \<and> \<not> isScheduled now j \<and> isReserved now j \<and> \<not> isFailed j \<or>
   \<not> available j now \<and> \<not> isScheduled now j \<and> \<not> isReserved now j \<and> isFailed j"
  by (auto simp: class_defs)

lemma classes_partition:
  "countQ (\<lambda>j. available j now) queue al + countQ (isScheduled now) queue al +
   countQ (isReserved now) queue al + countQ isFailed queue al = countQ (\<lambda>_. True) queue al"
proof (induction al)
  case (Cons kj al)
  obtain k j where kj: "kj = (k, j)" by (cases kj)
  from one_class[of j now] Cons.IH show ?case unfolding kj by (elim disjE) simp_all
qed simp

lemma countQ_zero: "countQ P queue al = 0 \<longleftrightarrow> (\<forall>(k, j) \<in> set al. mj_queue j = queue \<longrightarrow> \<not> P j)"
  by (auto simp: countQ_def filter_empty_conv)

lemma ready_noneEligible:
  assumes "mq_ok q"
  shows "countQ (\<lambda>j. available j now) queue (mq_jobs q) = 0 \<longleftrightarrow> noneEligible q now queue"
  unfolding countQ_zero noneEligible_def eligible_def
  using mq_ok_distinct[OF assms] by (fastforce dest: map_of_in_set set_in_map_of)

subsection \<open>The oldest ready job\<close>

text \<open>
  The running minimum of \<open>OldestReady\<close>: the zero time means none yet, so a ready job whose
  time is the zero time would reset it. No clock reading is the zero time.
\<close>

lemma countJob_oldest:
  "qs_OldestReady (countJob now j st) =
     (if available j now \<and> (qs_OldestReady st = 0 \<or> readyAt j < qs_OldestReady st)
      then readyAt j else qs_OldestReady st)"
  by (auto simp: countJob_def available_def Let_def IsZero_def)

lemma countJobs_oldest:
  assumes "\<forall>(k, j) \<in> set al. eligible now queue j \<longrightarrow> readyAt j \<noteq> 0"
  shows "(qs_OldestReady (countJobs now queue al st) = 0 \<longleftrightarrow>
            qs_OldestReady st = 0 \<and> countQ (\<lambda>j. available j now) queue al = 0) \<and>
         (\<forall>(k, j) \<in> set al. eligible now queue j \<longrightarrow>
            qs_OldestReady (countJobs now queue al st) \<le> readyAt j) \<and>
         (qs_OldestReady st \<noteq> 0 \<longrightarrow> qs_OldestReady (countJobs now queue al st) \<le> qs_OldestReady st) \<and>
         (qs_OldestReady (countJobs now queue al st) \<noteq> qs_OldestReady st \<longrightarrow>
            (\<exists>(k, j) \<in> set al. eligible now queue j \<and>
               qs_OldestReady (countJobs now queue al st) = readyAt j))"
  using assms
proof (induction now queue al st rule: countJobs.induct)
  case (2 now queue k j rest st)
  define st' where "st' = (if mj_queue j \<noteq> queue then st else countJob now j st)"
  have IH: "(qs_OldestReady (countJobs now queue rest st') = 0 \<longleftrightarrow>
            qs_OldestReady st' = 0 \<and> countQ (\<lambda>j. available j now) queue rest = 0)"
    "\<forall>(k, j) \<in> set rest. eligible now queue j \<longrightarrow> qs_OldestReady (countJobs now queue rest st') \<le> readyAt j"
    "qs_OldestReady st' \<noteq> 0 \<longrightarrow> qs_OldestReady (countJobs now queue rest st') \<le> qs_OldestReady st'"
    "qs_OldestReady (countJobs now queue rest st') \<noteq> qs_OldestReady st' \<longrightarrow>
            (\<exists>(k, j) \<in> set rest. eligible now queue j \<and>
               qs_OldestReady (countJobs now queue rest st') = readyAt j)"
    using 2 unfolding st'_def by auto
  have eq: "countJobs now queue ((k, j) # rest) st = countJobs now queue rest st'"
    by (simp add: st'_def)
  show ?case
  proof (cases "eligible now queue j")
    case False
    then have "qs_OldestReady st' = qs_OldestReady st"
      by (auto simp: st'_def eligible_def countJob_oldest)
    with False IH show ?thesis unfolding eq by (auto simp: eligible_def)
  next
    case True
    then have st': "qs_OldestReady st' =
        (if qs_OldestReady st = 0 \<or> readyAt j < qs_OldestReady st then readyAt j else qs_OldestReady st)"
      and nz: "readyAt j \<noteq> 0"
      using 2(2) by (auto simp: st'_def eligible_def countJob_oldest)
    show ?thesis
      unfolding eq using True IH st' nz
      by (auto simp: eligible_def split: if_splits)
  qed
qed simp

subsection \<open>Listing failed jobs\<close>

text \<open>\<open>failedLess\<close> orders failed jobs strictly, and totally where their IDs differ.\<close>

lemma failedLess_irrefl [simp]: "\<not> failedLess a a"
  by (simp add: failedLess_def)

lemma failedLess_trans: "failedLess a b \<Longrightarrow> failedLess b c \<Longrightarrow> failedLess a c"
  by (auto simp: failedLess_def split: if_splits)

lemma failedLess_total:
  "env_ID (fj_Envelope a) \<noteq> env_ID (fj_Envelope b) \<Longrightarrow> \<not> failedLess a b \<Longrightarrow> failedLess b a"
  by (auto simp: failedLess_def split: if_splits)

lemma mset_insertFailed [simp]: "mset (insertFailed x ys) = add_mset x (mset ys)"
  by (induction ys) auto

lemma mset_sortFailed [simp]: "mset (sortFailed xs) = mset xs"
  by (induction xs) auto

lemma set_insertFailed [simp]: "set (insertFailed x ys) = insert x (set ys)"
  by (induction ys) auto

lemma set_sortFailed [simp]: "set (sortFailed xs) = set xs"
  by (induction xs) auto

lemma sorted_insertFailed:
  assumes "sorted_wrt failedLess ys" "\<forall>y \<in> set ys. env_ID (fj_Envelope y) \<noteq> env_ID (fj_Envelope x)"
  shows "sorted_wrt failedLess (insertFailed x ys)"
  using assms by (induction ys) (auto dest: failedLess_trans failedLess_total)

lemma sorted_sortFailed:
  "distinct (map (\<lambda>f. env_ID (fj_Envelope f)) xs) \<Longrightarrow> sorted_wrt failedLess (sortFailed xs)"
proof (induction xs)
  case (Cons x xs)
  then have "\<forall>y \<in> set (sortFailed xs). env_ID (fj_Envelope y) \<noteq> env_ID (fj_Envelope x)"
    by (metis (mono_tags, lifting) distinct.simps(2) image_eqI list.map(2) list.set_map set_sortFailed)
  with Cons show ?case by (simp add: sorted_insertFailed)
qed simp

lemma collectFailed_set:
  "x \<in> set (collectFailed queue al) \<longleftrightarrow>
     (\<exists>kj \<in> set al. mj_queue (snd kj) = queue \<and>
        (\<exists>f. mj_failure (snd kj) = Some f \<and> x = failedJob (snd kj) f))"
  by (induction queue al rule: collectFailed.induct) (auto split: option.splits)

lemma collectFailed_distinct:
  assumes "distinct (map fst al)" "\<forall>(k, j) \<in> set al. k = jobKey j"
  shows "distinct (map (\<lambda>f. env_ID (fj_Envelope f)) (collectFailed queue al))"
  using assms
proof (induction queue al rule: collectFailed.induct)
  case (2 queue k j rest)
  have "env_ID (fj_Envelope x) \<noteq> env_ID (mj_env j)"
    if "mj_queue j = queue" "x \<in> set (collectFailed queue rest)" for x
  proof -
    from that(2) obtain kj f where kj: "kj \<in> set rest" "mj_queue (snd kj) = queue" "x = failedJob (snd kj) f"
      unfolding collectFailed_set by blast
    with 2(4,5) have "fst kj \<in> fst ` set rest" "k \<notin> fst ` set rest" "fst kj = jobKey (snd kj)" "k = jobKey j"
      by auto
    then have "jobKey (snd kj) \<noteq> jobKey j" by metis
    with kj that(1) show ?thesis by (simp add: jobKey_def failedJob_def)
  qed
  with 2 show ?case by (force simp: failedJob_def split: option.splits)
qed simp

lemma mq_ok_entry: "mq_ok q \<Longrightarrow> (k, j) \<in> set (mq_jobs q) \<Longrightarrow> job_ok (mq_seq q) k j"
  by (blast intro: mq_ok_job set_in_map_of mq_ok_distinct)

lemma mq_ok_keys: "mq_ok q \<Longrightarrow> \<forall>(k, j) \<in> set (mq_jobs q). k = jobKey j"
  using mq_ok_entry[of q] unfolding job_ok_def by blast

lemma mq_Failed_all:
  assumes "mq_ok q" "ValidName queue" "\<not> mq_closed q"
  obtains out where "mq_Failed q queue 0 = Inr out" "sorted_wrt failedLess out"
    "set out = {failedJob j f | jid j f. map_of (mq_jobs q) (queue, jid) = Some j \<and> mj_failure j = Some f}"
proof
  let ?out = "sortFailed (collectFailed queue (mq_jobs q))"
  show "mq_Failed q queue 0 = Inr ?out" using assms by (simp add: mq_Failed_def)
  show "sorted_wrt failedLess ?out"
    by (intro sorted_sortFailed collectFailed_distinct mq_ok_distinct mq_ok_keys assms(1))
  have "(\<exists>k. (k, j) \<in> set (mq_jobs q)) \<and> mj_queue j = queue \<longleftrightarrow>
      (\<exists>jid. map_of (mq_jobs q) (queue, jid) = Some j)" for j
    using mq_ok_entry[OF assms(1)] mq_ok_distinct[OF assms(1)]
    by (metis job_ok_def jobKey_def map_of_in_set set_in_map_of fst_conv)
  then show "set ?out = {failedJob j f | jid j f. map_of (mq_jobs q) (queue, jid) = Some j \<and> mj_failure j = Some f}"
    unfolding set_sortFailed set_eq_iff collectFailed_set by (smt (verit) mem_Collect_eq prod.collapse snd_conv)
qed

subsection \<open>The order of iteration does not matter\<close>

text \<open>
  Go visits a map in an unspecified order. Two queues whose job lists are permutations of each
  other are the same Go value, and the operations that loop over the map agree on them.
\<close>

definition sameJobs :: "MemoryQueue \<Rightarrow> MemoryQueue \<Rightarrow> bool" where
  "sameJobs q q' \<longleftrightarrow> mset (mq_jobs q) = mset (mq_jobs q') \<and> q' = q\<lparr>mq_jobs := mq_jobs q'\<rparr>"

lemma sameJobs_frame:
  "sameJobs q q' \<Longrightarrow> mq_closed q' = mq_closed q" "sameJobs q q' \<Longrightarrow> mq_seq q' = mq_seq q"
  "sameJobs q q' \<Longrightarrow> mq_uniques q' = mq_uniques q" "sameJobs q q' \<Longrightarrow> mq_once q' = mq_once q"
  unfolding sameJobs_def by (metis MemoryQueue.select_convs MemoryQueue.surjective MemoryQueue.update_convs(2))+

lemma mset_map_of:
  assumes "mset al = mset al'" "distinct (map fst al)"
  shows "map_of al = map_of al'" "distinct (map fst al')"
proof -
  show d: "distinct (map fst al')" using assms by (metis mset_eq_imp_distinct_iff mset_map)
  have "set al = set al'" using assms(1) by (metis set_mset_mset)
  then show "map_of al = map_of al'" using assms(2) d by (simp add: map_of_inject_set)
qed

lemma sameJobs_ok:
  assumes "mq_ok q" "sameJobs q q'"
  shows "mq_ok q'" "map_of (mq_jobs q') = map_of (mq_jobs q)"
proof -
  show m: "map_of (mq_jobs q') = map_of (mq_jobs q)"
    using mset_map_of(1) mq_ok_distinct[OF assms(1)] assms(2) by (metis sameJobs_def)
  have "distinct (map fst (mq_jobs q'))"
    using mset_map_of(2) mq_ok_distinct[OF assms(1)] assms(2) by (metis sameJobs_def)
  with assms m show "mq_ok q'" by (simp add: mq_ok_def sameJobs_frame[OF assms(2)])
qed

lemma sameJobs_scan:
  assumes "mq_ok q" "sameJobs q q'"
  shows "reserveScan now queue (mq_jobs q') None = reserveScan now queue (mq_jobs q) None"
proof -
  have "reserveScan now queue (mq_jobs q') None = Some (k, j) \<longleftrightarrow>
      reserveScan now queue (mq_jobs q) None = Some (k, j)" for k j
    by (simp add: reserveScan_nextJob[OF assms(1)] reserveScan_nextJob[OF sameJobs_ok(1)[OF assms]]
        nextJob_def sameJobs_ok(2)[OF assms])
  then show ?thesis by (metis not_None_eq surj_pair)
qed

lemma sameJobs_reserve:
  assumes "mq_ok q" "sameJobs q q'"
  shows "fst (mq_Reserve q' queues lease receipt now) = fst (mq_Reserve q queues lease receipt now) \<and>
    mq_view (snd (mq_Reserve q' queues lease receipt now)) = mq_view (snd (mq_Reserve q queues lease receipt now))"
proof -
  have "fst (reserveQueues q' qs lease receipt now) = fst (reserveQueues q qs lease receipt now) \<and>
    mq_view (snd (reserveQueues q' qs lease receipt now)) = mq_view (snd (reserveQueues q qs lease receipt now))" for qs
    by (induction qs)
      (auto simp: sameJobs_scan[OF assms] sameJobs_ok(2)[OF assms] mq_view_def fun_eq_iff split: option.splits)
  then show ?thesis
    by (auto simp: mq_Reserve_def sameJobs_frame[OF assms(2)] mq_view_def fun_eq_iff sameJobs_ok(2)[OF assms]
        split: option.splits)
qed

lemma sameJobs_failed:
  assumes "mq_ok q" "sameJobs q q'"
  shows "mq_Failed q' queue limit = mq_Failed q queue limit"
proof -
  have "set (collectFailed queue (mq_jobs q')) = set (collectFailed queue (mq_jobs q))"
    using assms(2) unfolding set_eq_iff collectFailed_set sameJobs_def by (metis set_mset_mset)
  moreover have "sorted_wrt failedLess (sortFailed (collectFailed queue (mq_jobs q')))"
    "sorted_wrt failedLess (sortFailed (collectFailed queue (mq_jobs q)))"
    by (intro sorted_sortFailed collectFailed_distinct mq_ok_distinct mq_ok_keys sameJobs_ok[OF assms] assms(1))+
  ultimately have "sortFailed (collectFailed queue (mq_jobs q')) = sortFailed (collectFailed queue (mq_jobs q))"
    by (intro sorted_wrt_unique[of failedLess]) (auto intro: failedLess_trans)
  then show ?thesis by (simp add: mq_Failed_def sameJobs_frame[OF assms(2)])
qed

lemma countQ_mset: "mset al = mset al' \<Longrightarrow> countQ P queue al = countQ P queue al'"
  by (metis countQ_def mset_filter size_mset)

end
