(* ===== verification/Jobs_Runs.thy ===== *)
theory Jobs_Runs
  imports Jobs_Traces
begin

section \<open>One job through a history\<close>

text \<open>
  What a history of calls by anyone does to one job: while it waits, only a \<open>Reserve\<close> that delivers
  it changes it; while it is leased and its holder renews in time, nobody else does; once it is set
  aside, nothing delivers it until it is retried or pushed anew.
\<close>

fun delivers :: "memoryKey \<Rightarrow> mq_obs \<Rightarrow> bool" where
  "delivers k (ODelivery d) \<longleftrightarrow> deliveryKey d = k"
| "delivers k _ \<longleftrightarrow> False"

lemma delivers_iff: "delivers k ob \<longleftrightarrow> (\<exists>d. ob = ODelivery d \<and> deliveryKey d = k)"
  by (cases ob) auto

lemma do_delivers:
  "fst (mq_do c q) = ODelivery d \<longleftrightarrow>
   (\<exists>queues lease receipt now. c = CReserve queues lease receipt now \<and>
      fst (mq_Reserve q queues lease receipt now) = Inr d)"
  by (cases c) (auto simp: obs_def split: sum.splits)

subsection \<open>Waiting\<close>

lemma waiting_kept:
  assumes "mq_ok q" "map_of (mq_jobs q) k = Some j" "\<not> mj_reserved j" "mj_failure j = None" "c \<noteq> CClose"
    and "\<not> delivers k (fst (mq_do c q))"
  shows "map_of (mq_jobs (snd (mq_do c q))) k = Some j"
proof -
  have un: "unleased q d k" for d using assms(2,3) by (auto simp: unleased_def leased_Inr)
  note * = settle_other[OF un assms(1)] failed_other[OF assms(2,4)] mq_Reserve_at(1)[OF assms(1,2)]
  show ?thesis
    using assms(5,6)
    by (cases c) (auto simp: * assms(1,2) mq_Push_def push_at mq_PushUnique_at mq_Release_def mq_Postpone_def
        delivers_iff obs_ODelivery)
qed

lemma waiting_delivered:
  assumes "mq_ok q" "map_of (mq_jobs q) k = Some j" "fst (mq_do c q) = ODelivery d" "deliveryKey d = k"
  shows "d_Envelope d = (mj_env j)\<lparr>env_Attempt := mj_attempts j + 1\<rparr> \<and> d_LeaseExpired d = mj_reserved j"
proof -
  from assms(3) obtain queues lease receipt now where
    r: "fst (mq_Reserve q queues lease receipt now) = Inr d" unfolding do_delivers by blast
  then have "mq_Reserve q queues lease receipt now = (Inr d, snd (mq_Reserve q queues lease receipt now))"
    by (metis prod.collapse)
  from reserve_takes[OF assms(1) this] assms(2,4) show ?thesis by auto
qed

lemma run_waiting_kept:
  assumes "mq_ok q" "map_of (mq_jobs q) k = Some j" "\<not> mj_reserved j" "mj_failure j = None"
    and "list_all call_ok cs" "CClose \<notin> set cs" "list_ex (delivers k) (fst (mq_run cs q)) = False"
  shows "map_of (mq_jobs (snd (mq_run cs q))) k = Some j"
  using assms
proof (induction cs arbitrary: q)
  case (Cons c cs)
  then have "map_of (mq_jobs (snd (mq_do c q))) k = Some j" by (intro waiting_kept) auto
  with Cons.IH[OF mq_do_ok[OF Cons.prems(1)] this] Cons.prems show ?case by simp
qed simp

text \<open>The first delivery of a waiting job counts one more attempt.\<close>

lemma first_delivery:
  assumes "mq_ok q" "map_of (mq_jobs q) k = Some j" "\<not> mj_reserved j" "mj_failure j = None"
    and "list_all call_ok cs" "CClose \<notin> set cs" "find (delivers k) (fst (mq_run cs q)) = Some ob"
  shows "\<exists>d. ob = ODelivery d \<and> deliveryKey d = k \<and> d_Envelope d = (mj_env j)\<lparr>env_Attempt := mj_attempts j + 1\<rparr> \<and>
    \<not> d_LeaseExpired d"
  using assms
proof (induction cs arbitrary: q)
  case (Cons c cs)
  show ?case
  proof (cases "delivers k (fst (mq_do c q))")
    case True
    with Cons.prems(7) obtain d where "ob = ODelivery d" "fst (mq_do c q) = ODelivery d" "deliveryKey d = k"
      by (auto simp: delivers_iff)
    with waiting_delivered[OF Cons.prems(1,2)] Cons.prems(3) show ?thesis by auto
  next
    case False
    then have "map_of (mq_jobs (snd (mq_do c q))) k = Some j"
      using Cons.prems by (intro waiting_kept) auto
    with Cons.IH[OF mq_do_ok[OF Cons.prems(1)] this] Cons.prems False show ?thesis by simp
  qed
qed simp

subsection \<open>Running\<close>

text \<open>
  Calls during a run that leave its lease in place: those of others, and the holder's own renewals,
  each of which sets a new deadline.
\<close>

fun holdsThrough :: "memoryKey \<Rightarrow> string \<Rightarrow> gotime \<Rightarrow> mq_call list \<Rightarrow> bool" where
  "holdsThrough k receipt deadline [] \<longleftrightarrow> True"
| "holdsThrough k receipt deadline (CExtend d lease now # cs) \<longleftrightarrow>
     holdsThrough k receipt
       (if deliveryKey d = k \<and> d_Receipt d = receipt \<and> 0 < lease then now + lease else deadline) cs"
| "holdsThrough k receipt deadline (c # cs) \<longleftrightarrow>
     leavesLease k receipt deadline c \<and> holdsThrough k receipt deadline cs"

lemma holdsThrough_Cons:
  "(\<And>d lease now. c \<noteq> CExtend d lease now) \<Longrightarrow>
   holdsThrough k receipt deadline (c # cs) \<longleftrightarrow>
     leavesLease k receipt deadline c \<and> holdsThrough k receipt deadline cs"
  by (cases c) auto

lemma extend_at:
  assumes "mq_ok q" "map_of (mq_jobs q) k = Some j" "mj_reserved j" "\<not> mq_closed q"
  shows "map_of (mq_jobs (snd (mq_Extend q d lease now))) k =
    Some (j\<lparr>mj_leaseDeadline :=
       if deliveryKey d = k \<and> d_Receipt d = mj_receipt j \<and> 0 < lease then now + lease else mj_leaseDeadline j\<rparr>)"
proof (cases "deliveryKey d = k \<and> d_Receipt d = mj_receipt j \<and> 0 < lease")
  case True
  have "mj_receipt j \<noteq> ''''" using mq_ok_job[OF assms(1,2)] assms(3) by (simp add: job_ok_def)
  with True assms have "leased q d = Inr j" by (simp add: leased_Inr)
  with True show ?thesis by (simp add: mq_Extend_def putJob_def)
next
  case False
  have "map_of (mq_jobs (snd (mq_Extend q d lease now))) k = map_of (mq_jobs q) k"
  proof (cases "0 < lease")
    case True
    with False have "unleased q d k" using assms(2) by (auto simp: unleased_def leased_Inr)
    then show ?thesis by (rule settle_other(3)[OF _ assms(1)])
  qed (simp add: mq_Extend_def)
  with False assms(2) show ?thesis by auto
qed

lemma run_held:
  assumes "mq_ok q" "map_of (mq_jobs q) k = Some j" "mj_reserved j" "\<not> mq_closed q"
    and "holdsThrough k (mj_receipt j) (mj_leaseDeadline j) cs"
  shows "mq_ok (snd (mq_run cs q)) \<and> \<not> mq_closed (snd (mq_run cs q)) \<and>
    (\<exists>t. map_of (mq_jobs (snd (mq_run cs q))) k = Some (j\<lparr>mj_leaseDeadline := t\<rparr>))"
  using assms
proof (induction cs arbitrary: q j)
  case Nil
  then show ?case by (auto intro!: exI[of _ "mj_leaseDeadline j"])
next
  case (Cons c cs)
  show ?case
  proof (cases "\<exists>d lease now. c = CExtend d lease now")
    case True
    then obtain d lease now where c: "c = CExtend d lease now" by blast
    let ?t = "if deliveryKey d = k \<and> d_Receipt d = mj_receipt j \<and> 0 < lease then now + lease else mj_leaseDeadline j"
    have ok: "mq_ok (snd (mq_Extend q d lease now))" by (rule mq_Extend_ok[OF Cons.prems(1)])
    from Cons.IH[OF ok extend_at[OF Cons.prems(1-4)]] Cons.prems(3-5) show ?thesis by (auto simp: c)
  next
    case False
    then have lv: "leavesLease k (mj_receipt j) (mj_leaseDeadline j) c"
      "holdsThrough k (mj_receipt j) (mj_leaseDeadline j) cs"
      using Cons.prems(5) holdsThrough_Cons[of c] by auto
    then have "c \<noteq> CClose" by auto
    with Cons.IH[OF mq_do_ok[OF Cons.prems(1) leavesLease_ok[OF lv(1)]] lease_kept(1)[OF Cons.prems(1-3) lv(1)]]
      Cons.prems(3,4) lv(2) show ?thesis by (simp add: mq_do_closed)
  qed
qed

subsection \<open>Set aside\<close>

definition setAside :: "MemoryQueue \<Rightarrow> memoryKey \<Rightarrow> bool" where
  "setAside q k \<longleftrightarrow> (\<forall>j. map_of (mq_jobs q) k = Some j \<longrightarrow> mj_failure j \<noteq> None)"

fun revives :: "memoryKey \<Rightarrow> mq_call \<Rightarrow> bool" where
  "revives k (CPush queue env at now) \<longleftrightarrow> (queue, env_ID env) = k"
| "revives k (CPushUnique queue env at u n1 n2 n3) \<longleftrightarrow> (queue, env_ID env) = k"
| "revives k (CRetryFailed queue jid n1 n2) \<longleftrightarrow> (queue, jid) = k"
| "revives k _ \<longleftrightarrow> False"

lemma setAside_same: "map_of (mq_jobs q') k = map_of (mq_jobs q) k \<Longrightarrow> setAside q' k = setAside q k"
  by (simp add: setAside_def)

lemma setAside_push:
  assumes "k \<noteq> (queue, env_ID env)"
  shows "setAside (snd (push q queue env at u n1 n2 n3)) k = setAside q k"
proof (rule setAside_same, cases "push q queue env at u n1 n2 n3")
  case (Pair r q')
  then show "map_of (mq_jobs (snd (push q queue env at u n1 n2 n3))) k = map_of (mq_jobs q) k"
  proof (cases rule: push_cases)
    case (stored q1)
    then have "mq_jobs q1 = mq_jobs q" by auto
    with stored(2) Pair storeJob_jobs[OF assms] show ?thesis by simp
  qed (use Pair in auto)
qed

lemma setAside_reserve:
  assumes "mq_ok q" "setAside q k"
  shows "setAside (snd (mq_Reserve q queues lease receipt now)) k"
    and "fst (mq_Reserve q queues lease receipt now) = Inr d \<Longrightarrow> deliveryKey d \<noteq> k"
proof -
  have "setAside q' k \<and> (\<forall>d. r = Inr d \<longrightarrow> deliveryKey d \<noteq> k)"
    if r: "mq_Reserve q queues lease receipt now = (r, q')" for r q'
  proof (cases r)
    case (Inl e)
    with r have "q' = q" using mq_Reserve_state_err[OF assms(1)] by simp
    with Inl assms(2) show ?thesis by simp
  next
    case (Inr d)
    with r obtain j where "map_of (mq_jobs q) (deliveryKey d) = Some j" "available j now"
      "q' = putJob q (deliveryKey d) (leaseJob j receipt now lease)"
      using reserve_takes[OF assms(1), of queues lease receipt now d q'] by blast
    moreover from this assms(2) have "deliveryKey d \<noteq> k" by (auto simp: setAside_def available_def)
    ultimately show ?thesis using Inr assms(2) by (simp add: setAside_def putJob_def)
  qed
  from this[OF prod.collapse[symmetric]]
  show "setAside (snd (mq_Reserve q queues lease receipt now)) k"
    "fst (mq_Reserve q queues lease receipt now) = Inr d \<Longrightarrow> deliveryKey d \<noteq> k" by auto
qed

lemma setAside_failed:
  assumes "mq_ok q" "setAside q k"
  shows "k \<noteq> (queue, jid) \<Longrightarrow> setAside (snd (mq_RetryFailed q queue jid n1 n2)) k"
    and "setAside (snd (mq_ForgetFailed q queue jid)) k"
    and "setAside (snd (mq_PurgeFailed q queue cutoff)) k"
  using assms mq_ok_distinct[OF assms(1)]
  by (auto simp: setAside_def mq_RetryFailed_def mq_ForgetFailed_def mq_PurgeFailed_def putJob_def
      Let_def map_of_filter_distinct split: option.splits sum.splits if_splits)

lemma setAside_kept:
  assumes "mq_ok q" "setAside q k" "\<not> revives k c"
  shows "setAside (snd (mq_do c q)) k" "\<not> delivers k (fst (mq_do c q))"
proof -
  have un: "unleased q d k" for d
    using assms(2) leased_failure[OF assms(1), of d]
    by (auto simp: unleased_def setAside_def leased_Inr)
  have settle: "setAside (snd (mq_Ack q d)) k" "setAside (snd (release q d at uncount now)) k"
    "setAside (snd (mq_Extend q d lease now)) k" "setAside (snd (mq_Bury q d f now)) k" for d at uncount now lease f
    using settle_other[OF un assms(1)] assms(2) by (simp_all add: setAside_def)
  show "setAside (snd (mq_do c q)) k"
    using assms(3)
    by (cases c)
      (simp_all add: settle setAside_push setAside_reserve(1) setAside_failed assms(1,2) mq_Push_def mq_PushUnique_def
        mq_Release_def mq_Postpone_def setAside_same[of _ k q] mq_BeginOnce_def Let_def split: option.splits,
        simp add: setAside_def mq_Close_def)
  show "\<not> delivers k (fst (mq_do c q))"
    unfolding delivers_iff do_delivers using setAside_reserve(2)[OF assms(1,2)] by blast
qed

lemma run_setAside:
  assumes "mq_ok q" "setAside q k" "list_all call_ok cs" "list_ex (revives k) cs = False"
  shows "setAside (snd (mq_run cs q)) k \<and> list_ex (delivers k) (fst (mq_run cs q)) = False"
  using assms
proof (induction cs arbitrary: q)
  case (Cons c cs)
  then have "\<not> revives k c" by simp
  from setAside_kept[OF Cons.prems(1,2) this] Cons.IH[OF mq_do_ok[OF Cons.prems(1)]] Cons.prems(3,4)
  show ?case by simp
qed simp

end
