(* ===== verification/Jobs_Memory_Theorems.thy ===== *)
theory Jobs_Memory_Theorems
  imports Jobs_Claims Jobs_Counts Jobs_Runs
begin

section \<open>What the in-memory queue promises\<close>

text \<open>
  The properties of \<open>MemoryQueue\<close>, each over every queue a program can reach: from
  \<open>NewMemoryQueue\<close> by any sequence of calls. They rest on the lemmas of the theories above and,
  where they are promises of every driver, on the interpretation of the driver contract.
\<close>

subsection \<open>A small queue to evaluate on\<close>

definition demoEnv :: "string \<Rightarrow> Envelope" where
  "demoEnv jid = \<lparr>env_ID = jid, env_Name = ''mail'', env_Version = 1, env_Payload = ''{}'',
     env_Metadata = [], env_EnqueuedAt = 1, env_Attempt = 0\<rparr>"

definition demoCalls :: "mq_call list" where
  "demoCalls = [CPush ''default'' (demoEnv ''a'') 0 100, CPush ''low'' (demoEnv ''b'') 0 100,
     CPush ''default'' (demoEnv ''c'') 0 105]"

definition demoQueue :: MemoryQueue where
  "demoQueue = snd (mq_run demoCalls NewMemoryQueue)"

lemma run_reachable:
  "mq_reachable q \<Longrightarrow> list_all call_ok cs \<Longrightarrow> mq_reachable (snd (mq_run cs q))"
  by (induction cs arbitrary: q) (simp_all add: mq_reachable.call)

lemma demo_reachable: "mq_reachable demoQueue"
  unfolding demoQueue_def by (rule run_reachable[OF mq_reachable.start]) (simp add: demoCalls_def)

lemma demo_ok: "mq_ok demoQueue"
  by (rule reachable_ok[OF demo_reachable])

subsection \<open>Reserve\<close>

text \<open>
  C16: A \<open>Reserve\<close> that delivers takes its job from the first listed queue that has one due. A job
  is due when it has not failed and its time has come: the deadline of its lease if it is leased,
  else the time it was made available. Of the due jobs of that queue \<open>Reserve\<close> takes the one whose
  time came first and, at equal times, the one with the lowest sequence number, which is push order:
  a call that gives a job a number (a push, a release, a retry) gives it one above every other job's,
  and no call changes the number of another job. The delivery is one more attempt of that job, and
  the only change to the queue is that this job is leased under the new receipt until now plus the
  lease.
\<close>

theorem reserve_takes_first:
  assumes "mq_reachable q" "mq_Reserve q queues lease receipt now = (Inr d, q')"
    and "ready = (\<lambda>j. if mj_reserved j then mj_leaseDeadline j else mj_availableAt j)"
    and "due = (\<lambda>queue k j. map_of (mq_jobs q) k = Some j \<and> fst k = queue \<and> mj_failure j = None \<and> ready j \<le> now)"
  shows "(\<exists>qs1 qs2 j. queues = qs1 @ d_Queue d # qs2 \<and>
     (\<forall>queue \<in> set qs1. \<forall>k j'. \<not> due queue k j') \<and> due (d_Queue d) (deliveryKey d) j \<and>
     (\<forall>k j'. due (d_Queue d) k j' \<longrightarrow> k \<noteq> deliveryKey d \<longrightarrow>
        ready j < ready j' \<or> ready j = ready j' \<and> mj_seq j < mj_seq j') \<and>
     d_Envelope d = (mj_env j)\<lparr>env_Attempt := mj_attempts j + 1\<rparr> \<and>
     d_Receipt d = receipt \<and> d_LeaseExpired d = mj_reserved j \<and>
     q' = q\<lparr>mq_jobs := AList.update (deliveryKey d)
       (j\<lparr>mj_attempts := mj_attempts j + 1, mj_reserved := True, mj_receipt := receipt,
          mj_leaseDeadline := now + lease\<rparr>) (mq_jobs q)\<rparr>) \<and>
     (\<forall>c k j'. map_of (mq_jobs (snd (mq_do c q))) k = Some j' \<longrightarrow>
        (\<exists>j. map_of (mq_jobs q) k = Some j \<and> mj_seq j' = mj_seq j) \<or>
        (\<forall>k0 j0. map_of (mq_jobs q) k0 = Some j0 \<longrightarrow> mj_seq j0 < mj_seq j'))"
proof -
  note ok = reachable_ok[OF assms(1)]
  from reserve_takes[OF ok assms(2)] obtain qs1 qs2 j where r: "queues = qs1 @ d_Queue d # qs2"
    "\<forall>queue \<in> set qs1. dueKeys q now queue = {}" "map_of (mq_jobs q) (deliveryKey d) = Some j" "available j now"
    "\<forall>k \<in> dueKeys q now (d_Queue d) - {deliveryKey d}. before j (jobAt q k)"
    "d_Envelope d = (mj_env j)\<lparr>env_Attempt := mj_attempts j + 1\<rparr>" "d_Receipt d = receipt"
    "d_LeaseExpired d = mj_reserved j" "q' = putJob q (deliveryKey d) (leaseJob j receipt now lease)" by blast
  have due: "due queue k j' \<longleftrightarrow> k \<in> dueKeys q now queue \<and> j' = jobAt q k" for queue k j'
    using dueKeys_explicit[OF ok, of k j' queue now] unfolding assms(3,4) by simp
  have dk: "deliveryKey d \<in> dueKeys q now (d_Queue d)"
    using r(3,4) mq_ok_job[OF ok r(3)]
    by (simp add: dueKeys_def eligible_def job_ok_def jobKey_def deliveryKey_def)
  have order: "ready j < ready j' \<or> ready j = ready j' \<and> mj_seq j < mj_seq j'"
    if "due (d_Queue d) k j'" "k \<noteq> deliveryKey d" for k j'
    using r(5) that unfolding due assms(3) by (auto simp: before_def readyAt_def Let_def split: if_splits)
  have later: "(\<exists>j. map_of (mq_jobs q) k = Some j \<and> mj_seq j' = mj_seq j) \<or>
        (\<forall>k0 j0. map_of (mq_jobs q) k0 = Some j0 \<longrightarrow> mj_seq j0 < mj_seq j')"
    if "map_of (mq_jobs (snd (mq_do c q))) k = Some j'" for c k j'
    by (rule orders_last[OF ok call_orders[OF ok] that])
  have "due (d_Queue d) (deliveryKey d) j" "\<forall>queue \<in> set qs1. \<forall>k j'. \<not> due queue k j'"
    using dk r(2,3) unfolding due by (simp_all add: jobAt_def)
  moreover have "q' = q\<lparr>mq_jobs := AList.update (deliveryKey d)
       (j\<lparr>mj_attempts := mj_attempts j + 1, mj_reserved := True, mj_receipt := receipt,
          mj_leaseDeadline := now + lease\<rparr>) (mq_jobs q)\<rparr>"
    using r(9) by (simp add: putJob_def leaseJob_def)
  ultimately show ?thesis using r(1,6-8) order later by blast
qed

text \<open>Two jobs pushed at the same instant: the first pushed comes first.\<close>

definition demoTie :: MemoryQueue where
  "demoTie = snd (mq_run [CPush ''default'' (demoEnv ''y'') 0 100, CPush ''default'' (demoEnv ''x'') 0 100] NewMemoryQueue)"

theorem reserve_takes_first_witness:
  "\<exists>d q'. mq_Reserve demoTie [''high'', ''default''] 30 ''r1'' 110 = (Inr d, q') \<and>
     deliveryKey d = (''default'', ''y'') \<and> env_Attempt (d_Envelope d) = 1 \<and>
     mj_availableAt (jobAt demoTie (''default'', ''y'')) = mj_availableAt (jobAt demoTie (''default'', ''x'')) \<and>
     mj_seq (jobAt demoTie (''default'', ''y'')) < mj_seq (jobAt demoTie (''default'', ''x''))"
proof -
  let ?r = "mq_Reserve demoTie [''high'', ''default''] 30 ''r1'' 110"
  let ?d = "projr (fst ?r)"
  have reach: "mq_reachable demoTie"
    unfolding demoTie_def by (rule run_reachable[OF mq_reachable.start]) simp
  have res: "?r = (Inr ?d, snd ?r)" by (rule outcome_Inr) code_simp
  have d: "deliveryKey ?d = (''default'', ''y'')" "env_Attempt (d_Envelope ?d) = 1" "d_Queue ?d = ''default''" by code_simp+
  have x: "map_of (mq_jobs demoTie) (''default'', ''x'') = Some (jobAt demoTie (''default'', ''x''))"
    "map_of (mq_jobs demoTie) (''default'', ''y'') = Some (jobAt demoTie (''default'', ''y''))"
    "mj_failure (jobAt demoTie (''default'', ''x'')) = None" "\<not> mj_reserved (jobAt demoTie (''default'', ''x''))"
    "\<not> mj_reserved (jobAt demoTie (''default'', ''y''))"
    "mj_availableAt (jobAt demoTie (''default'', ''x'')) = 100" "mj_availableAt (jobAt demoTie (''default'', ''y'')) = 100"
    by code_simp+
  let ?ready = "\<lambda>j. if mj_reserved j then mj_leaseDeadline j else mj_availableAt j"
  let ?due = "\<lambda>queue k j. map_of (mq_jobs demoTie) k = Some j \<and> fst k = queue \<and> mj_failure j = None \<and> ?ready j \<le> 110"
  obtain j where j: "?due ''default'' (''default'', ''y'') j"
    "\<And>k j'. ?due ''default'' k j' \<Longrightarrow> k \<noteq> (''default'', ''y'') \<Longrightarrow>
       ?ready j < ?ready j' \<or> ?ready j = ?ready j' \<and> mj_seq j < mj_seq j'"
    using reserve_takes_first[OF reach res refl refl] unfolding d by blast
  from j(1) x(2) have "j = jobAt demoTie (''default'', ''y'')" by simp
  with j(2)[of "(''default'', ''x'')" "jobAt demoTie (''default'', ''x'')"] x
  have "mj_seq (jobAt demoTie (''default'', ''y'')) < mj_seq (jobAt demoTie (''default'', ''x''))" by simp
  with res d x show ?thesis by auto
qed

text \<open>
  C24: Reserving over and over at one instant delivers every due job of a queue exactly once, first
  by when the job became available (or its lease ran out) and then by push order; the \<open>Reserve\<close>
  after the last one reports \<open>ErrNoJob\<close>.
\<close>

theorem reserve_drains:
  assumes "mq_reachable q" "\<not> mq_closed q" "ValidName queue" "0 < lease" "'''' \<notin> set receipts"
    and "length receipts = card (dueKeys q now queue)"
    and "ready = (\<lambda>j. if mj_reserved j then mj_leaseDeadline j else mj_availableAt j)"
  shows "\<exists>ds q'. mq_run (reserveAll queue lease now receipts) q = (map ODelivery ds, q') \<and>
     set (map deliveryKey ds) = dueKeys q now queue \<and> distinct (map deliveryKey ds) \<and>
     sorted_wrt (\<lambda>j1 j2. ready j1 < ready j2 \<or> ready j1 = ready j2 \<and> mj_seq j1 < mj_seq j2)
       (map (\<lambda>d. jobAt q (deliveryKey d)) ds) \<and>
     (\<forall>receipt. mq_Reserve q' [queue] lease receipt now = (Inl ErrNoJob, q'))"
proof -
  from drain[OF reachable_ok[OF assms(1)] assms(2-6)] obtain ds q' where
    run: "mq_run (reserveAll queue lease now receipts) q = (map ODelivery ds, q')"
    and q': "mq_ok q'" "\<not> mq_closed q'" "dueKeys q' now queue = {}"
    and ds: "set (map deliveryKey ds) = dueKeys q now queue" "distinct (map deliveryKey ds)"
      "sorted_wrt (\<lambda>d1 d2. before (jobAt q (deliveryKey d1)) (jobAt q (deliveryKey d2))) ds" by blast
  have "before j1 j2 \<longleftrightarrow> ready j1 < ready j2 \<or> ready j1 = ready j2 \<and> mj_seq j1 < mj_seq j2" for j1 j2
    unfolding assms(7) by (auto simp: before_def readyAt_def Let_def)
  with ds(3) have sorted: "sorted_wrt (\<lambda>j1 j2. ready j1 < ready j2 \<or> ready j1 = ready j2 \<and> mj_seq j1 < mj_seq j2)
       (map (\<lambda>d. jobAt q (deliveryKey d)) ds)" by (simp add: sorted_wrt_map)
  from q'(3) have "noneEligible q' now queue" by (auto simp: noneEligible_def dueKeys_def)
  with q' assms(3,4) have "mq_Reserve q' [queue] lease receipt now = (Inl ErrNoJob, q')" for receipt
    by (simp add: mq_Reserve_def reserveScan_noneEligible[THEN iffD2])
  with run ds(1,2) sorted show ?thesis by blast
qed

lemma dueKeys_code:
  "mq_ok q \<Longrightarrow> dueKeys q now queue = fst ` set (filter (\<lambda>(k, j). eligible now queue j) (mq_jobs q))"
  using mq_ok_distinct[of q] unfolding dueKeys_def
  by (force dest: map_of_in_set intro: set_in_map_of)

theorem reserve_drains_witness:
  "\<exists>ds q'. mq_run (reserveAll ''default'' 30 110 [''r1'', ''r2'']) demoQueue = (map ODelivery ds, q') \<and>
     set (map deliveryKey ds) = dueKeys demoQueue 110 ''default'' \<and> distinct (map deliveryKey ds) \<and>
     (\<forall>receipt. mq_Reserve q' [''default''] 30 receipt 110 = (Inl ErrNoJob, q'))"
proof -
  have c: "\<not> mq_closed demoQueue" "ValidName ''default''" by code_simp+
  have n: "length [''r1'', ''r2''] = card (dueKeys demoQueue 110 ''default'')"
    unfolding dueKeys_code[OF demo_ok] by code_simp
  have p: "(0 :: duration) < 30" "'''' \<notin> set [''r1'', ''r2'']" by simp_all
  from reserve_drains[OF demo_reachable c p n refl] show ?thesis by blast
qed

subsection \<open>Leases\<close>

text \<open>
  C1: From a \<open>Reserve\<close> until its deadline the lease is exclusive: whatever other callers do in
  between, short of presenting the lease's own receipt or closing the queue, no other \<open>Reserve\<close>
  delivers the job, and the holder can still acknowledge it.
\<close>

theorem lease_exclusive:
  assumes "mq_reachable q" "receipt \<noteq> ''''" "mq_Reserve q queues lease receipt now = (Inr d, q1)"
    and "list_all (leavesLease (deliveryKey d) receipt (now + lease)) cs"
  shows "(\<forall>d'. ODelivery d' \<in> set (fst (mq_run cs q1)) \<longrightarrow> deliveryKey d' \<noteq> deliveryKey d) \<and>
     (\<exists>q2. mq_Ack (snd (mq_run cs q1)) d = (Inr (), q2) \<and> map_of (mq_jobs q2) (deliveryKey d) = None)"
proof -
  note ok = reachable_ok[OF assms(1)]
  have q1: "mq_ok q1" using mq_Reserve_ok[OF ok assms(2), of queues lease now] assms(3) by simp
  have "holdsLease (mq_view q1 (deliveryKey d)) d" "\<not> mq_closed q1"
    using mem.reserve_holds[OF ok assms(2)] mem.reserve_Inr[OF ok assms(2)] assms(3)
    by (simp_all add: mem_ops_def)
  then obtain j where j: "leased q1 d = Inr j" using mq_leased(3)[OF q1] by blast
  note jD = leased_Inr[THEN iffD1, OF j]
  have dl: "d_Receipt d = receipt" "mj_leaseDeadline j = now + lease"
    using reserve_takes[OF ok assms(3)] jD by (auto simp: putJob_def leaseJob_def)
  have run: "map_of (mq_jobs (snd (mq_run cs q1))) (deliveryKey d) = Some j"
    "\<forall>d'. ODelivery d' \<in> set (fst (mq_run cs q1)) \<longrightarrow> deliveryKey d' \<noteq> deliveryKey d"
    using run_lease_kept[OF q1, of "deliveryKey d" j cs] jD dl assms(4) by simp_all
  have l: "leased (snd (mq_run cs q1)) d = Inr j"
    using run(1) jD leavesLease_open[OF assms(4)] by (simp add: leased_Inr mq_run_closed)
  have "jobKey j = deliveryKey d" by (rule leased_key[OF q1 j])
  with run(2) show ?thesis by (simp add: mq_Ack_eq[OF l])
qed

text \<open>Another worker polling at two later instants, with one more job due and a push in between.\<close>

definition demoPolls :: "mq_call list" where
  "demoPolls = [CReserve [''default''] 30 ''r2'' 120, CPush ''default'' (demoEnv ''d'') 0 125,
     CReserve [''default'', ''low''] 30 ''r3'' 139]"

theorem lease_exclusive_witness:
  "let r = mq_Reserve demoQueue [''default''] 30 ''r1'' 110; d = projr (fst r) in
     \<not> isl (fst r) \<and> deliveryKey d = (''default'', ''a'') \<and>
     (\<forall>d'. ODelivery d' \<in> set (fst (mq_run demoPolls (snd r))) \<longrightarrow> deliveryKey d' \<noteq> deliveryKey d) \<and>
     (\<exists>q2. mq_Ack (snd (mq_run demoPolls (snd r))) d = (Inr (), q2) \<and>
        map_of (mq_jobs q2) (deliveryKey d) = None)"
proof -
  let ?r = "mq_Reserve demoQueue [''default''] 30 ''r1'' 110"
  let ?d = "projr (fst ?r)"
  have r: "\<not> isl (fst ?r)" by code_simp
  have d: "deliveryKey ?d = (''default'', ''a'')" by code_simp
  have "list_all (leavesLease (deliveryKey ?d) ''r1'' (110 + 30)) demoPolls" by code_simp
  from lease_exclusive[OF demo_reachable _ outcome_Inr[OF r] this] r d show ?thesis
    unfolding Let_def by simp
qed

text \<open>
  C6: No job is lost. In any history, a job that is in the queue at some point and no longer at the
  end was removed by a call that may remove it: an acknowledgement that presented the job's
  current receipt, \<open>ForgetFailed\<close> or \<open>PurgeFailed\<close> of a job that had failed, or \<open>Close\<close>.
  (\<open>removes\<close> says so of the queue as it was right before that call.)
\<close>

theorem job_not_lost:
  assumes "mq_reachable q" "list_all call_ok cs" "map_of (mq_jobs q) k = Some j"
    and "map_of (mq_jobs (snd (mq_run cs q))) k = None"
  shows "\<exists>pre c post. cs = pre @ c # post \<and> removes k (snd (mq_run pre q)) c"
  by (rule run_removes_only[OF reachable_ok[OF assms(1)] assms(2-4)])

definition demoDelivery :: Delivery where
  "demoDelivery = projr (fst (mq_Reserve demoQueue [''default''] 30 ''r1'' 110))"

definition demoWork :: "mq_call list" where
  "demoWork = [CReserve [''default''] 30 ''r1'' 110, CPush ''default'' (demoEnv ''d'') 0 125, CAck demoDelivery]"

theorem job_not_lost_witness:
  "\<exists>pre c post. demoWork = pre @ c # post \<and> removes (''default'', ''a'') (snd (mq_run pre demoQueue)) c"
proof (rule job_not_lost[OF demo_reachable])
  show "list_all call_ok demoWork" by code_simp
  show "map_of (mq_jobs demoQueue) (''default'', ''a'') = Some (jobAt demoQueue (''default'', ''a''))"
    by code_simp
  show "map_of (mq_jobs (snd (mq_run demoWork demoQueue))) (''default'', ''a'') = None" by code_simp
qed

text \<open>
  C35: A worker that lost its lease cannot harm the new holder. Once another \<open>Reserve\<close> delivered the
  job, every settling call that presents the earlier receipt fails with \<open>ErrLeaseLost\<close> and changes
  nothing.
\<close>

theorem stale_holder_refused:
  assumes "mq_reachable q" "receipt \<noteq> ''''" "mq_Reserve q queues lease receipt now = (Inr d, q')"
    and "deliveryKey old = deliveryKey d" "d_Receipt old \<noteq> receipt" "0 < extension"
  shows "mq_Ack q' old = (Inl ErrLeaseLost, q') \<and> mq_Release q' old at t = (Inl ErrLeaseLost, q') \<and>
     mq_Postpone q' old at t = (Inl ErrLeaseLost, q') \<and>
     mq_Extend q' old extension t = (Inl ErrLeaseLost, q') \<and> mq_Bury q' old f t = (Inl ErrLeaseLost, q')"
proof -
  have "op_Reserve mem_ops q queues lease receipt now = (Inr d, q')"
    using assms(3) by (simp add: mem_ops_def)
  note stale = mem.stale_lease_lost[OF reachable_ok[OF assms(1)] assms(2) this assms(4,5)]
  show ?thesis
    using stale[OF mem.ack] stale[OF mem.release] stale[OF mem.postpone]
      stale[OF mem.extend[OF assms(6)]] stale[OF mem.bury]
    by (simp add: mem_ops_def)
qed

definition demoTaken :: MemoryQueue where
  "demoTaken = snd (mq_Reserve demoQueue [''default''] 30 ''r1'' 110)"

lemma demoTaken_reachable: "mq_reachable demoTaken"
  using mq_reachable.call[OF demo_reachable, of "CReserve [''default''] 30 ''r1'' 110"]
  by (simp add: demoTaken_def)

theorem stale_holder_refused_witness:
  "let r = mq_Reserve demoTaken [''default''] 30 ''r2'' 150; q' = snd r in
     \<not> isl (fst r) \<and> deliveryKey (projr (fst r)) = (''default'', ''c'') \<and>
     (let r2 = mq_Reserve q' [''default''] 30 ''r3'' 150; q2 = snd r2 in
        \<not> isl (fst r2) \<and> deliveryKey demoDelivery = deliveryKey (projr (fst r2)) \<and>
        mq_Ack q2 demoDelivery = (Inl ErrLeaseLost, q2))"
proof -
  let ?r = "mq_Reserve demoTaken [''default''] 30 ''r2'' 150"
  let ?r2 = "mq_Reserve (snd ?r) [''default''] 30 ''r3'' 150"
  have r: "\<not> isl (fst ?r)" "deliveryKey (projr (fst ?r)) = (''default'', ''c'')" by code_simp+
  have r2: "\<not> isl (fst ?r2)" "deliveryKey demoDelivery = deliveryKey (projr (fst ?r2))"
    "d_Receipt demoDelivery \<noteq> ''r3''" by code_simp+
  have "mq_reachable (snd ?r)"
    using mq_reachable.call[OF demoTaken_reachable, of "CReserve [''default''] 30 ''r2'' 150"] by simp
  from stale_holder_refused[OF this _ outcome_Inr[OF r2(1)] r2(2,3), of 1] r r2(1,2) show ?thesis
    unfolding Let_def by simp
qed

text \<open>
  A delivery is settled once. After an \<open>Ack\<close>, \<open>Release\<close>, \<open>Postpone\<close> or \<open>Bury\<close> of it
  succeeded, every further settling call with the same delivery fails with \<open>ErrLeaseLost\<close> and
  changes nothing, until the job is reserved anew.
\<close>

theorem settled_once:
  assumes "mq_reachable q" "0 < extension"
    and "mq_Ack q d = (Inr (), q') \<or> mq_Release q d at1 t1 = (Inr (), q') \<or>
         mq_Postpone q d at1 t1 = (Inr (), q') \<or> mq_Bury q d f1 t1 = (Inr (), q')"
  shows "mq_Ack q' d = (Inl ErrLeaseLost, q') \<and> mq_Release q' d at t = (Inl ErrLeaseLost, q') \<and>
     mq_Postpone q' d at t = (Inl ErrLeaseLost, q') \<and>
     mq_Extend q' d extension t = (Inl ErrLeaseLost, q') \<and> mq_Bury q' d f t = (Inl ErrLeaseLost, q')"
proof -
  note ok = reachable_ok[OF assms(1)]
  have "call2 q' = (Inl ErrLeaseLost, q')" if "settles mq_ok mq_view mq_closed call2 d upd2" for call2 upd2
    using assms(3)
      mem.settle_once[OF mem.ack that ok] mem.settle_once[OF mem.release that ok]
      mem.settle_once[OF mem.postpone that ok] mem.settle_once[OF mem.bury that ok]
    by (auto simp: mem_ops_def jv_isLeased_def)
  note once = this
  show ?thesis
    using once[OF mem.ack] once[OF mem.release] once[OF mem.postpone] once[OF mem.extend[OF assms(2)]]
      once[OF mem.bury] by (simp add: mem_ops_def)
qed

theorem settled_once_witness:
  "let q' = snd (mq_Release demoTaken demoDelivery 130 115) in
     mq_Release demoTaken demoDelivery 130 115 = (Inr (), q') \<and> mq_Ack q' demoDelivery = (Inl ErrLeaseLost, q')"
proof -
  let ?r = "mq_Release demoTaken demoDelivery 130 115"
  have "\<not> isl (fst ?r)" by code_simp
  then have r: "?r = (Inr (), snd ?r)" using outcome_Inr[of ?r] by simp
  with settled_once[OF demoTaken_reachable, of 1 demoDelivery "snd ?r" 130 115] show ?thesis
    unfolding Let_def by simp
qed

subsection \<open>Claims\<close>

text \<open>
  C36: A uniqueness key admits one job. After a \<open>PushUnique\<close> succeeded, every further \<open>PushUnique\<close>
  of that key on that queue before the claim's expiry is refused with \<open>DuplicateError\<close> naming
  the first job and stores no job, whatever happened in between (sweeps of expired claims included).
  A key claimed for a fixed time stays claimed even when its holder is acknowledged, set aside,
  retried or forgotten; a key claimed until its job is done stays claimed as long as the holder was
  not settled or retried. The queue must not have been closed.
\<close>

theorem unique_admits_one:
  assumes "mq_reachable q" "mq_PushUnique q queue env at u n1 n2 n3 = (Inr (), q1)"
    and "list_all (keepsUnique (uk_UntilDone u) queue (env_ID env) (n3 + uk_TTL u)) cs" "CClose \<notin> set cs"
    and "uk_Key u' = uk_Key u" "0 < uk_TTL u'" "env_ID env' \<noteq> ''''" "m1 < n3 + uk_TTL u" "m2 < n3 + uk_TTL u"
    and "q2 = snd (mq_run cs q1)"
  shows "fst (mq_PushUnique q2 queue env' at' u' m1 m2 m3) = Inl (DuplicateError queue (uk_Key u) (env_ID env)) \<and>
     mq_jobs (snd (mq_PushUnique q2 queue env' at' u' m1 m2 m3)) = mq_jobs q2"
proof -
  note c = push_claims[OF assms(2)]
  have q1: "mq_ok q1"
    using mq_PushUnique_ok[OF reachable_ok[OF assms(1)], of queue env at u n1 n2 n3] assms(2) by simp
  have "\<not> mq_closed q1"
    using assms(2) push_closed[of q queue env at "Some u" n1 n2 n3]
    by (auto simp: mq_PushUnique_def push_def split: option.splits if_splits)
  with assms(4,10) have open2: "\<not> mq_closed q2" by (simp add: mq_run_closed)
  have q2: "mq_ok q2" "map_of (mq_uniques q2) (queue, uk_Key u') = Some \<lparr>mc_holder = env_ID env, mc_expires = n3 + uk_TTL u\<rparr>"
    using run_unique_kept[OF q1 c(1,3), of "uk_UntilDone u" cs] c(5) assms(3,5,10) by simp_all
  from push_refused[OF q2 _ _ _ c(2) assms(7) open2, of m1 m2 at' m3] assms(5,6,8,9) c(3) show ?thesis
    by (simp add: unique_validate_def)
qed

definition demoKey :: UniqueKey where
  "demoKey = \<lparr>uk_Key = ''daily-report'', uk_TTL = 60, uk_UntilDone = True\<rparr>"

definition demoWindowKey :: UniqueKey where
  "demoWindowKey = \<lparr>uk_Key = ''daily-report'', uk_TTL = 60, uk_UntilDone = False\<rparr>"

text \<open>
  Until the job is done: its holder is running. For a fixed time: its holder ran and was
  acknowledged.
\<close>

definition demoWindow :: "mq_call list" where
  "demoWindow = [CReserve [''report''] 30 ''r1'' 120,
     CAck (projr (fst (mq_Reserve (snd (mq_PushUnique demoQueue ''report'' (demoEnv ''u1'') 0 demoWindowKey 110 110 110))
       [''report''] 30 ''r1'' 120)))]"

theorem unique_admits_one_witness:
  "(let r = mq_PushUnique demoQueue ''default'' (demoEnv ''u1'') 0 demoKey 110 110 110;
        cs = [CReserve [''default''] 30 ''r1'' 120, CBeginOnce ''k'' ''t'' 10 130] in
      \<not> isl (fst r) \<and>
      fst (mq_PushUnique (snd (mq_run cs (snd r))) ''default'' (demoEnv ''u2'') 0 demoKey 165 165 165) =
        Inl (DuplicateError ''default'' ''daily-report'' ''u1'')) \<and>
   (let r = mq_PushUnique demoQueue ''report'' (demoEnv ''u1'') 0 demoWindowKey 110 110 110; q2 = snd (mq_run demoWindow (snd r)) in
      \<not> isl (fst r) \<and> map_of (mq_jobs q2) (''report'', ''u1'') = None \<and>
      fst (mq_PushUnique q2 ''report'' (demoEnv ''u2'') 0 demoWindowKey 165 165 165) =
        Inl (DuplicateError ''report'' ''daily-report'' ''u1''))"
proof -
  let ?r = "mq_PushUnique demoQueue ''default'' (demoEnv ''u1'') 0 demoKey 110 110 110"
  let ?cs = "[CReserve [''default''] 30 ''r1'' 120, CBeginOnce ''k'' ''t'' 10 130]"
  let ?s = "mq_PushUnique demoQueue ''report'' (demoEnv ''u1'') 0 demoWindowKey 110 110 110"
  have r: "\<not> isl (fst ?r)" and s: "\<not> isl (fst ?s)" by code_simp+
  have r': "?r = (Inr (), snd ?r)" and s': "?s = (Inr (), snd ?s)"
    using outcome_Inr[OF r] outcome_Inr[OF s] by simp_all
  have gone: "map_of (mq_jobs (snd (mq_run demoWindow (snd ?s)))) (''report'', ''u1'') = None" by code_simp
  have w: "list_all (keepsUnique (uk_UntilDone demoWindowKey) ''report'' (env_ID (demoEnv ''u1'')) (110 + uk_TTL demoWindowKey)) demoWindow"
    "CClose \<notin> set demoWindow" by (simp_all add: demoWindow_def demoWindowKey_def)
  from unique_admits_one[OF demo_reachable r', of ?cs demoKey "demoEnv ''u2''" 165 165, OF _ _ refl _ _ _ _ refl]
    unique_admits_one[OF demo_reachable s' w, of demoWindowKey "demoEnv ''u2''" 165 165, OF refl _ _ _ _ refl] r s gone
  show ?thesis unfolding Let_def by (simp add: demoKey_def demoEnv_def demoWindowKey_def)
qed

text \<open>
  C40: \<open>Once\<close> is exclusive and remembers. After \<open>BeginOnce\<close> acquired a key, every other
  \<open>BeginOnce\<close> before the lock expires reports \<open>OnceBusy\<close>, whatever happened in between, as long
  as the holder neither finished nor abandoned; the holder's \<open>FinishOnce\<close> then succeeds, and from
  then on every \<open>BeginOnce\<close> reports \<open>OnceDone\<close> until the record expires.
\<close>

theorem once_excludes:
  assumes "mq_reachable q" "mq_BeginOnce q key token lock now = (OnceAcquired, q1)"
    and "token \<noteq> onceDoneMarker" "list_all (keepsOnce key token (now + lock)) cs"
    and "t < now + lock" "q2 = snd (mq_run cs q1)"
  shows "fst (mq_BeginOnce q2 key token' lock' t) = OnceBusy \<and>
     (\<exists>q3. mq_FinishOnce q2 key token keep t t' = (Inr (), q3) \<and>
        (\<forall>ds s. list_all (keepsOnce key onceDoneMarker (t' + keep)) ds \<longrightarrow> s < t' + keep \<longrightarrow>
           fst (mq_BeginOnce (snd (mq_run ds q3)) key token' lock' s) = OnceDone))"
proof -
  have q1: "mq_ok q1"
    using mq_BeginOnce_ok[OF reachable_ok[OF assms(1)], of key token lock now] assms(2) by simp
  have q2: "mq_ok q2" "map_of (mq_once q2) key = Some \<lparr>mc_holder = token, mc_expires = now + lock\<rparr>"
    using run_once_kept[OF q1 BeginOnce_acquired[OF assms(2)], of cs] assms(4,6) by simp_all
  from FinishOnce_held[OF q2(2) assms(5)] obtain q3 where
    q3: "mq_FinishOnce q2 key token keep t t' = (Inr (), q3)"
    "map_of (mq_once q3) key = Some \<lparr>mc_holder = onceDoneMarker, mc_expires = t' + keep\<rparr>" by blast
  have "mq_ok q3" using mq_FinishOnce_ok[OF q2(1), of key token keep t t'] q3(1) by simp
  from run_once_kept[OF this q3(2)]
  have "fst (mq_BeginOnce (snd (mq_run ds q3)) key token' lock' s) = OnceDone"
    if "list_all (keepsOnce key onceDoneMarker (t' + keep)) ds" "s < t' + keep" for ds s
    using that BeginOnce_held[of "snd (mq_run ds q3)" key _ s] by simp
  with q3(1) BeginOnce_held[OF q2] assms(3,5) show ?thesis by auto
qed

theorem once_excludes_witness:
  "let r = mq_BeginOnce demoQueue ''charge-7'' ''tok'' 20 110;
       q2 = snd (mq_run [CBeginOnce ''charge-8'' ''t'' 10 115] (snd r)) in
     fst r = OnceAcquired \<and> fst (mq_BeginOnce q2 ''charge-7'' ''other'' 20 120) = OnceBusy \<and>
     (\<exists>q3. mq_FinishOnce q2 ''charge-7'' ''tok'' 100 120 121 = (Inr (), q3) \<and>
        fst (mq_BeginOnce (snd (mq_run [CAbandonOnce ''charge-7'' ''other''] q3)) ''charge-7'' ''other'' 20 220) = OnceDone)"
proof -
  let ?r = "mq_BeginOnce demoQueue ''charge-7'' ''tok'' 20 110"
  have f: "fst ?r = OnceAcquired" by code_simp
  then have r: "?r = (OnceAcquired, snd ?r)" by (metis prod.collapse)
  let ?q2 = "snd (mq_run [CBeginOnce ''charge-8'' ''t'' 10 115] (snd ?r))"
  from once_excludes[OF demo_reachable r, of "[CBeginOnce ''charge-8'' ''t'' 10 115]" 120 ?q2 "''other''" 20 100 121]
  obtain q3 where q3: "fst (mq_BeginOnce ?q2 ''charge-7'' ''other'' 20 120) = OnceBusy"
      "mq_FinishOnce ?q2 ''charge-7'' ''tok'' 100 120 121 = (Inr (), q3)"
    and fin: "\<And>ds s. list_all (keepsOnce ''charge-7'' onceDoneMarker (121 + 100)) ds \<Longrightarrow> s < 121 + 100 \<Longrightarrow>
       fst (mq_BeginOnce (snd (mq_run ds q3)) ''charge-7'' ''other'' 20 s) = OnceDone"
    by (auto simp: onceDoneMarker_def)
  from fin[of "[CAbandonOnce ''charge-7'' ''other'']" 220] f q3 show ?thesis
    unfolding Let_def by (simp add: onceDoneMarker_def)
qed

text \<open>
  A key held until the job is done is free once the job is done: after its holder was
  acknowledged or buried, the holder no longer has the claim.
\<close>

theorem unique_freed:
  assumes "mq_reachable q" "leased q d = Inr job" "mj_heldUnique job"
  shows "(\<nexists>c. map_of (mq_uniques (snd (mq_Ack q d))) (d_Queue d, mj_unique job) = Some c \<and>
            mc_holder c = env_ID (d_Envelope d)) \<and>
     (\<nexists>c. map_of (mq_uniques (snd (mq_Bury q d f now))) (d_Queue d, mj_unique job) = Some c \<and>
            mc_holder c = env_ID (d_Envelope d))"
  using releaseUnique_frees[OF assms(3), of q] leased_key[OF reachable_ok[OF assms(1)] assms(2)]
  by (simp add: mq_Ack_eq[OF assms(2)] mq_Bury_eq[OF assms(2)] putJob_def jobKey_def deliveryKey_def)

definition demoUnique :: MemoryQueue where
  "demoUnique = snd (mq_run [CPushUnique ''mail'' (demoEnv ''u1'') 0 demoKey 110 110 110,
     CReserve [''mail''] 30 ''r9'' 112] demoQueue)"

lemma demoUnique_reachable: "mq_reachable demoUnique"
  unfolding demoUnique_def by (rule run_reachable[OF demo_reachable]) simp

theorem unique_freed_witness:
  "let d = deliveryOf ''mail'' (jobAt demoUnique (''mail'', ''u1'')) ''r9'' in
     (\<exists>job c. leased demoUnique d = Inr job \<and> mj_unique job = ''daily-report'' \<and>
        map_of (mq_uniques demoUnique) (''mail'', ''daily-report'') = Some c \<and> mc_holder c = ''u1'') \<and>
     (\<nexists>c. map_of (mq_uniques (snd (mq_Ack demoUnique d))) (''mail'', ''daily-report'') = Some c \<and>
        mc_holder c = ''u1'')"
proof -
  let ?d = "deliveryOf ''mail'' (jobAt demoUnique (''mail'', ''u1'')) ''r9''"
  let ?job = "jobAt demoUnique (''mail'', ''u1'')"
  have job: "leased demoUnique ?d = Inr ?job" by code_simp
  have held: "mj_heldUnique ?job" "mj_unique ?job = ''daily-report''" "d_Queue ?d = ''mail''"
    "env_ID (d_Envelope ?d) = ''u1''" by code_simp+
  have c: "map_of (mq_uniques demoUnique) (''mail'', ''daily-report'') =
    Some \<lparr>mc_holder = ''u1'', mc_expires = 170\<rparr>" by code_simp
  from unique_freed[OF demoUnique_reachable job held(1)] held(2-4) job c show ?thesis
    unfolding Let_def by simp
qed

subsection \<open>Counts, listings and retries\<close>

text \<open>
  \<open>Stats\<close> counts every job of the queue once, in one class, and agrees with \<open>Reserve\<close>:
  \<open>Ready\<close> is zero exactly when \<open>Reserve\<close> finds no job, and \<open>OldestReady\<close> is the availability
  of the job \<open>Reserve\<close> delivers (the clock never reads Go's zero time).
\<close>

theorem stats_agree_with_reserve:
  assumes "mq_reachable q" "mq_Stats q queue now = Inr st" "0 < lease"
    and "\<forall>k j. map_of (mq_jobs q) k = Some j \<longrightarrow> readyAt j \<noteq> 0"
  shows "qs_Ready st + qs_Scheduled st + qs_Reserved st + qs_Failed st = countQ (\<lambda>_. True) queue (mq_jobs q) \<and>
     (qs_Ready st = 0 \<longleftrightarrow> fst (mq_Reserve q [queue] lease receipt now) = Inl ErrNoJob) \<and>
     (\<forall>d. fst (mq_Reserve q [queue] lease receipt now) = Inr d \<longrightarrow> qs_OldestReady st = d_AvailableAt d)"
proof -
  note ok = reachable_ok[OF assms(1)]
  have st: "st = countJobs now queue (mq_jobs q) zeroStats" "ValidName queue" "\<not> mq_closed q"
    using assms(2) by (auto simp: mq_Stats_def split: if_splits)
  have nz: "\<forall>(k, j) \<in> set (mq_jobs q). eligible now queue j \<longrightarrow> readyAt j \<noteq> 0"
    using assms(4) set_in_map_of[OF mq_ok_distinct[OF ok]] by blast
  have classes: "qs_Ready st = countQ (\<lambda>j. available j now) queue (mq_jobs q)"
    "qs_Ready st + qs_Scheduled st + qs_Reserved st + qs_Failed st = countQ (\<lambda>_. True) queue (mq_jobs q)"
    using classes_partition[of now queue "mq_jobs q"] by (simp_all add: st countJobs_classes zeroStats_def)
  have none: "qs_Ready st = 0 \<longleftrightarrow> fst (mq_Reserve q [queue] lease receipt now) = Inl ErrNoJob"
    unfolding classes(1) ready_noneEligible[OF ok] using assms(3) st(2,3)
    by (auto simp: mq_Reserve_def reserveScan_noneEligible[OF ok, symmetric] split: option.splits)
  have "qs_OldestReady st = d_AvailableAt d" if r: "fst (mq_Reserve q [queue] lease receipt now) = Inr d" for d
  proof -
    from r obtain q' where "mq_Reserve q [queue] lease receipt now = (Inr d, q')" by (metis prod.collapse)
    then obtain k j where nj: "nextJob q now queue k j" and d: "d = deliveryOf queue j receipt"
      unfolding mq_Reserve_Inr[OF ok] reservedFrom_def by (auto simp: Cons_eq_append_conv)
    then have j: "(k, j) \<in> set (mq_jobs q)" "eligible now queue j" by (auto simp: nextJob_def dest: map_of_in_set)
    note old = countJobs_oldest[OF nz, of zeroStats, folded st(1)]
    have "qs_Ready st \<noteq> 0" using none r by simp
    with old obtain k' j' where j': "(k', j') \<in> set (mq_jobs q)" "eligible now queue j'"
      "qs_OldestReady st = readyAt j'" unfolding classes(1) by (auto simp: zeroStats_def)
    have "readyAt j \<le> readyAt j'"
    proof (cases "k' = k")
      case False
      then have "before j j'"
        using nj j' set_in_map_of[OF mq_ok_distinct[OF ok] j'(1)] by (simp add: nextJob_def)
      then show ?thesis by (auto simp: before_def Let_def split: if_splits)
    next
      case True
      with set_in_map_of[OF mq_ok_distinct[OF ok] j(1)] set_in_map_of[OF mq_ok_distinct[OF ok] j'(1)]
      show ?thesis by simp
    qed
    moreover have "qs_OldestReady st \<le> readyAt j" using old j by blast
    ultimately show ?thesis using j'(3) by (simp add: d deliveryOf_def)
  qed
  with classes(2) none show ?thesis by blast
qed

theorem stats_agree_with_reserve_witness:
  "\<exists>st. mq_Stats demoTaken ''default'' 120 = Inr st \<and> qs_Ready st = 1 \<and> qs_Reserved st = 1 \<and>
     (\<forall>d. fst (mq_Reserve demoTaken [''default''] 30 ''r2'' 120) = Inr d \<longrightarrow> qs_OldestReady st = d_AvailableAt d)"
proof -
  let ?st = "projr (mq_Stats demoTaken ''default'' 120)"
  have st: "mq_Stats demoTaken ''default'' 120 = Inr ?st" "qs_Ready ?st = 1" "qs_Reserved ?st = 1"
    by code_simp+
  have "list_all (\<lambda>(k, j). readyAt j \<noteq> 0) (mq_jobs demoTaken)" by code_simp
  then have "\<forall>k j. map_of (mq_jobs demoTaken) k = Some j \<longrightarrow> readyAt j \<noteq> 0"
    by (auto simp: list_all_iff dest: map_of_in_set)
  from stats_agree_with_reserve[OF demoTaken_reachable st(1) _ this, of 30 "''r2''"] st show ?thesis by auto
qed

text \<open>
  \<open>Failed\<close> lists exactly the failed jobs of the queue, latest failure first and by descending
  ID within an instant, each once; with a positive limit, the first so many of that list.
\<close>

theorem failed_lists_latest_first:
  assumes "mq_reachable q" "ValidName queue" "\<not> mq_closed q"
  shows "\<exists>out. sorted_wrt failedLess out \<and>
     set out = {failedJob j f | jid j f. map_of (mq_jobs q) (queue, jid) = Some j \<and> mj_failure j = Some f} \<and>
     (\<forall>limit. mq_Failed q queue limit = Inr (if 0 < limit then take (nat limit) out else out))"
proof -
  obtain out where out: "mq_Failed q queue 0 = Inr out" "sorted_wrt failedLess out"
    "set out = {failedJob j f | jid j f. map_of (mq_jobs q) (queue, jid) = Some j \<and> mj_failure j = Some f}"
    by (rule mq_Failed_all[OF reachable_ok[OF assms(1)] assms(2,3)])
  then have "out = sortFailed (collectFailed queue (mq_jobs q))" using assms by (simp add: mq_Failed_def)
  then have "mq_Failed q queue limit = Inr (if 0 < limit then take (nat limit) out else out)" for limit
    using assms by (auto simp: mq_Failed_def Let_def)
  with out show ?thesis by blast
qed

definition demoFailure :: Failure where
  "demoFailure = \<lparr>f_Reason = ReasonExhausted, f_Kind = KindHandler, f_Error = ''boom'', f_At = 0\<rparr>"

definition demoBuried :: MemoryQueue where
  "demoBuried = snd (mq_Bury demoTaken demoDelivery demoFailure 115)"

lemma demoBuried_reachable: "mq_reachable demoBuried"
  using mq_reachable.call[OF demoTaken_reachable, of "CBury demoDelivery demoFailure 115"]
  by (simp add: demoBuried_def)

theorem failed_lists_latest_first_witness:
  "\<exists>out. sorted_wrt failedLess out \<and> length out = 1 \<and> mq_Failed demoBuried ''default'' 0 = Inr out \<and>
     mq_Failed demoBuried ''default'' 1 = Inr (take 1 out)"
proof -
  have "ValidName ''default''" "\<not> mq_closed demoBuried" by code_simp+
  from failed_lists_latest_first[OF demoBuried_reachable this] obtain out where
    out: "sorted_wrt failedLess out"
      "\<And>limit. mq_Failed demoBuried ''default'' limit = Inr (if 0 < limit then take (nat limit) out else out)"
    by blast
  have "length (projr (mq_Failed demoBuried ''default'' 0)) = 1" by code_simp
  with out(1) out(2)[of 0] out(2)[of 1] show ?thesis by auto
qed

text \<open>
  Go visits a map in any order, and it does not matter: on two queues whose maps hold the same
  entries, \<open>Reserve\<close> delivers the same job and leaves the same jobs, \<open>Failed\<close> lists the same and
  \<open>Stats\<close> counts the same.
\<close>

theorem iteration_order_irrelevant:
  assumes "mq_reachable q" "mset jobs = mset (mq_jobs q)" "q' = q\<lparr>mq_jobs := jobs\<rparr>"
  shows "fst (mq_Reserve q' queues lease receipt now) = fst (mq_Reserve q queues lease receipt now) \<and>
     mq_view (snd (mq_Reserve q' queues lease receipt now)) = mq_view (snd (mq_Reserve q queues lease receipt now)) \<and>
     mq_Failed q' queue limit = mq_Failed q queue limit \<and>
     (\<forall>st st'. mq_Stats q queue now = Inr st \<longrightarrow> mq_Stats q' queue now = Inr st' \<longrightarrow>
        qs_Ready st' = qs_Ready st \<and> qs_Scheduled st' = qs_Scheduled st \<and>
        qs_Reserved st' = qs_Reserved st \<and> qs_Failed st' = qs_Failed st)"
proof -
  have same: "sameJobs q q'" using assms(2,3) by (simp add: sameJobs_def)
  note ok = reachable_ok[OF assms(1)]
  have "countQ P queue (mq_jobs q') = countQ P queue (mq_jobs q)" for P
    by (rule countQ_mset) (simp add: assms(2,3))
  with sameJobs_reserve[OF ok same] sameJobs_failed[OF ok same] show ?thesis
    by (auto simp: mq_Stats_def countJobs_classes split: if_splits)
qed

theorem iteration_order_irrelevant_witness:
  "rev (mq_jobs demoQueue) \<noteq> mq_jobs demoQueue \<and>
   fst (mq_Reserve (demoQueue\<lparr>mq_jobs := rev (mq_jobs demoQueue)\<rparr>) [''default''] 30 ''r1'' 110) =
     fst (mq_Reserve demoQueue [''default''] 30 ''r1'' 110)"
proof -
  have "rev (mq_jobs demoQueue) \<noteq> mq_jobs demoQueue" by code_simp
  with iteration_order_irrelevant[OF demo_reachable, of "rev (mq_jobs demoQueue)"] show ?thesis by simp
qed

lemma retry_requeues:
  assumes "map_of (mq_jobs q) (queue, jid) = Some job" "mq_RetryFailed q queue jid n1 n2 = (Inr (), q2)"
  obtains h seq where "map_of (mq_jobs q2) (queue, jid) = Some (requeue (job\<lparr>mj_heldUnique := h\<rparr>) n2 seq)"
proof (cases "mj_unique job = []")
  case True
  with assms have "map_of (mq_jobs q2) (queue, jid) =
      Some (requeue (job\<lparr>mj_heldUnique := mj_heldUnique job\<rparr>) n2 (Suc (mq_seq q)))"
    by (cases job) (auto simp: mq_RetryFailed_def failed_def putJob_def split: if_splits option.splits)
  then show thesis by (rule that)
next
  case False
  with assms have "map_of (mq_jobs q2) (queue, jid) = Some (requeue (job\<lparr>mj_heldUnique := True\<rparr>) n2 (Suc (mq_seq q)))"
    by (auto simp: mq_RetryFailed_def failed_def putJob_def Let_def split: if_splits option.splits)
  then show thesis by (rule that)
qed

text \<open>
  C39: A job a worker gave up on stays out of circulation until it is retried, and then starts over.
  \<open>Bury\<close> puts the job into \<open>FailedJob\<close>, and whatever calls follow, no \<open>Reserve\<close> delivers it unless it
  is retried or pushed anew; a \<open>RetryFailed\<close> that succeeds makes it due at once, and whatever calls
  follow (short of closing the queue) its next delivery is attempt one.
\<close>

theorem bury_then_retry:
  assumes "mq_reachable q" "mq_Bury q d f now = (Inr (), q1)"
  shows "(\<forall>t queue. deliveryKey d \<notin> dueKeys q1 t queue) \<and>
     (\<forall>cs. list_all (\<lambda>c. call_ok c \<and> \<not> revives (deliveryKey d) c) cs \<longrightarrow>
        \<not> list_ex (delivers (deliveryKey d)) (fst (mq_run cs q1))) \<and>
     (\<exists>fj. mq_FailedJob q1 (d_Queue d) (env_ID (d_Envelope d)) = Inr fj \<and>
        fj_Failure fj = stampFailure f now) \<and>
     (\<forall>n1 n2 q2. mq_RetryFailed q1 (d_Queue d) (env_ID (d_Envelope d)) n1 n2 = (Inr (), q2) \<longrightarrow>
        deliveryKey d \<in> dueKeys q2 n2 (d_Queue d) \<and> mj_attempts (jobAt q2 (deliveryKey d)) = 0 \<and>
        (\<forall>cs next. list_all call_ok cs \<longrightarrow> CClose \<notin> set cs \<longrightarrow>
           find (delivers (deliveryKey d)) (fst (mq_run cs q2)) = Some (ODelivery next) \<longrightarrow>
           d_Envelope next = (mj_env (jobAt q2 (deliveryKey d)))\<lparr>env_Attempt := 1\<rparr>))"
proof -
  obtain job where job: "leased q d = Inr job" using assms(2) by (cases "leased q d") (simp_all add: mq_Bury_err)
  have q1: "q1 = putJob (fst (releaseUnique q job)) (deliveryKey d) (buried job f now)"
    using assms(2) by (simp add: mq_Bury_eq[OF job])
  have key: "(d_Queue d, env_ID (d_Envelope d)) = deliveryKey d" by (simp add: deliveryKey_def)
  have ok1: "mq_ok q1" using mq_Bury_ok[OF reachable_ok[OF assms(1)], of d f now] assms(2) by simp
  have at: "map_of (mq_jobs q1) (deliveryKey d) = Some (buried job f now)" by (simp add: q1 putJob_def)
  have nc: "\<not> mq_closed q1" using leased_Inr[THEN iffD1, OF job] by (simp add: q1)
  have ql: "mj_queue job = d_Queue d"
    using leased_key[OF reachable_ok[OF assms(1)] job] by (simp add: jobKey_def deliveryKey_def)
  have "deliveryKey d \<notin> dueKeys q1 t queue" for t queue
    by (simp add: dueKeys_def at eligible_def available_def buried_def)
  moreover have "mq_FailedJob q1 (d_Queue d) (env_ID (d_Envelope d)) =
      Inr (failedJob (buried job f now) (stampFailure f now))"
    using nc at by (simp add: mq_FailedJob_def failed_def key buried_def stampFailure_def)
  moreover have "\<not> list_ex (delivers (deliveryKey d)) (fst (mq_run cs q1))"
    if "list_all (\<lambda>c. call_ok c \<and> \<not> revives (deliveryKey d) c) cs" for cs
  proof -
    have "setAside q1 (deliveryKey d)" by (simp add: setAside_def at buried_def)
    from run_setAside[OF ok1 this, of cs] that show ?thesis by (auto simp: list_all_iff list_ex_iff)
  qed
  moreover have "deliveryKey d \<in> dueKeys q2 n2 (d_Queue d) \<and> mj_attempts (jobAt q2 (deliveryKey d)) = 0 \<and>
      (\<forall>cs next. list_all call_ok cs \<longrightarrow> CClose \<notin> set cs \<longrightarrow>
         find (delivers (deliveryKey d)) (fst (mq_run cs q2)) = Some (ODelivery next) \<longrightarrow>
         d_Envelope next = (mj_env (jobAt q2 (deliveryKey d)))\<lparr>env_Attempt := 1\<rparr>)"
    if r: "mq_RetryFailed q1 (d_Queue d) (env_ID (d_Envelope d)) n1 n2 = (Inr (), q2)" for n1 n2 q2
  proof -
    obtain h seq where j2: "map_of (mq_jobs q2) (deliveryKey d) =
        Some (requeue ((buried job f now)\<lparr>mj_heldUnique := h\<rparr>) n2 seq)"
      using retry_requeues[OF at[folded key] r] unfolding key .
    have ok2: "mq_ok q2" using mq_RetryFailed_ok[OF ok1, of "d_Queue d" "env_ID (d_Envelope d)" n1 n2] r by simp
    have "d_Envelope next = (mj_env (jobAt q2 (deliveryKey d)))\<lparr>env_Attempt := 1\<rparr>"
      if "list_all call_ok cs" "CClose \<notin> set cs"
        "find (delivers (deliveryKey d)) (fst (mq_run cs q2)) = Some (ODelivery next)" for cs "next"
      using first_delivery[OF ok2 j2 _ _ that] by (auto simp: j2 jobAt_def requeue_def buried_def)
    with ql j2 show ?thesis
      by (simp add: dueKeys_def jobAt_def requeue_def buried_def eligible_def available_def)
  qed
  ultimately show ?thesis by (auto simp: failedJob_def)
qed

theorem bury_then_retry_witness:
  "mq_Bury demoTaken demoDelivery demoFailure 115 = (Inr (), demoBuried) \<and>
   (''default'', ''a'') \<notin> dueKeys demoBuried 500 ''default'' \<and>
   (\<exists>q2. mq_RetryFailed demoBuried ''default'' ''a'' 200 200 = (Inr (), q2) \<and>
      (''default'', ''a'') \<in> dueKeys q2 200 ''default'')"
proof -
  let ?r = "mq_Bury demoTaken demoDelivery demoFailure 115"
  have "\<not> isl (fst ?r)" by code_simp
  then have b: "?r = (Inr (), demoBuried)" using outcome_Inr[of ?r] by (simp add: demoBuried_def)
  have d: "d_Queue demoDelivery = ''default''" "env_ID (d_Envelope demoDelivery) = ''a''" by code_simp+
  let ?s = "mq_RetryFailed demoBuried ''default'' ''a'' 200 200"
  have "\<not> isl (fst ?s)" by code_simp
  then have s: "?s = (Inr (), snd ?s)" using outcome_Inr[of ?s] by simp
  from bury_then_retry[OF demoTaken_reachable b] s b show ?thesis
    unfolding d deliveryKey_def by blast
qed

end
