(* ===== verification/Jobs_Errors.thy ===== *)
theory Jobs_Errors
  imports Jobs_Types
begin

section \<open>Classified failures\<close>

text \<open>
  \<open>src/jobs/errors.go\<close> and the permanent failures of \<open>src/jobs/policy.go\<close>. A Go error is a
  \<open>goerr\<close>: the chain that \<open>errors.Is\<close> and \<open>errors.As\<close> walk, in the order they walk it. The
  text of a message is kept where the source carries a value in it, not where it only formats one.
\<close>

subsection \<open>Definitions\<close>

text \<open>The sentinels the package compares errors with.\<close>

datatype sentinel = ErrUnknownJob | ErrDecode | ErrUnsupportedVersion | ErrPanic | ErrTimeout
  | ErrUpgrade | ErrHandler | ErrInProgress | ErrInvalidJobType | ErrInvalidName | ErrDuplicateName
  | ErrNameMismatch | ErrVersionMismatch

text \<open>
  \<open>EMsg\<close> is \<open>errors.New\<close> and a \<open>fmt.Errorf\<close> without \<open>%w\<close>, \<open>ESent\<close> a sentinel, \<open>EQueue\<close>
  what a queue returned, \<open>EWrap\<close> a \<open>fmt.Errorf\<close> with \<open>%w\<close>, \<open>EJoin\<close> an \<open>errors.Join\<close>,
  \<open>EPermanent\<close> a \<open>permanentError\<close> and \<open>EJob\<close> an \<open>*Error\<close> (kind, name, version, cause).
\<close>

datatype goerr = EMsg string | ESent sentinel | EQueue queue_error | EWrap string goerr
  | EJoin goerr goerr | EPermanent goerr | EJob Kind string int "goerr option"

fun kindSentinels :: "Kind \<Rightarrow> sentinel option" where
  "kindSentinels KindUnknownJob = Some ErrUnknownJob"
| "kindSentinels KindDecode = Some ErrDecode"
| "kindSentinels KindUnsupportedVersion = Some ErrUnsupportedVersion"
| "kindSentinels KindPanic = Some ErrPanic"
| "kindSentinels KindTimeout = Some ErrTimeout"
| "kindSentinels KindUpgrade = Some ErrUpgrade"
| "kindSentinels KindHandler = Some ErrHandler"
| "kindSentinels KindNil = None"

text \<open>\<open>(*Error).Is\<close>\<close>

definition Error_Is :: "Kind \<Rightarrow> sentinel \<Rightarrow> bool" where
  "Error_Is kind target \<longleftrightarrow> kindSentinels kind = Some target"

text \<open>\<open>errors.Is\<close>: the error itself, its \<open>Is\<close> method, then what it wraps, depth first.\<close>

fun errors_Is :: "goerr \<Rightarrow> sentinel \<Rightarrow> bool" where
  "errors_Is (EMsg s) target = False"
| "errors_Is (ESent s) target = (s = target)"
| "errors_Is (EQueue e) target = False"
| "errors_Is (EWrap s e) target = errors_Is e target"
| "errors_Is (EJoin a b) target = (if errors_Is a target then True else errors_Is b target)"
| "errors_Is (EPermanent e) target = errors_Is e target"
| "errors_Is (EJob kind name version cause) target =
     (if Error_Is kind target then True
      else case cause of None \<Rightarrow> False | Some e \<Rightarrow> errors_Is e target)"

text \<open>\<open>errors.As\<close> for an \<open>*Error\<close> (its kind) and for a \<open>permanentError\<close>.\<close>

fun as_Error :: "goerr \<Rightarrow> Kind option" where
  "as_Error (EMsg s) = None"
| "as_Error (ESent s) = None"
| "as_Error (EQueue e) = None"
| "as_Error (EWrap s e) = as_Error e"
| "as_Error (EJoin a b) = (case as_Error a of Some k \<Rightarrow> Some k | None \<Rightarrow> as_Error b)"
| "as_Error (EPermanent e) = as_Error e"
| "as_Error (EJob kind name version cause) = Some kind"

fun as_permanentError :: "goerr \<Rightarrow> bool" where
  "as_permanentError (EMsg s) = False"
| "as_permanentError (ESent s) = False"
| "as_permanentError (EQueue e) = False"
| "as_permanentError (EWrap s e) = as_permanentError e"
| "as_permanentError (EJoin a b) = (if as_permanentError a then True else as_permanentError b)"
| "as_permanentError (EPermanent e) = True"
| "as_permanentError (EJob kind name version cause) =
     (case cause of None \<Rightarrow> False | Some e \<Rightarrow> as_permanentError e)"

definition Classify :: "goerr option \<Rightarrow> Kind" where
  "Classify err =
     (case err of
        None \<Rightarrow> KindNil
      | Some e \<Rightarrow> (case as_Error e of Some kind \<Rightarrow> kind | None \<Rightarrow> KindHandler))"

definition Permanent :: "goerr option \<Rightarrow> goerr option" where
  "Permanent err = (case err of None \<Rightarrow> None | Some e \<Rightarrow> Some (EPermanent e))"

definition IsPermanent :: "goerr option \<Rightarrow> bool" where
  "IsPermanent err \<longleftrightarrow>
     (case err of None \<Rightarrow> False | Some e \<Rightarrow> as_permanentError e) \<or> Classify err = KindDecode"

text \<open>\<open>errors.Is\<close> of what a queue call returned with one of the queue's sentinels.\<close>

definition Is_queue :: "queue_error \<Rightarrow> queue_error \<Rightarrow> bool" where
  "Is_queue err target \<longleftrightarrow>
     (case (err, target) of
        (ErrInvalidQueue _, ErrInvalidQueue _) \<Rightarrow> True
      | (DuplicateError _ _ _, DuplicateError _ _ _) \<Rightarrow> True
      | _ \<Rightarrow> err = target)"

subsection \<open>Lemmas\<close>

lemma Classify_simps [simp]:
  "Classify None = KindNil"
  "Classify (Some (EJob kind name version cause)) = kind"
  "Classify (Some (EWrap s e)) = Classify (Some e)"
  "Classify (Some (EPermanent e)) = Classify (Some e)"
  by (simp_all add: Classify_def)

lemma IsPermanent_job:
  "IsPermanent (Some (EJob kind name version cause)) \<longleftrightarrow>
     kind = KindDecode \<or> (\<exists>e. cause = Some e \<and> as_permanentError e)"
  by (auto simp: IsPermanent_def split: option.splits)

end
