(* ===== verification/Jobs_Policy.thy ===== *)
theory Jobs_Policy
  imports Jobs_Errors
begin

section \<open>Execution policies\<close>

text \<open>
  \<open>src/jobs/policy.go\<close>: a job's options, how they are validated and filled in, and the backoff
  functions. A \<open>time.Duration\<close> is 64 bits wide, and the doubling of \<open>Exponential\<close> is modelled
  with its wrap-around (\<open>wrap64\<close>); the theorems show that it never wraps. \<open>rand.Int64N\<close> is the
  argument \<open>rnd\<close> of \<open>Jittered\<close>: the number it drew.
\<close>

subsection \<open>Definitions\<close>

type_synonym Backoff = "int \<Rightarrow> duration"

record Options =
  o_MaxAttempts :: int
  o_Timeout :: duration
  o_Backoff :: "Backoff option"

definition NoTimeout :: duration where "NoTimeout = - 1"
definition DefaultMaxAttempts :: int where "DefaultMaxAttempts = 5"
definition defaultBackoffBase :: duration where "defaultBackoffBase = 10 * Second"
definition defaultBackoffMax :: duration where "defaultBackoffMax = 10 * Minute"

text \<open>The loop of \<open>Exponential\<close>, with the number of iterations the counter still allows.\<close>

fun exponentialLoop :: "nat \<Rightarrow> duration \<Rightarrow> duration \<Rightarrow> duration" where
  "exponentialLoop 0 wait maxd = wait"
| "exponentialLoop (Suc n) wait maxd =
     (if wait < maxd
      then if quot maxd 2 < wait then maxd
           else exponentialLoop n (wrap64 (wait * 2)) maxd
      else wait)"

definition Exponential :: "duration \<Rightarrow> duration \<Rightarrow> Backoff" where
  "Exponential base maxd =
     (\<lambda>attempt. let wait = exponentialLoop (nat (attempt - 1)) base maxd
                in if maxd < wait then maxd else wait)"

definition DefaultBackoff :: Backoff where
  "DefaultBackoff = Exponential defaultBackoffBase defaultBackoffMax"

definition Constant :: "duration \<Rightarrow> Backoff" where
  "Constant d = (\<lambda>attempt. d)"

text \<open>\<open>rnd n\<close> is \<open>rand.Int64N(n)\<close>.\<close>

definition Jittered :: "(int \<Rightarrow> int) \<Rightarrow> Backoff \<Rightarrow> Backoff" where
  "Jittered rnd b =
     (\<lambda>attempt. let d = b attempt in
        if d \<le> 1 then d
        else let half = quot d 2 in wrap64 (half + rnd (wrap64 (wrap64 (d - half) + 1))))"

datatype options_problem = NegativeMaxAttempts | NegativeTimeout

definition options_validate :: "Options \<Rightarrow> options_problem option" where
  "options_validate opts =
     (if o_MaxAttempts opts < 0 then Some NegativeMaxAttempts
      else if o_Timeout opts < 0 \<and> o_Timeout opts \<noteq> NoTimeout then Some NegativeTimeout
      else None)"

definition options_resolve :: "Options \<Rightarrow> Options \<Rightarrow> Options" where
  "options_resolve opts defaults =
     (let o1 = (if o_MaxAttempts opts = 0 then opts\<lparr>o_MaxAttempts := o_MaxAttempts defaults\<rparr> else opts);
          o2 = (if o_MaxAttempts o1 = 0 then o1\<lparr>o_MaxAttempts := DefaultMaxAttempts\<rparr> else o1);
          o3 = (if o_Timeout o2 = 0 then o2\<lparr>o_Timeout := o_Timeout defaults\<rparr> else o2);
          o4 = (if o_Timeout o3 = NoTimeout then o3\<lparr>o_Timeout := 0\<rparr> else o3);
          o5 = (if o_Backoff o4 = None then o4\<lparr>o_Backoff := o_Backoff defaults\<rparr> else o4);
          o6 = (if o_Backoff o5 = None then o5\<lparr>o_Backoff := Some DefaultBackoff\<rparr> else o5)
      in o6)"

definition zeroOptions :: Options where
  "zeroOptions = \<lparr>o_MaxAttempts = 0, o_Timeout = 0, o_Backoff = None\<rparr>"

subsection \<open>Exponential backoff\<close>

lemma exponentialLoop_eq:
  assumes "0 \<le> wait" "0 \<le> maxd" "in_int64 maxd"
  shows "min maxd (exponentialLoop n wait maxd) = min maxd (wait * 2 ^ n)"
  using assms
proof (induction n wait maxd rule: exponentialLoop.induct)
  case (2 n wait maxd)
  show ?case
  proof (cases "wait < maxd")
    case True
    show ?thesis
    proof (cases "quot maxd 2 < wait")
      case big: True
      then have "maxd < wait * 2" using 2(3) by (simp add: quot_nonneg)
      also have "wait * 2 \<le> wait * 2 ^ Suc n" using 2(2) by (intro mult_left_mono) simp_all
      finally show ?thesis using True big by simp
    next
      case False
      then have "wait * 2 \<le> maxd" using 2(3) by (simp add: quot_nonneg)
      then have "in_int64 (wait * 2)" using 2(2,4) by (simp add: int64_defs)
      with True False 2 show ?thesis by (simp add: mult.assoc)
    qed
  next
    case False
    have "(1 :: int) \<le> 2 ^ Suc n" by (rule one_le_power) simp
    then have "wait * 1 \<le> wait * 2 ^ Suc n" using 2(2) by (rule mult_left_mono)
    with False show ?thesis by simp
  qed
qed simp

lemma Exponential_eq:
  assumes "0 \<le> base" "0 \<le> maxd" "in_int64 maxd"
  shows "Exponential base maxd attempt = min maxd (base * 2 ^ nat (attempt - 1))"
  using exponentialLoop_eq[OF assms, of "nat (attempt - 1)"]
  by (auto simp: Exponential_def Let_def)

text \<open>
  \<open>Exponential(base, max)\<close> waits exactly \<open>base\<close> doubled once per earlier failure, capped at
  \<open>max\<close>: for every attempt, and for every \<open>max\<close> up to the largest duration, since the doubling
  never leaves the 64-bit range.
\<close>

theorem exponential_exact:
  assumes "0 \<le> base" "0 \<le> maxd" "in_int64 maxd"
  shows "Exponential base maxd attempt = min maxd (base * 2 ^ nat (attempt - 1))"
  by (rule Exponential_eq[OF assms])

theorem exponential_exact_witness:
  "Exponential (10 * Second) MaxInt64 3 = min MaxInt64 (10 * Second * 2 ^ 2) \<and>
   Exponential (10 * Second) MaxInt64 100 = MaxInt64"
  using exponential_exact[of "10 * Second" MaxInt64 3] exponential_exact[of "10 * Second" MaxInt64 100]
  by (simp add: int64_defs)

subsection \<open>Jitter\<close>

lemma jitter_bounds:
  assumes "\<And>n. 0 < n \<Longrightarrow> 0 \<le> rnd n \<and> rnd n < n" "0 \<le> b attempt" "in_int64 (b attempt)"
  shows "b attempt div 2 \<le> Jittered rnd b attempt \<and> Jittered rnd b attempt \<le> b attempt"
proof (cases "b attempt \<le> 1")
  case True
  then have "b attempt = 0 \<or> b attempt = 1" using assms(2) by linarith
  then show ?thesis by (auto simp: Jittered_def Let_def)
next
  case False
  define d where "d = b attempt"
  define half where "half = d div 2"
  have d: "1 < d" "in_int64 d" "quot d 2 = half"
    using False assms(2,3) by (simp_all add: d_def half_def quot_nonneg)
  have h: "0 \<le> half" "half \<le> d" "0 < d - half" "d - half + 1 \<le> d" using d(1) by (auto simp: half_def)
  have w: "wrap64 (d - half) = d - half" "wrap64 (d - half + 1) = d - half + 1"
    using d(2) h by (auto intro!: wrap64_id simp: int64_defs)
  define r where "r = rnd (d - half + 1)"
  have r: "0 \<le> r" "r \<le> d - half" using assms(1)[of "d - half + 1"] h by (auto simp: r_def)
  have "in_int64 (half + r)" using d(2) h r by (simp add: int64_defs)
  then have "Jittered rnd b attempt = half + r"
    using d(1,3) w False by (simp add: Jittered_def Let_def d_def[symmetric] r_def)
  with r h show ?thesis by (simp add: d_def half_def)
qed

text \<open>
  \<open>Jittered\<close> keeps a delay between half of it and all of it, whatever number the random
  source draws below its bound, and the arithmetic stays in range up to the largest duration.
\<close>

theorem jittered_between:
  assumes "\<forall>n. 0 < n \<longrightarrow> 0 \<le> rnd n \<and> rnd n < n" "0 \<le> b attempt" "in_int64 (b attempt)"
  shows "b attempt div 2 \<le> Jittered rnd b attempt \<and> Jittered rnd b attempt \<le> b attempt"
  using jitter_bounds[of rnd b attempt] assms by blast

theorem jittered_between_witness:
  "let d = Jittered (\<lambda>n. n - 1) (Constant MaxInt64) 1 in MaxInt64 div 2 \<le> d \<and> d \<le> MaxInt64"
  using jittered_between[of "\<lambda>n. n - 1" "Constant MaxInt64" 1] by (simp add: Constant_def int64_defs)

subsection \<open>Filling in options\<close>

lemma resolve_fields:
  "o_MaxAttempts (options_resolve opts defaults) =
     (if o_MaxAttempts opts \<noteq> 0 then o_MaxAttempts opts
      else if o_MaxAttempts defaults \<noteq> 0 then o_MaxAttempts defaults else DefaultMaxAttempts)"
  "o_Timeout (options_resolve opts defaults) =
     (let t = (if o_Timeout opts \<noteq> 0 then o_Timeout opts else o_Timeout defaults)
      in if t = NoTimeout then 0 else t)"
  "o_Backoff (options_resolve opts defaults) =
     (if o_Backoff opts \<noteq> None then o_Backoff opts
      else if o_Backoff defaults \<noteq> None then o_Backoff defaults else Some DefaultBackoff)"
  by (auto simp: options_resolve_def Let_def)

lemma Options_eqI:
  "o_MaxAttempts a = o_MaxAttempts b \<Longrightarrow> o_Timeout a = o_Timeout b \<Longrightarrow> o_Backoff a = o_Backoff b \<Longrightarrow>
   a = (b :: Options)"
  by simp

text \<open>
  A registration's policy is complete. Resolving valid options against valid defaults gives a
  positive \<open>MaxAttempts\<close>, a timeout that is either positive or zero for none, and a backoff; a
  field the job set wins over the default, and resolving again changes nothing.
\<close>

theorem resolve_complete:
  assumes "options_validate opts = None" "options_validate defaults = None"
  shows "let r = options_resolve opts defaults in
     1 \<le> o_MaxAttempts r \<and> 0 \<le> o_Timeout r \<and> o_Backoff r \<noteq> None \<and> options_validate r = None \<and>
     (o_MaxAttempts opts \<noteq> 0 \<longrightarrow> o_MaxAttempts r = o_MaxAttempts opts) \<and>
     (0 < o_Timeout opts \<longrightarrow> o_Timeout r = o_Timeout opts) \<and>
     (o_Timeout opts = NoTimeout \<longrightarrow> o_Timeout r = 0) \<and>
     (o_Backoff opts \<noteq> None \<longrightarrow> o_Backoff r = o_Backoff opts) \<and>
     options_resolve r zeroOptions = r"
proof -
  define r where "r = options_resolve opts defaults"
  note f = resolve_fields[of opts defaults, folded r_def]
  have v: "0 \<le> o_MaxAttempts opts" "0 \<le> o_MaxAttempts defaults"
    "0 \<le> o_Timeout opts \<or> o_Timeout opts = NoTimeout" "0 \<le> o_Timeout defaults \<or> o_Timeout defaults = NoTimeout"
    using assms by (auto simp: options_validate_def split: if_splits)
  have r: "1 \<le> o_MaxAttempts r" "0 \<le> o_Timeout r" "o_Backoff r \<noteq> None"
    using v by (auto simp: f Let_def DefaultMaxAttempts_def NoTimeout_def)
  moreover have "options_resolve r zeroOptions = r"
    using r by (intro Options_eqI) (simp_all add: resolve_fields Let_def zeroOptions_def NoTimeout_def)
  ultimately show ?thesis
    unfolding Let_def r_def[symmetric] by (auto simp: options_validate_def f Let_def NoTimeout_def)
qed

theorem resolve_complete_witness:
  "let r = options_resolve \<lparr>o_MaxAttempts = 0, o_Timeout = NoTimeout, o_Backoff = None\<rparr>
             \<lparr>o_MaxAttempts = 3, o_Timeout = Minute, o_Backoff = Some (Constant Second)\<rparr> in
     1 \<le> o_MaxAttempts r \<and> o_Timeout r = 0 \<and> o_Backoff r \<noteq> None"
  using resolve_complete[of "\<lparr>o_MaxAttempts = 0, o_Timeout = NoTimeout, o_Backoff = None\<rparr>"
      "\<lparr>o_MaxAttempts = 3, o_Timeout = Minute, o_Backoff = Some (Constant Second)\<rparr>"]
  by (simp add: options_validate_def NoTimeout_def Let_def)

end
