(* ===== verification/Jobs_Registry.thy ===== *)
theory Jobs_Registry
  imports Jobs_Policy
begin

section \<open>The registry of jobs\<close>

text \<open>
  \<open>src/jobs/registry.go\<close> (and the \<open>Info\<close> and \<open>Propagator\<close> of \<open>src/jobs/context.go\<close>): binding
  job types to handlers, encoding a job as an envelope and running an envelope.

  Application code is what the registry calls and cannot see into: handlers, upgrade steps, the
  JSON codecs of a job's fields, propagators. Each is a function argument here whose result is an
  \<open>appCall\<close>, a value or a panic, so that the recovery of \<open>Run\<close> is part of the model. What
  reflection reports of a job type is the record \<open>jobType\<close>, and of a value the record
  \<open>jobValue\<close>. The type variable \<open>'c\<close> is the context the application propagates. Spans
  (\<open>otel.go\<close>) are observed, not acted on, and left out.
\<close>

subsection \<open>Application code\<close>

datatype 'a appCall = Ret 'a | Panics string

type_synonym metadata = "(string \<times> string) list"

type_synonym Upgrade = "string \<Rightarrow> (goerr + string) appCall"

record Info =
  info_ID :: string
  info_Name :: string
  info_Version :: int
  info_QueuedVersion :: int
  info_Attempt :: int
  info_MaxAttempts :: int
  info_EnqueuedAt :: gotime

record 'c Propagator =
  pr_Inject :: "'c \<Rightarrow> metadata \<Rightarrow> metadata"
  pr_Extract :: "'c \<Rightarrow> metadata \<Rightarrow> 'c appCall"

text \<open>
  Calling a handler: the error it returned, and whether \<open>errJobTimeout\<close>, the cause a job's deadline
  sets, had canceled its context by then (\<open>errors.Is(context.Cause(ctx), errJobTimeout)\<close>).
\<close>

type_synonym 'c handlerCall = "'c \<Rightarrow> Info \<Rightarrow> (goerr option \<times> bool) appCall"

record 'c registration =
  reg_name :: string
  reg_version :: int
  reg_goType :: string
  reg_upgrades :: "(int \<times> Upgrade) list"
  reg_options :: Options
  reg_decode :: "string \<Rightarrow> (goerr + 'c handlerCall) appCall"

record 'c Registry =
  rg_byName :: "(string \<times> 'c registration) list"
  rg_byType :: "(string \<times> 'c registration) list"
  rg_propagators :: "'c Propagator list"
  rg_defaults :: Options

definition NewRegistry :: "'c Propagator list \<Rightarrow> Options \<Rightarrow> 'c Registry" where
  "NewRegistry propagators defaults =
     \<lparr>rg_byName = [], rg_byType = [], rg_propagators = propagators, rg_defaults = defaults\<rparr>"

subsection \<open>Register\<close>

datatype RegisterOption = UpgradeFrom int "Upgrade option" | WithOptions Options

record registerConfig =
  rc_upgrades :: "(int \<times> Upgrade option) list"
  rc_duplicates :: "int list"
  rc_options :: "Options option"

definition applyRegisterOption :: "RegisterOption \<Rightarrow> registerConfig \<Rightarrow> registerConfig" where
  "applyRegisterOption opt c =
     (case opt of
        UpgradeFrom from fn \<Rightarrow>
          let c' = (case map_of (rc_upgrades c) from of
                      None \<Rightarrow> c
                    | Some _ \<Rightarrow> c\<lparr>rc_duplicates := rc_duplicates c @ [from]\<rparr>)
          in c'\<lparr>rc_upgrades := AList.update from fn (rc_upgrades c')\<rparr>
      | WithOptions opts \<Rightarrow> c\<lparr>rc_options := Some opts\<rparr>)"

definition registerConfigOf :: "RegisterOption list \<Rightarrow> registerConfig" where
  "registerConfigOf opts =
     fold applyRegisterOption opts \<lparr>rc_upgrades = [], rc_duplicates = [], rc_options = None\<rparr>"

definition givenOptions :: "registerConfig \<Rightarrow> Options" where
  "givenOptions cfg = (case rc_options cfg of Some opts \<Rightarrow> opts | None \<Rightarrow> zeroOptions)"

text \<open>What reflection and the zero value tell \<open>Register\<close> about the type \<open>T\<close>.\<close>

record 'j jobType =
  jt_goType :: string
  jt_isStruct :: bool
  jt_zeroName :: string
  jt_customCodec :: bool
  jt_zeroMarshals :: bool
  jt_versionOnPointer :: bool
  jt_zeroVersion :: "int option"
  jt_unmarshal :: "string \<Rightarrow> (goerr + 'j) appCall"

definition jobVersion :: "int option \<Rightarrow> int" where
  "jobVersion versioned = (case versioned of Some v \<Rightarrow> v | None \<Rightarrow> 1)"

definition badUpgrade :: "int \<Rightarrow> int \<times> Upgrade option \<Rightarrow> bool" where
  "badUpgrade version u \<longleftrightarrow> fst u < 1 \<or> version \<le> fst u \<or> snd u = None"

definition regErr :: "sentinel \<Rightarrow> string \<Rightarrow> goerr" where
  "regErr s what = EWrap what (ESent s)"

definition newRegistration ::
  "'j jobType \<Rightarrow> ('j \<Rightarrow> 'c handlerCall) \<Rightarrow> registerConfig \<Rightarrow> Options \<Rightarrow> 'c registration" where
  "newRegistration jt handler cfg resolved =
     \<lparr>reg_name = jt_zeroName jt, reg_version = jobVersion (jt_zeroVersion jt),
      reg_goType = jt_goType jt,
      reg_upgrades = map (\<lambda>(from, fn). (from, the fn)) (rc_upgrades cfg),
      reg_options = resolved,
      reg_decode = (\<lambda>payload.
        case jt_unmarshal jt payload of
          Panics p \<Rightarrow> Panics p
        | Ret (Inl err) \<Rightarrow> Ret (Inl err)
        | Ret (Inr job) \<Rightarrow> Ret (Inr (handler job)))\<rparr>"

definition Register ::
  "'c Registry \<Rightarrow> 'j jobType \<Rightarrow> ('j \<Rightarrow> 'c handlerCall) option \<Rightarrow> RegisterOption list
   \<Rightarrow> (goerr, unit, 'c Registry) outcome" where
  "Register r jt handler opts =
     (let goType = jt_goType jt; name = jt_zeroName jt; version = jobVersion (jt_zeroVersion jt);
          cfg = registerConfigOf opts;
          resolved = options_resolve (givenOptions cfg) (rg_defaults r)
      in if \<not> jt_isStruct jt then (Inl (regErr ErrInvalidJobType goType), r)
         else (case handler of
           None \<Rightarrow> (Inl (regErr ErrInvalidJobType goType), r)
         | Some h \<Rightarrow>
             if \<not> ValidName name then (Inl (regErr ErrInvalidName name), r)
             else if jt_customCodec jt then (Inl (regErr ErrInvalidJobType goType), r)
             else if \<not> jt_zeroMarshals jt then (Inl (regErr ErrInvalidJobType goType), r)
             else if jt_versionOnPointer jt then (Inl (regErr ErrInvalidJobType goType), r)
             else if version < 1 then (Inl (regErr ErrInvalidJobType goType), r)
             else if rc_duplicates cfg \<noteq> [] then (Inl (regErr ErrInvalidJobType goType), r)
             else if (case rc_options cfg of Some opts \<Rightarrow> options_validate opts \<noteq> None | None \<Rightarrow> False)
             then (Inl (regErr ErrInvalidJobType goType), r)
             else if list_ex (badUpgrade version) (rc_upgrades cfg)
             then (Inl (regErr ErrInvalidJobType goType), r)
             else if options_validate resolved \<noteq> None then (Inl (regErr ErrInvalidJobType goType), r)
             else (case map_of (rg_byName r) name of
               Some prev \<Rightarrow> (Inl (regErr ErrDuplicateName name), r)
             | None \<Rightarrow>
                 let reg = newRegistration jt h cfg resolved
                 in (Inr (), r\<lparr>rg_byName := AList.update name reg (rg_byName r),
                               rg_byType := AList.update goType reg (rg_byType r)\<rparr>))))"

subsection \<open>Reading the registry\<close>

definition rg_Options :: "'c Registry \<Rightarrow> string \<Rightarrow> Options" where
  "rg_Options r name =
     (case map_of (rg_byName r) name of
        Some reg \<Rightarrow> reg_options reg
      | None \<Rightarrow> options_resolve zeroOptions (rg_defaults r))"

definition rg_Has :: "'c Registry \<Rightarrow> string \<Rightarrow> bool" where
  "rg_Has r name = (case map_of (rg_byName r) name of Some _ \<Rightarrow> True | None \<Rightarrow> False)"

definition rg_Names :: "'c Registry \<Rightarrow> string list" where
  "rg_Names r = sort (map fst (rg_byName r))"

subsection \<open>Encode\<close>

text \<open>
  A job value: the type it is registered under (its element type when it is a pointer), whether it
  is a nil pointer, its name, version and JSON. \<open>None\<close> is the nil interface.
\<close>

record jobValue =
  jb_goType :: string
  jb_nilPointer :: bool
  jb_name :: string
  jb_version :: "int option"
  jb_payload :: "goerr + string"

definition rg_Encode ::
  "'c Registry \<Rightarrow> 'c \<Rightarrow> jobValue option \<Rightarrow> string \<Rightarrow> gotime \<Rightarrow> goerr + Envelope" where
  "rg_Encode r ctx job newID now =
     (case job of
        None \<Rightarrow> Inl (regErr ErrInvalidJobType ''nil job'')
      | Some j \<Rightarrow>
          if jb_nilPointer j then Inl (regErr ErrInvalidJobType (jb_goType j))
          else (case map_of (rg_byType r) (jb_goType j) of
            None \<Rightarrow> Inl (EJob KindUnknownJob (jb_name j) 0 (Some (EMsg (jb_goType j))))
          | Some reg \<Rightarrow>
              if jb_name j \<noteq> reg_name reg then Inl (regErr ErrNameMismatch (jb_goType j))
              else if jobVersion (jb_version j) \<noteq> reg_version reg
              then Inl (regErr ErrVersionMismatch (jb_goType j))
              else (case jb_payload j of
                Inl err \<Rightarrow> Inl (EWrap (jb_name j) err)
              | Inr payload \<Rightarrow>
                  Inr \<lparr>env_ID = newID, env_Name = reg_name reg, env_Version = reg_version reg,
                       env_Payload = payload,
                       env_Metadata = fold (\<lambda>p md. pr_Inject p ctx md) (rg_propagators r) [],
                       env_EnqueuedAt = now, env_Attempt = 0\<rparr>)))"

subsection \<open>Run\<close>

text \<open>
  \<open>bytes.TrimSpace\<close>: leading and trailing runes that \<open>unicode.IsSpace\<close> accepts, given by
  their UTF-8 encodings.
\<close>

definition spaceRunes :: "string list" where
  "spaceRunes =
     [[CHR 0x09], [CHR 0x0A], [CHR 0x0B], [CHR 0x0C], [CHR 0x0D], [CHR 0x20],
      [CHR 0xC2, CHR 0x85], [CHR 0xC2, CHR 0xA0], [CHR 0xE1, CHR 0x9A, CHR 0x80],
      [CHR 0xE2, CHR 0x80, CHR 0x80], [CHR 0xE2, CHR 0x80, CHR 0x81], [CHR 0xE2, CHR 0x80, CHR 0x82],
      [CHR 0xE2, CHR 0x80, CHR 0x83], [CHR 0xE2, CHR 0x80, CHR 0x84], [CHR 0xE2, CHR 0x80, CHR 0x85],
      [CHR 0xE2, CHR 0x80, CHR 0x86], [CHR 0xE2, CHR 0x80, CHR 0x87], [CHR 0xE2, CHR 0x80, CHR 0x88],
      [CHR 0xE2, CHR 0x80, CHR 0x89], [CHR 0xE2, CHR 0x80, CHR 0x8A], [CHR 0xE2, CHR 0x80, CHR 0xA8],
      [CHR 0xE2, CHR 0x80, CHR 0xA9], [CHR 0xE2, CHR 0x80, CHR 0xAF], [CHR 0xE2, CHR 0x81, CHR 0x9F],
      [CHR 0xE3, CHR 0x80, CHR 0x80]]"

text \<open>Dropping leading occurrences of some non-empty strings.\<close>

function trimStart :: "string list \<Rightarrow> string \<Rightarrow> string" where
  "trimStart runes s =
     (case find (\<lambda>p. p \<noteq> [] \<and> prefix p s) runes of
        None \<Rightarrow> s
      | Some p \<Rightarrow> trimStart runes (drop (length p) s))"
  by pat_completeness auto
termination
proof (relation "measure (\<lambda>(runes, s). length s)")
  fix runes and s p :: string
  assume "find (\<lambda>p. p \<noteq> [] \<and> prefix p s) runes = Some p"
  then have "p \<noteq> []" "prefix p s" by (auto simp: find_Some_iff)
  then have "0 < length p" "length p \<le> length s" by (auto simp: prefix_length_le)
  then have "length s - length p < length s" by linarith
  then show "((runes, drop (length p) s), (runes, s)) \<in> measure (\<lambda>(runes, s). length s)" by simp
qed simp

declare trimStart.simps [simp del]

definition TrimSpace :: "string \<Rightarrow> string" where
  "TrimSpace s = rev (trimStart (map rev spaceRunes) (rev (trimStart spaceRunes s)))"

definition emptyPayload :: "string \<Rightarrow> bool" where
  "emptyPayload payload =
     (let trimmed = TrimSpace payload in length trimmed = 0 \<or> trimmed = ''null'')"

text \<open>
  The loop of \<open>upgrade\<close>: \<open>n\<close> steps are left, \<open>v\<close> is the version the payload is at.
\<close>

fun upgradeLoop ::
  "'c registration \<Rightarrow> int \<Rightarrow> nat \<Rightarrow> int \<Rightarrow> string \<Rightarrow> (goerr + string) appCall" where
  "upgradeLoop reg version 0 v payload = Ret (Inr payload)"
| "upgradeLoop reg version (Suc n) v payload =
     (case map_of (reg_upgrades reg) v of
        None \<Rightarrow> Ret (Inl (EJob KindUnsupportedVersion (reg_name reg) version (Some (EMsg ''no UpgradeFrom step''))))
      | Some step \<Rightarrow>
          (case step payload of
             Panics p \<Rightarrow> Panics p
           | Ret (Inl err) \<Rightarrow> Ret (Inl (EJob KindUpgrade (reg_name reg) v (Some err)))
           | Ret (Inr next) \<Rightarrow>
               if emptyPayload next
               then Ret (Inl (EJob KindDecode (reg_name reg) version (Some (EMsg ''empty payload from an upgrade''))))
               else upgradeLoop reg version n (v + 1) next))"

definition reg_upgrade :: "'c registration \<Rightarrow> Envelope \<Rightarrow> (goerr + string) appCall" where
  "reg_upgrade reg env =
     (let version = env_Version env in
      if version < 1
      then Ret (Inl (EJob KindDecode (reg_name reg) (env_Version env) (Some (EMsg ''invalid payload version''))))
      else if reg_version reg < version
      then Ret (Inl (EJob KindUnsupportedVersion (reg_name reg) version (Some (EMsg ''a newer producer queued it''))))
      else if emptyPayload (env_Payload env)
      then Ret (Inl (EJob KindDecode (reg_name reg) version (Some (EMsg ''empty or null payload''))))
      else upgradeLoop reg version (nat (reg_version reg - version)) version (env_Payload env))"

fun extractAll :: "'c Propagator list \<Rightarrow> 'c \<Rightarrow> metadata \<Rightarrow> 'c appCall" where
  "extractAll [] ctx md = Ret ctx"
| "extractAll (p # ps) ctx md =
     (case pr_Extract p ctx md of Panics e \<Rightarrow> Panics e | Ret ctx' \<Rightarrow> extractAll ps ctx' md)"

definition runInfo :: "'c registration \<Rightarrow> Envelope \<Rightarrow> Info" where
  "runInfo reg env =
     \<lparr>info_ID = env_ID env, info_Name = reg_name reg, info_Version = reg_version reg,
      info_QueuedVersion = env_Version env, info_Attempt = env_Attempt env,
      info_MaxAttempts = o_MaxAttempts (reg_options reg), info_EnqueuedAt = env_EnqueuedAt env\<rparr>"

text \<open>What the deferred recovery guards: everything after the lookup.\<close>

definition runBody :: "'c Registry \<Rightarrow> 'c registration \<Rightarrow> 'c \<Rightarrow> Envelope \<Rightarrow> goerr option appCall" where
  "runBody r reg ctx env =
     (case extractAll (rg_propagators r) ctx (env_Metadata env) of
        Panics p \<Rightarrow> Panics p
      | Ret ctx' \<Rightarrow>
          (case reg_upgrade reg env of
             Panics p \<Rightarrow> Panics p
           | Ret (Inl err) \<Rightarrow> Ret (Some err)
           | Ret (Inr payload) \<Rightarrow>
               (case reg_decode reg payload of
                  Panics p \<Rightarrow> Panics p
                | Ret (Inl err) \<Rightarrow> Ret (Some (EJob KindDecode (reg_name reg) (reg_version reg) (Some err)))
                | Ret (Inr call) \<Rightarrow>
                    (case call ctx' (runInfo reg env) of
                       Panics p \<Rightarrow> Panics p
                     | Ret (None, timedOut) \<Rightarrow> Ret None
                     | Ret (Some err, timedOut) \<Rightarrow>
                         if timedOut
                         then Ret (Some (EJob KindTimeout (reg_name reg) (reg_version reg)
                                (Some (EWrap ''after the timeout'' err))))
                         else Ret (Some (EJob KindHandler (reg_name reg) (reg_version reg) (Some err)))))))"

definition rg_Run :: "'c Registry \<Rightarrow> 'c \<Rightarrow> Envelope \<Rightarrow> goerr option" where
  "rg_Run r ctx env =
     (case envelope_validate env of
        Some NoJobName \<Rightarrow> Some (EJob KindDecode '''' 0 (Some (EMsg ''envelope has no job name'')))
      | Some NoJobID \<Rightarrow> Some (EJob KindDecode (env_Name env) 0 (Some (EMsg ''envelope has no job ID'')))
      | None \<Rightarrow>
          (case map_of (rg_byName r) (env_Name env) of
             None \<Rightarrow> Some (EJob KindUnknownJob (env_Name env) (env_Version env) None)
           | Some reg \<Rightarrow>
               (case runBody r reg ctx env of
                  Panics p \<Rightarrow> Some (EJob KindPanic (reg_name reg) (reg_version reg) (Some (EMsg p)))
                | Ret err \<Rightarrow> err)))"

subsection \<open>The invariant of a registry\<close>

text \<open>
  What \<open>Register\<close> guarantees of a registry with valid defaults: every registration is stored under
  its own valid name, its version is positive, its upgrade steps lie below it, its policy is
  complete, and what is found by type is found by name too.
\<close>

definition registration_ok :: "'c registration \<Rightarrow> bool" where
  "registration_ok reg \<longleftrightarrow> ValidName (reg_name reg) \<and> 1 \<le> reg_version reg \<and>
     1 \<le> o_MaxAttempts (reg_options reg) \<and> 0 \<le> o_Timeout (reg_options reg) \<and>
     o_Backoff (reg_options reg) \<noteq> None \<and>
     (\<forall>v step. map_of (reg_upgrades reg) v = Some step \<longrightarrow> 1 \<le> v \<and> v < reg_version reg)"

definition registry_ok :: "'c Registry \<Rightarrow> bool" where
  "registry_ok r \<longleftrightarrow> options_validate (rg_defaults r) = None \<and>
     (\<forall>name reg. map_of (rg_byName r) name = Some reg \<longrightarrow> reg_name reg = name \<and> registration_ok reg) \<and>
     (\<forall>ty reg. map_of (rg_byType r) ty = Some reg \<longrightarrow>
        reg_goType reg = ty \<and> map_of (rg_byName r) (reg_name reg) = Some reg)"

lemma NewRegistry_ok: "options_validate defaults = None \<Longrightarrow> registry_ok (NewRegistry propagators defaults)"
  by (simp add: registry_ok_def NewRegistry_def)

lemma resolve_valid:
  assumes "options_validate opts = None" "options_validate defaults = None"
  shows "1 \<le> o_MaxAttempts (options_resolve opts defaults)" "0 \<le> o_Timeout (options_resolve opts defaults)"
    "o_Backoff (options_resolve opts defaults) \<noteq> None"
  using assms by (auto simp: resolve_fields options_validate_def Let_def DefaultMaxAttempts_def NoTimeout_def
      split: if_splits)

lemma map_of_the: "map_of (map (\<lambda>(k, v). (k, the v)) al) k = map_option the (map_of al k)"
  by (induction al) auto

text \<open>What a successful \<open>Register\<close> checked and did.\<close>

lemma givenOptions_valid:
  "\<not> (case rc_options cfg of Some opts \<Rightarrow> options_validate opts \<noteq> None | None \<Rightarrow> False) \<Longrightarrow>
   options_validate (givenOptions cfg) = None"
  by (cases "rc_options cfg") (simp_all add: givenOptions_def options_validate_def zeroOptions_def)

lemma Register_Inr:
  assumes "Register r jt handler opts = (Inr (), r')"
  defines "cfg \<equiv> registerConfigOf opts"
  obtains h where "handler = Some h" "ValidName (jt_zeroName jt)"
    "1 \<le> jobVersion (jt_zeroVersion jt)" "\<not> list_ex (badUpgrade (jobVersion (jt_zeroVersion jt))) (rc_upgrades cfg)"
    "options_validate (givenOptions cfg) = None" "map_of (rg_byName r) (jt_zeroName jt) = None"
    "r' = r\<lparr>rg_byName := AList.update (jt_zeroName jt)
              (newRegistration jt h cfg (options_resolve (givenOptions cfg) (rg_defaults r))) (rg_byName r),
            rg_byType := AList.update (jt_goType jt)
              (newRegistration jt h cfg (options_resolve (givenOptions cfg) (rg_defaults r))) (rg_byType r)\<rparr>"
proof (cases handler)
  case None
  with assms(1) show thesis by (simp add: Register_def Let_def split: if_splits)
next
  case (Some h)
  show thesis
  proof (rule that[OF Some])
    show "ValidName (jt_zeroName jt)" "1 \<le> jobVersion (jt_zeroVersion jt)"
      "\<not> list_ex (badUpgrade (jobVersion (jt_zeroVersion jt))) (rc_upgrades cfg)"
      using assms(1) unfolding Register_def Let_def cfg_def[symmetric] by (simp_all add: Some split: if_splits)
    show "options_validate (givenOptions cfg) = None"
      by (rule givenOptions_valid)
        (use assms(1) in \<open>simp add: Register_def Let_def cfg_def[symmetric] Some split: if_splits\<close>)
    show "map_of (rg_byName r) (jt_zeroName jt) = None"
      using assms(1) unfolding Register_def Let_def by (cases "map_of (rg_byName r) (jt_zeroName jt)") (simp_all add: Some split: if_splits)
    then show "r' = r\<lparr>rg_byName := AList.update (jt_zeroName jt)
              (newRegistration jt h cfg (options_resolve (givenOptions cfg) (rg_defaults r))) (rg_byName r),
            rg_byType := AList.update (jt_goType jt)
              (newRegistration jt h cfg (options_resolve (givenOptions cfg) (rg_defaults r))) (rg_byType r)\<rparr>"
      using assms(1) unfolding Register_def Let_def cfg_def[symmetric] by (simp add: Some split: if_splits)
  qed
qed

lemma newRegistration_ok:
  assumes "ValidName (jt_zeroName jt)" "1 \<le> jobVersion (jt_zeroVersion jt)"
    and "\<not> list_ex (badUpgrade (jobVersion (jt_zeroVersion jt))) (rc_upgrades cfg)"
    and "options_validate opts = None" "options_validate defaults = None"
  shows "registration_ok (newRegistration jt h cfg (options_resolve opts defaults))"
proof -
  have "1 \<le> v \<and> v < jobVersion (jt_zeroVersion jt)"
    if "map_of (map (\<lambda>(from, fn). (from, the fn)) (rc_upgrades cfg)) v = Some step" for v step
    using that assms(3) unfolding map_of_the
    by (auto simp: list_ex_iff badUpgrade_def dest!: map_of_in_set)
  with assms resolve_valid[OF assms(4,5)] show ?thesis
    by (simp add: registration_ok_def newRegistration_def)
qed

lemma Register_err: "Register r jt handler opts = (Inl e, r') \<Longrightarrow> r' = r"
  by (cases handler; cases "map_of (rg_byName r) (jt_zeroName jt)")
    (simp_all add: Register_def Let_def split: if_splits)

lemma Register_ok:
  assumes "registry_ok r" "Register r jt handler opts = (res, r')"
  shows "registry_ok r'"
proof (cases res)
  case (Inl e)
  with assms(2) have "r' = r" by (auto dest: Register_err)
  with assms(1) show ?thesis by simp
next
  case (Inr u)
  with assms(2) have "Register r jt handler opts = (Inr (), r')" by simp
  then show ?thesis
  proof (cases rule: Register_Inr)
    case (1 h)
    let ?reg = "newRegistration jt h (registerConfigOf opts)
      (options_resolve (givenOptions (registerConfigOf opts)) (rg_defaults r))"
    have "registration_ok ?reg"
      using assms(1) 1(2-5) by (intro newRegistration_ok) (simp_all add: registry_ok_def)
    moreover have "reg_name ?reg = jt_zeroName jt" "reg_goType ?reg = jt_goType jt"
      by (simp_all add: newRegistration_def)
    ultimately show ?thesis
      using assms(1) 1(6) unfolding registry_ok_def 1(7) by auto (metis option.distinct(1))
  qed
qed

subsection \<open>What Register and Run promise\<close>

lemma options_complete:
  assumes "registry_ok r"
  shows "1 \<le> o_MaxAttempts (rg_Options r name) \<and> 0 \<le> o_Timeout (rg_Options r name) \<and>
     o_Backoff (rg_Options r name) \<noteq> None"
proof (cases "map_of (rg_byName r) name")
  case None
  have "options_validate zeroOptions = None" by (simp add: options_validate_def zeroOptions_def)
  with None assms show ?thesis by (simp add: rg_Options_def registry_ok_def resolve_valid)
next
  case (Some reg)
  with assms show ?thesis by (simp add: rg_Options_def registry_ok_def registration_ok_def)
qed

text \<open>
  A registry stays well formed and its policies complete. Starting from \<open>NewRegistry\<close> with
  valid defaults, every \<open>Register\<close>, of whatever type and options, either fails and changes nothing,
  or adds one registration under its valid, so far unused name; and then \<open>Options\<close> of every name,
  registered or not, has a positive \<open>MaxAttempts\<close>, a timeout that is not negative and a backoff.
\<close>

theorem register_keeps_registry:
  assumes "registry_ok r" "Register r jt handler opts = (res, r')"
  shows "registry_ok r' \<and>
     (res = Inr () \<longrightarrow> \<not> rg_Has r (jt_zeroName jt) \<and> ValidName (jt_zeroName jt) \<and>
        (\<forall>name. rg_Has r' name \<longleftrightarrow> name = jt_zeroName jt \<or> rg_Has r name)) \<and>
     (res \<noteq> Inr () \<longrightarrow> r' = r) \<and>
     1 \<le> o_MaxAttempts (rg_Options r' name) \<and> 0 \<le> o_Timeout (rg_Options r' name) \<and>
     o_Backoff (rg_Options r' name) \<noteq> None"
proof -
  have ok: "registry_ok r'" by (rule Register_ok[OF assms])
  have "\<not> rg_Has r (jt_zeroName jt) \<and> ValidName (jt_zeroName jt) \<and>
        (\<forall>name. rg_Has r' name \<longleftrightarrow> name = jt_zeroName jt \<or> rg_Has r name)" if "res = Inr ()"
    using assms(2)[unfolded that] by (cases rule: Register_Inr) (simp add: rg_Has_def)
  moreover have "r' = r" if "res \<noteq> Inr ()"
    using that assms(2) by (cases res) (auto dest: Register_err)
  ultimately show ?thesis using ok options_complete[OF ok] by blast
qed

definition demoType :: "string jobType" where
  "demoType = \<lparr>jt_goType = ''Mail'', jt_isStruct = True, jt_zeroName = ''mail'', jt_customCodec = False,
      jt_zeroMarshals = True, jt_versionOnPointer = False, jt_zeroVersion = Some 2,
      jt_unmarshal = (\<lambda>payload. Ret (Inr payload))\<rparr>"

definition demoHandler :: "string \<Rightarrow> unit handlerCall" where
  "demoHandler job ctx info = Ret (if job = ''{}'' then None else Some (EMsg ''boom''), False)"

definition demoRegister :: "(goerr, unit, unit Registry) outcome" where
  "demoRegister = Register (NewRegistry [] zeroOptions) demoType (Some demoHandler)
     [UpgradeFrom 1 (Some (\<lambda>payload. Ret (Inr payload)))]"

definition demoRegistry :: "unit Registry" where
  "demoRegistry = snd demoRegister"

theorem register_keeps_registry_witness:
  "demoRegister = (Inr (), demoRegistry) \<and> registry_ok demoRegistry \<and>
   1 \<le> o_MaxAttempts (rg_Options demoRegistry ''unheard-of'')"
proof -
  have "\<not> isl (fst demoRegister)" by code_simp
  then have reg: "demoRegister = (Inr (), demoRegistry)"
    using outcome_Inr[of demoRegister] by (simp add: demoRegistry_def)
  have new: "registry_ok (NewRegistry [] zeroOptions)"
    by (rule NewRegistry_ok) (simp add: options_validate_def zeroOptions_def)
  from register_keeps_registry[OF new reg[unfolded demoRegister_def], of "''unheard-of''"] reg
  show ?thesis by blast
qed

subsection \<open>Versions\<close>

lemma upgradeLoop_chain:
  assumes "\<And>w. v \<le> w \<Longrightarrow> w < v + int n \<Longrightarrow>
      map_of (reg_upgrades reg) w = Some (\<lambda>p. Ret (Inr (f w p))) \<and> (\<forall>p. \<not> emptyPayload (f w p))"
  shows "upgradeLoop reg version n v payload = Ret (Inr (fold f [v..v + int n - 1] payload))"
  using assms
proof (induction n arbitrary: v payload)
  case (Suc n)
  have "[v..v + int (Suc n) - 1] = v # [v + 1..v + 1 + int n - 1]" by (simp add: upto_rec1)
  moreover have "map_of (reg_upgrades reg) v = Some (\<lambda>p. Ret (Inr (f v p)))" "\<not> emptyPayload (f v payload)"
    using Suc.prems[of v] by auto
  moreover have "upgradeLoop reg version n (v + 1) (f v payload) =
      Ret (Inr (fold f [v + 1..v + 1 + int n - 1] (f v payload)))"
    by (rule Suc.IH) (use Suc.prems in auto)
  ultimately show ?case by simp
qed simp

text \<open>
  C38: An old payload reaches the handler at the current version. When every version from the queued
  one up to the registered one has a step, the steps run in order, each once, each on the previous
  one's output; an envelope at the registered version reaches the decoder unchanged.
\<close>

theorem upgrade_runs_steps_in_order:
  assumes "1 \<le> env_Version env" "env_Version env \<le> reg_version reg" "\<not> emptyPayload (env_Payload env)"
    and "\<forall>v. env_Version env \<le> v \<longrightarrow> v < reg_version reg \<longrightarrow>
      map_of (reg_upgrades reg) v = Some (\<lambda>p. Ret (Inr (f v p))) \<and> (\<forall>p. \<not> emptyPayload (f v p))"
  shows "reg_upgrade reg env =
     Ret (Inr (fold f [env_Version env..reg_version reg - 1] (env_Payload env)))"
proof -
  have "env_Version env + int (nat (reg_version reg - env_Version env)) = reg_version reg"
    "\<not> reg_version reg < env_Version env" using assms(2) by simp_all
  with upgradeLoop_chain[of "env_Version env" "nat (reg_version reg - env_Version env)" reg f] assms
  show ?thesis by (simp add: reg_upgrade_def Let_def)
qed

definition demoStep1 :: "string \<Rightarrow> string" where
  "demoStep1 p = (if p = ''{}'' then ''[1]'' else ''[]'')"

definition demoStep2 :: "string \<Rightarrow> string" where
  "demoStep2 p = (if p = ''[1]'' then ''[1,2]'' else ''[]'')"

definition demoSteps :: "unit registration" where
  "demoSteps = \<lparr>reg_name = ''mail'', reg_version = 3, reg_goType = ''Mail'',
     reg_upgrades = [(1, \<lambda>p. Ret (Inr (demoStep1 p))), (2, \<lambda>p. Ret (Inr (demoStep2 p)))],
     reg_options = zeroOptions, reg_decode = (\<lambda>p. Panics ''unused'')\<rparr>"

definition demoOld :: Envelope where
  "demoOld = \<lparr>env_ID = ''1'', env_Name = ''mail'', env_Version = 1, env_Payload = ''{}'',
     env_Metadata = [], env_EnqueuedAt = 1, env_Attempt = 1\<rparr>"

theorem upgrade_runs_steps_in_order_witness:
  "reg_upgrade demoSteps demoOld = Ret (Inr ''[1,2]'')"
proof -
  let ?f = "\<lambda>v p. if v = (1 :: int) then demoStep1 p else demoStep2 p"
  have c: "\<not> emptyPayload ''[1]''" "\<not> emptyPayload ''[]''" "\<not> emptyPayload ''[1,2]''" "\<not> emptyPayload ''{}''"
    by code_simp+
  have "map_of (reg_upgrades demoSteps) v = Some (\<lambda>p. Ret (Inr (?f v p))) \<and> (\<forall>p. \<not> emptyPayload (?f v p))"
    if "1 \<le> v" "v < 3" for v
  proof -
    from that have "v = 1 \<or> v = 2" by linarith
    then show ?thesis using c by (auto simp: demoSteps_def demoStep1_def demoStep2_def)
  qed
  with upgrade_runs_steps_in_order[of demoOld demoSteps ?f] c(4)
  have "reg_upgrade demoSteps demoOld = Ret (Inr (fold ?f [1..2] ''{}''))"
    by (simp add: demoSteps_def demoOld_def)
  also have "fold ?f [1..2] ''{}'' = ''[1,2]''" by code_simp
  finally show ?thesis .
qed

lemma encode_reaches:
  assumes "registry_ok r" "rg_Encode r ctx (Some j) newID now = Inr env" "newID \<noteq> ''''"
    and "\<not> emptyPayload (env_Payload env)"
  shows "\<exists>reg. map_of (rg_byType r) (jb_goType j) = Some reg \<and>
     map_of (rg_byName r) (env_Name env) = Some reg \<and> reg_goType reg = jb_goType j \<and>
     envelope_validate env = None \<and> jb_payload j = Inr (env_Payload env) \<and>
     reg_upgrade reg env = Ret (Inr (env_Payload env)) \<and>
     Classify (rg_Run r ctx' env) \<in> {KindNil, KindHandler, KindTimeout, KindPanic, KindDecode}"
proof -
  from assms(2) obtain reg where reg: "map_of (rg_byType r) (jb_goType j) = Some reg"
    and env: "env_Name env = reg_name reg" "env_Version env = reg_version reg" "env_ID env = newID"
      "jb_payload j = Inr (env_Payload env)"
    by (auto simp: rg_Encode_def split: if_splits option.splits sum.splits)
  from assms(1) reg have by_name: "map_of (rg_byName r) (env_Name env) = Some reg" "reg_goType reg = jb_goType j"
    by (simp_all add: registry_ok_def env)
  then have rok: "registration_ok reg" using assms(1) unfolding registry_ok_def by blast
  have "env_Name env \<noteq> ''''" using rok ValidName_nonempty by (auto simp: registration_ok_def env)
  then have valid: "envelope_validate env = None" using assms(3) env by (simp add: envelope_validate_def)
  have up: "reg_upgrade reg env = Ret (Inr (env_Payload env))"
    using rok assms(4) env(2) by (simp add: reg_upgrade_def Let_def registration_ok_def)
  have "Classify (rg_Run r ctx' env) \<in> {KindNil, KindHandler, KindTimeout, KindPanic, KindDecode}"
    using valid by_name(1) up
    by (auto simp: rg_Run_def runBody_def split: appCall.splits sum.splits option.splits if_splits)
  with reg by_name valid env(4) up show ?thesis by blast
qed

text \<open>
  Running a valid envelope whose payload needs no upgrade: the handler given to \<open>Register\<close> is called
  on the decoded payload, and its result is the result of the run.
\<close>

lemma run_registered:
  assumes "envelope_validate env = None" "map_of (rg_byName r) (env_Name env) = Some reg"
    and "reg = newRegistration jt h rc po" "reg_upgrade reg env = Ret (Inr payload)"
  shows "rg_Run r ctx env = None \<longleftrightarrow>
       (\<exists>c job b. extractAll (rg_propagators r) ctx (env_Metadata env) = Ret c \<and>
          jt_unmarshal jt payload = Ret (Inr job) \<and> h job c (runInfo reg env) = Ret (None, b))"
    and "extractAll (rg_propagators r) ctx (env_Metadata env) = Ret c \<Longrightarrow> jt_unmarshal jt payload = Ret (Inr job) \<Longrightarrow>
       h job c (runInfo reg env) = Ret (Some e, b) \<Longrightarrow>
       Classify (rg_Run r ctx env) = (if b then KindTimeout else KindHandler)"
proof -
  have dec: "reg_decode reg payload = (case jt_unmarshal jt payload of
          Panics p \<Rightarrow> Panics p
        | Ret (Inl err) \<Rightarrow> Ret (Inl err)
        | Ret (Inr job) \<Rightarrow> Ret (Inr (h job)))"
    by (simp add: assms(3) newRegistration_def)
  show "rg_Run r ctx env = None \<longleftrightarrow>
       (\<exists>c job b. extractAll (rg_propagators r) ctx (env_Metadata env) = Ret c \<and>
          jt_unmarshal jt payload = Ret (Inr job) \<and> h job c (runInfo reg env) = Ret (None, b))"
    by (auto simp: rg_Run_def runBody_def assms(1,2,4) dec split: appCall.splits sum.splits option.splits prod.splits)
  show "Classify (rg_Run r ctx env) = (if b then KindTimeout else KindHandler)"
    if "extractAll (rg_propagators r) ctx (env_Metadata env) = Ret c" "jt_unmarshal jt payload = Ret (Inr job)"
      "h job c (runInfo reg env) = Ret (Some e, b)"
    using that by (simp add: rg_Run_def runBody_def assms(1,2,4) dec)
qed

text \<open>
  What \<open>Encode\<close> produces, \<open>Run\<close> of the same registry runs. The envelope is valid, names the
  registration of the job's type at its current version, and its payload reaches that
  registration's decoder unchanged; so \<open>Run\<close> can fail only in the handler's own ways (its error,
  its timeout, a panic, a payload that does not decode), never as an unknown job or version.
\<close>

theorem encode_then_run:
  assumes "registry_ok r" "rg_Encode r ctx (Some j) newID now = Inr env" "newID \<noteq> ''''"
    and "\<not> emptyPayload (env_Payload env)"
  shows "\<exists>reg. map_of (rg_byName r) (env_Name env) = Some reg \<and> reg_goType reg = jb_goType j \<and>
     envelope_validate env = None \<and> jb_payload j = Inr (env_Payload env) \<and>
     reg_upgrade reg env = Ret (Inr (env_Payload env)) \<and>
     Classify (rg_Run r ctx' env) \<in> {KindNil, KindHandler, KindTimeout, KindPanic, KindDecode}"
  using encode_reaches[OF assms] by blast

definition demoJob :: jobValue where
  "demoJob = \<lparr>jb_goType = ''Mail'', jb_nilPointer = False, jb_name = ''mail'', jb_version = Some 2,
     jb_payload = Inr ''{}''\<rparr>"

lemma demoRegistry_ok: "registry_ok demoRegistry"
proof -
  have "registry_ok (NewRegistry [] zeroOptions)"
    by (rule NewRegistry_ok) (simp add: options_validate_def zeroOptions_def)
  from Register_ok[OF this, of demoType "Some demoHandler"] show ?thesis
    unfolding demoRegistry_def demoRegister_def by (metis prod.collapse)
qed

theorem encode_then_run_witness:
  "let env = projr (rg_Encode demoRegistry () (Some demoJob) ''id-1'' 100) in
     \<not> isl (rg_Encode demoRegistry () (Some demoJob) ''id-1'' 100) \<and>
     (\<exists>reg. map_of (rg_byName demoRegistry) ''mail'' = Some reg \<and> reg_goType reg = ''Mail'' \<and>
        reg_upgrade reg env = Ret (Inr ''{}''))"
proof -
  let ?e = "rg_Encode demoRegistry () (Some demoJob) ''id-1'' 100"
  have e: "\<not> isl ?e" "env_Name (projr ?e) = ''mail''" "env_Payload (projr ?e) = ''{}''" by code_simp+
  from e(1) have inr: "?e = Inr (projr ?e)" by (cases ?e) auto
  have "\<not> emptyPayload (env_Payload (projr ?e))" unfolding e(3) by code_simp
  from encode_then_run[OF demoRegistry_ok inr _ this, of "()"] e show ?thesis
    unfolding Let_def by (auto simp: demoJob_def)
qed

end
