(* ===== verification/Jobs_Metrics.thy ===== *)
theory Jobs_Metrics
  imports Gombit_Prelude
begin

section \<open>What a worker records\<close>

text \<open>
  The recording side of \<open>src/jobs/metrics.go\<close>: outcome counters and latency histograms per job,
  queue and result, and the gauge of running jobs. The atomics and the \<open>sync.Map\<close>s are values of
  one record; a call of the model is one complete call. \<open>observe\<close> compares seconds as floats with
  the bucket bounds; nanoseconds are further apart than the rounding of either side up to the
  largest bound, so the comparison is the one of whole nanoseconds. The rendering
  (\<open>WritePrometheus\<close>) is text formatting and not modelled.
\<close>

subsection \<open>Definitions\<close>

definition ResultSucceeded :: string where "ResultSucceeded = ''succeeded''"
definition ResultRetried :: string where "ResultRetried = ''retried''"
definition ResultFailed :: string where "ResultFailed = ''failed''"
definition ResultInterrupted :: string where "ResultInterrupted = ''interrupted''"
definition ResultPostponed :: string where "ResultPostponed = ''postponed''"
definition ResultAbandoned :: string where "ResultAbandoned = ''abandoned''"
definition ResultUndecodable :: string where "ResultUndecodable = ''undecodable''"
definition ResultUnsettled :: string where "ResultUnsettled = ''unsettled''"

definition unknownJobLabel :: string where "unknownJobLabel = ''unknown''"

definition latencyBuckets :: "duration list" where
  "latencyBuckets = [10 * Millisecond, 50 * Millisecond, 100 * Millisecond, 500 * Millisecond,
     Second, 5 * Second, 10 * Second, 30 * Second, 60 * Second, 300 * Second, 1800 * Second]"

record histogram =
  h_buckets :: "int list"
  h_count :: int
  h_nanos :: int

definition zeroHistogram :: histogram where
  "zeroHistogram = \<lparr>h_buckets = replicate (length latencyBuckets) 0, h_count = 0, h_nanos = 0\<rparr>"

text \<open>The loop over the buckets: the first bound that is not exceeded counts.\<close>

fun fillBucket :: "duration \<Rightarrow> duration list \<Rightarrow> int list \<Rightarrow> int list" where
  "fillBucket d (bound # bounds) (b # bs) = (if d \<le> bound then (b + 1) # bs else b # fillBucket d bounds bs)"
| "fillBucket d bounds bs = bs"

definition observe :: "histogram \<Rightarrow> duration \<Rightarrow> histogram" where
  "observe h d = h\<lparr>h_count := h_count h + 1, h_nanos := h_nanos h + d,
     h_buckets := fillBucket d latencyBuckets (h_buckets h)\<rparr>"

record jobCounter =
  jc_count :: int
  jc_run :: histogram
  jc_wait :: histogram

type_synonym metricsSeries = "string \<times> string \<times> string"

record Metrics =
  mt_inFlight :: "(string \<times> int) list"
  mt_series :: "(metricsSeries \<times> jobCounter) list"

definition NewMetrics :: Metrics where
  "NewMetrics = \<lparr>mt_inFlight = [], mt_series = []\<rparr>"

definition inFlightFor :: "Metrics \<Rightarrow> string \<Rightarrow> int" where
  "inFlightFor m queue = (case map_of (mt_inFlight m) queue of Some n \<Rightarrow> n | None \<Rightarrow> 0)"

definition mt_started :: "Metrics \<Rightarrow> string \<Rightarrow> Metrics" where
  "mt_started m queue = m\<lparr>mt_inFlight := AList.update queue (inFlightFor m queue + 1) (mt_inFlight m)\<rparr>"

definition mt_finished :: "Metrics \<Rightarrow> string \<Rightarrow> Metrics" where
  "mt_finished m queue = m\<lparr>mt_inFlight := AList.update queue (inFlightFor m queue - 1) (mt_inFlight m)\<rparr>"

definition mt_record :: "Metrics \<Rightarrow> string \<Rightarrow> string \<Rightarrow> string \<Rightarrow> duration \<Rightarrow> duration \<Rightarrow> Metrics" where
  "mt_record m job queue result run wait =
     (let key = (job, queue, result);
          c = (case map_of (mt_series m) key of
                 Some c \<Rightarrow> c
               | None \<Rightarrow> \<lparr>jc_count = 0, jc_run = zeroHistogram, jc_wait = zeroHistogram\<rparr>);
          c' = c\<lparr>jc_count := jc_count c + 1, jc_run := observe (jc_run c) run\<rparr>;
          c'' = (if 0 < wait then c'\<lparr>jc_wait := observe (jc_wait c') wait\<rparr> else c')
      in m\<lparr>mt_series := AList.update key c'' (mt_series m)\<rparr>)"

definition mt_Empty :: "Metrics \<Rightarrow> bool" where
  "mt_Empty m \<longleftrightarrow> mt_series m = [] \<and> mt_inFlight m = []"

subsection \<open>Lemmas\<close>

definition seriesCount :: "Metrics \<Rightarrow> string \<Rightarrow> string \<Rightarrow> string \<Rightarrow> int" where
  "seriesCount m job queue result =
     (case map_of (mt_series m) (job, queue, result) of Some c \<Rightarrow> jc_count c | None \<Rightarrow> 0)"

lemma seriesCount_record [simp]:
  "seriesCount (mt_record m job queue result run wait) job' queue' result' =
     (if (job', queue', result') = (job, queue, result) then seriesCount m job' queue' result' + 1
      else seriesCount m job' queue' result')"
  by (auto simp: seriesCount_def mt_record_def Let_def split: option.splits)

lemma seriesCount_inFlight [simp]:
  "seriesCount (mt_started m q) job queue result = seriesCount m job queue result"
  "seriesCount (mt_finished m q) job queue result = seriesCount m job queue result"
  by (simp_all add: seriesCount_def mt_started_def mt_finished_def)

lemma inFlight_record [simp]: "inFlightFor (mt_record m job queue result run wait) q = inFlightFor m q"
  by (simp add: inFlightFor_def mt_record_def Let_def)

lemma inFlight_started [simp]:
  "inFlightFor (mt_started m queue) q = (if q = queue then inFlightFor m q + 1 else inFlightFor m q)"
  "inFlightFor (mt_finished m queue) q = (if q = queue then inFlightFor m q - 1 else inFlightFor m q)"
  by (simp_all add: inFlightFor_def mt_started_def mt_finished_def)

text \<open>Observations never show more in the buckets than in the count.\<close>

lemma fillBucket_sum:
  "length bounds = length bs \<Longrightarrow>
   sum_list (fillBucket d bounds bs) = sum_list bs + (if \<exists>b \<in> set bounds. d \<le> b then 1 else 0)"
  by (induction d bounds bs rule: fillBucket.induct) auto

lemma fillBucket_length [simp]: "length (fillBucket d bounds bs) = length bs"
  by (induction d bounds bs rule: fillBucket.induct) auto

definition histogram_ok :: "histogram \<Rightarrow> bool" where
  "histogram_ok h \<longleftrightarrow> length (h_buckets h) = length latencyBuckets \<and> sum_list (h_buckets h) \<le> h_count h"

lemma zeroHistogram_ok: "histogram_ok zeroHistogram"
  by (simp add: histogram_ok_def zeroHistogram_def latencyBuckets_def)

lemma observe_ok: "histogram_ok h \<Longrightarrow> histogram_ok (observe h d)"
  by (simp add: histogram_ok_def observe_def fillBucket_sum)

end
