(* ===== verification/Jobs_Worker.thy ===== *)
theory Jobs_Worker
  imports Jobs_Memory_Theorems Jobs_Registry Jobs_Metrics
begin

section \<open>The worker\<close>

text \<open>
  \<open>src/jobs/worker.go\<close>: taking a delivery from a queue, and settling it by what running it came
  to. The queue is any driver, a record \<open>queue_ops\<close>; the theorems about a driver are proved from
  the contract \<open>leasing_queue\<close> and hold for \<open>MemoryQueue\<close> by its interpretation.

  A run is concurrent with the renewal of its lease and with the shutdown of the worker; what
  these come to is an argument of \<open>process\<close>: the error \<open>Run\<close> returned, whether the lease was
  lost, and whether the worker canceled the run. The clock readings are arguments too, the
  worker's own (\<open>time.Now()\<close>) and the queue's. \<open>renewTick\<close> is one tick of the renewing
  goroutine, \<open>afterReserve\<close> what the main loop does with the outcome of a \<open>reserve\<close>. Logging,
  goroutines, channels and \<open>shutdown\<close>'s waiting are not modelled. \<open>msg\<close> renders an error.
\<close>

subsection \<open>Options\<close>

record WorkerOptions =
  wo_Queues :: "string list"
  wo_Concurrency :: int
  wo_Lease :: duration
  wo_PollInterval :: duration
  wo_ShutdownTimeout :: duration

definition DefaultLease :: duration where "DefaultLease = 5 * Minute"
definition DefaultPollInterval :: duration where "DefaultPollInterval = Second"
definition DefaultShutdownTimeout :: duration where "DefaultShutdownTimeout = 30 * Second"

record ('c, 'q) Worker =
  wk_registry :: "'c Registry"
  wk_queue :: "'q queue_ops"
  wk_opts :: WorkerOptions

datatype worker_error = NilRegistry | ErrNoQueue | NoQueues | WorkerInvalidQueue string | NegativeOption

definition NewWorker ::
  "'c Registry option \<Rightarrow> 'q queue_ops option \<Rightarrow> WorkerOptions \<Rightarrow> worker_error + ('c, 'q) Worker" where
  "NewWorker registry queue opts =
     (case registry of
        None \<Rightarrow> Inl NilRegistry
      | Some r \<Rightarrow>
     (case queue of
        None \<Rightarrow> Inl ErrNoQueue
      | Some q \<Rightarrow>
          if wo_Queues opts = [] then Inl NoQueues
          else (case find (\<lambda>q. \<not> ValidName q) (wo_Queues opts) of
            Some bad \<Rightarrow> Inl (WorkerInvalidQueue bad)
          | None \<Rightarrow>
              if wo_Concurrency opts < 0 \<or> wo_Lease opts < 0 \<or> wo_PollInterval opts < 0 \<or>
                 wo_ShutdownTimeout opts < 0
              then Inl NegativeOption
              else Inr \<lparr>wk_registry = r, wk_queue = q,
                wk_opts = opts\<lparr>
                  wo_Concurrency := (if wo_Concurrency opts = 0 then 1 else wo_Concurrency opts),
                  wo_Lease := (if wo_Lease opts = 0 then DefaultLease else wo_Lease opts),
                  wo_PollInterval := (if wo_PollInterval opts = 0 then DefaultPollInterval
                                      else wo_PollInterval opts),
                  wo_ShutdownTimeout := (if wo_ShutdownTimeout opts = 0 then DefaultShutdownTimeout
                                         else wo_ShutdownTimeout opts)\<rparr>\<rparr>)))"

subsection \<open>Settling\<close>

definition settled :: "string \<Rightarrow> (queue_error + unit) \<Rightarrow> string" where
  "settled result err =
     (case err of
        Inr _ \<Rightarrow> result
      | Inl e \<Rightarrow> if Is_queue e ErrLeaseLost then ResultAbandoned else ResultUnsettled)"

definition jobLabel :: "('c, 'q) Worker \<Rightarrow> string \<Rightarrow> string" where
  "jobLabel w name = (if rg_Has (wk_registry w) name then name else unknownJobLabel)"

text \<open>\<open>now\<close> is the worker's clock, \<open>qnow\<close> the queue's.\<close>

definition w_retry ::
  "('c, 'q) Worker \<Rightarrow> 'q \<Rightarrow> Delivery \<Rightarrow> duration \<Rightarrow> gotime \<Rightarrow> gotime \<Rightarrow> (queue_error, unit, 'q) outcome" where
  "w_retry w q d delay now qnow = op_Release (wk_queue w) q d (now + delay) qnow"

definition w_postpone ::
  "('c, 'q) Worker \<Rightarrow> 'q \<Rightarrow> Delivery \<Rightarrow> duration \<Rightarrow> gotime \<Rightarrow> gotime \<Rightarrow> (queue_error, unit, 'q) outcome" where
  "w_postpone w q d delay now qnow = op_Postpone (wk_queue w) q d (now + delay) qnow"

definition giveUpFailure :: "(goerr \<Rightarrow> string) \<Rightarrow> goerr \<Rightarrow> gotime \<Rightarrow> Failure" where
  "giveUpFailure msg err now =
     \<lparr>f_Reason = (if IsPermanent (Some err) then ReasonPermanent else ReasonExhausted),
      f_Kind = Classify (Some err), f_Error = msg err, f_At = now\<rparr>"

definition w_giveUp ::
  "(goerr \<Rightarrow> string) \<Rightarrow> ('c, 'q) Worker \<Rightarrow> 'q \<Rightarrow> Delivery \<Rightarrow> goerr \<Rightarrow> gotime \<Rightarrow> gotime
   \<Rightarrow> (queue_error, unit, 'q) outcome" where
  "w_giveUp msg w q d err now qnow = op_Bury (wk_queue w) q d (giveUpFailure msg err now) qnow"

definition waitedFor :: "Delivery \<Rightarrow> gotime \<Rightarrow> duration" where
  "waitedFor d started =
     (if \<not> IsZero (d_AvailableAt d) \<and> d_AvailableAt d < started then started - d_AvailableAt d else 0)"

subsection \<open>Taking a job\<close>

datatype reserve_result = RErr queue_error | RDelivery Delivery | RSetAside | RNotSetAside

definition exhaustErr :: goerr where
  "exhaustErr = EMsg ''previous worker did not settle the job before its lease expired''"

definition w_reserve ::
  "(goerr \<Rightarrow> string) \<Rightarrow> ('c, 'q) Worker \<Rightarrow> Metrics \<Rightarrow> 'q \<Rightarrow> string \<Rightarrow> gotime \<Rightarrow> gotime \<Rightarrow> gotime
   \<Rightarrow> reserve_result \<times> Metrics \<times> 'q" where
  "w_reserve msg w m q receipt qnow now qnow2 =
     (case op_Reserve (wk_queue w) q (wo_Queues (wk_opts w)) (wo_Lease (wk_opts w)) receipt qnow of
        (Inl err, q1) \<Rightarrow> (RErr err, m, q1)
      | (Inr d, q1) \<Rightarrow>
          (case d_Err d of
             None \<Rightarrow>
               if \<not> d_LeaseExpired d then (RDelivery d, m, q1)
               else if env_Attempt (d_Envelope d) \<le>
                       o_MaxAttempts (rg_Options (wk_registry w) (env_Name (d_Envelope d)))
               then (RDelivery d, m, q1)
               else
                 let (buryErr, q2) = w_giveUp msg w q1 d exhaustErr now qnow2;
                     m' = mt_record m (jobLabel w (env_Name (d_Envelope d))) (d_Queue d)
                            (settled ResultFailed buryErr) 0 (waitedFor d now)
                 in (case buryErr of Inl _ \<Rightarrow> RNotSetAside | Inr _ \<Rightarrow> RSetAside, m', q2)
           | Some derr \<Rightarrow>
               let failure = \<lparr>f_Reason = ReasonUndecodable, f_Kind = KindDecode, f_Error = derr, f_At = now\<rparr>;
                   (buryErr, q2) = op_Bury (wk_queue w) q1 d failure qnow2;
                   m' = mt_record m unknownJobLabel (d_Queue d) (settled ResultUndecodable buryErr) 0 0
               in (case buryErr of Inl _ \<Rightarrow> RNotSetAside | Inr _ \<Rightarrow> RSetAside, m', q2)))"

definition maxReserveBackoff :: duration where "maxReserveBackoff = 30 * Second"

fun reserveBackoffLoop :: "nat \<Rightarrow> duration \<Rightarrow> duration" where
  "reserveBackoffLoop 0 wait = wait"
| "reserveBackoffLoop (Suc n) wait =
     (if wait < maxReserveBackoff then reserveBackoffLoop n (wrap64 (wait * 2)) else wait)"

definition reserveBackoff :: "duration \<Rightarrow> int \<Rightarrow> duration" where
  "reserveBackoff poll failures =
     (let wait = reserveBackoffLoop (nat (failures - 1)) poll
      in if maxReserveBackoff < wait then maxReserveBackoff else wait)"

text \<open>
  The main loop after a \<open>reserve\<close>: with the context canceled it hands a delivery back and stops;
  otherwise it looks again at once, waits, or starts the job. The number is \<open>failures\<close>.
\<close>

datatype loop_step = HandBack Delivery | Stop | LookAgain | WaitThen duration | Start Delivery

definition afterReserve :: "WorkerOptions \<Rightarrow> bool \<Rightarrow> reserve_result \<Rightarrow> int \<Rightarrow> loop_step \<times> int" where
  "afterReserve opts canceled r failures =
     (if canceled then (case r of RDelivery d \<Rightarrow> (HandBack d, failures) | _ \<Rightarrow> (Stop, failures))
      else (case r of
        RSetAside \<Rightarrow> (LookAgain, failures)
      | RNotSetAside \<Rightarrow> (LookAgain, failures)
      | RErr err \<Rightarrow>
          if Is_queue err ErrNoJob then (WaitThen (wo_PollInterval opts), 0)
          else (WaitThen (reserveBackoff (wo_PollInterval opts) (failures + 1)), failures + 1)
      | RDelivery d \<Rightarrow> (Start d, 0)))"

subsection \<open>Running a job\<close>

text \<open>How a finished run is settled: the result to record and the queue afterwards.\<close>

definition settleRun ::
  "(goerr \<Rightarrow> string) \<Rightarrow> ('c, 'q) Worker \<Rightarrow> 'q \<Rightarrow> Delivery \<Rightarrow> goerr option \<Rightarrow> bool \<Rightarrow> bool \<Rightarrow> gotime \<Rightarrow> gotime
   \<Rightarrow> string \<times> 'q" where
  "settleRun msg w q d err lost canceled now qnow =
     (if lost then (ResultAbandoned, q)
      else (case err of
        None \<Rightarrow> let (ackErr, q') = op_Ack (wk_queue w) q d in (settled ResultSucceeded ackErr, q')
      | Some e \<Rightarrow>
          let policy = rg_Options (wk_registry w) (env_Name (d_Envelope d));
              attempt = env_Attempt (d_Envelope d)
          in if canceled
             then (let (e', q') = w_retry w q d 0 now qnow in (settled ResultInterrupted e', q'))
             else if errors_Is e ErrInProgress \<and> \<not> IsPermanent err
             then (let (e', q') = w_postpone w q d (the (o_Backoff policy) attempt) now qnow
                   in (settled ResultPostponed e', q'))
             else if IsPermanent err \<or> o_MaxAttempts policy \<le> attempt
             then (let (e', q') = w_giveUp msg w q d e now qnow in (settled ResultFailed e', q'))
             else (let (e', q') = w_retry w q d (the (o_Backoff policy) attempt) now qnow
                   in (settled ResultRetried e', q'))))"

definition w_process ::
  "(goerr \<Rightarrow> string) \<Rightarrow> ('c, 'q) Worker \<Rightarrow> Metrics \<Rightarrow> 'q \<Rightarrow> Delivery \<Rightarrow> goerr option \<Rightarrow> bool \<Rightarrow> bool
   \<Rightarrow> gotime \<Rightarrow> duration \<Rightarrow> gotime \<Rightarrow> gotime \<Rightarrow> Metrics \<times> 'q" where
  "w_process msg w m q d err lost canceled started runTime now qnow =
     (let m1 = mt_started m (d_Queue d);
          (result, q') = settleRun msg w q d err lost canceled now qnow;
          m2 = mt_finished m1 (d_Queue d)
      in (mt_record m2 (jobLabel w (env_Name (d_Envelope d))) (d_Queue d) result runTime (waitedFor d started), q'))"

text \<open>One tick of \<open>renewLease\<close>: go on, stop, or stop having lost the lease.\<close>

datatype renewal = Renewing | RenewStopped | LeaseWasLost

definition renewTick ::
  "('c, 'q) Worker \<Rightarrow> 'q \<Rightarrow> Delivery \<Rightarrow> bool \<Rightarrow> gotime \<Rightarrow> renewal \<times> 'q" where
  "renewTick w q d renewCanceled qnow =
     (case op_Extend (wk_queue w) q d (wo_Lease (wk_opts w)) qnow of
        (Inl err, q') \<Rightarrow>
          if Is_queue err ErrLeaseLost then (LeaseWasLost, q')
          else if Is_queue err ErrClosed \<or> renewCanceled then (RenewStopped, q')
          else (Renewing, q')
      | (Inr _, q') \<Rightarrow> (if renewCanceled then RenewStopped else Renewing, q'))"

definition renewInterval :: "WorkerOptions \<Rightarrow> duration" where
  "renewInterval opts =
     (let interval = quot (wo_Lease opts) 3 in if interval < Millisecond then Millisecond else interval)"

subsection \<open>Settling, over any driver\<close>

text \<open>
  The specification of \<open>settleRun\<close> on what a driver shows of the job: what becomes of it, and the
  result that is recorded.
\<close>

definition settleView ::
  "(goerr \<Rightarrow> string) \<Rightarrow> Options \<Rightarrow> int \<Rightarrow> goerr option \<Rightarrow> bool \<Rightarrow> gotime \<Rightarrow> gotime \<Rightarrow> jobView
   \<Rightarrow> jobView option" where
  "settleView msg policy attempt err canceled now qnow v =
     (case err of
        None \<Rightarrow> None
      | Some e \<Rightarrow>
          if canceled then Some (v\<lparr>jv_state := Waiting (clampAt now qnow)\<rparr>)
          else if errors_Is e ErrInProgress \<and> \<not> IsPermanent err
          then Some (v\<lparr>jv_attempts := (if 0 < jv_attempts v then jv_attempts v - 1 else jv_attempts v),
                      jv_state := Waiting (clampAt (now + the (o_Backoff policy) attempt) qnow)\<rparr>)
          else if IsPermanent err \<or> o_MaxAttempts policy \<le> attempt
          then Some (v\<lparr>jv_state := GivenUp (stampFailure (giveUpFailure msg e now) qnow)\<rparr>)
          else Some (v\<lparr>jv_state := Waiting (clampAt (now + the (o_Backoff policy) attempt) qnow)\<rparr>))"

definition settleResult :: "Options \<Rightarrow> int \<Rightarrow> goerr option \<Rightarrow> bool \<Rightarrow> string" where
  "settleResult policy attempt err canceled =
     (case err of
        None \<Rightarrow> ResultSucceeded
      | Some e \<Rightarrow>
          if canceled then ResultInterrupted
          else if errors_Is e ErrInProgress \<and> \<not> IsPermanent err then ResultPostponed
          else if IsPermanent err \<or> o_MaxAttempts policy \<le> attempt then ResultFailed
          else ResultRetried)"

context leasing_queue
begin

lemma settle_ok:
  assumes "settles invar view closed call d upd" "invar q" "\<not> closed q" "holdsLease (view q (deliveryKey d)) d"
    and "view q (deliveryKey d) = Some v"
  shows "\<exists>q'. call q = (Inr (), q') \<and> invar q' \<and> \<not> closed q' \<and> view q' = (view q)(deliveryKey d := upd v)"
  using settlesD(3)[OF assms(1-4)] assms(5) by simp

text \<open>With the lease, a run is settled as the specification says, and only that job changes.\<close>

lemma settleRun_holds:
  assumes "wk_queue w = ops" "invar q" "\<not> closed q" "holdsLease (view q (deliveryKey d)) d"
    and v: "view q (deliveryKey d) = Some v"
    and "policy = rg_Options (wk_registry w) (env_Name (d_Envelope d))" "attempt = env_Attempt (d_Envelope d)"
  shows "\<exists>q'. settleRun msg w q d err False canceled now qnow = (settleResult policy attempt err canceled, q') \<and>
     invar q' \<and> \<not> closed q' \<and>
     view q' = (view q)(deliveryKey d := settleView msg policy attempt err canceled now qnow v)"
proof -
  let ?res = "\<lambda>r q' upd. r = (Inr (), q') \<and> invar q' \<and> \<not> closed q' \<and> view q' = (view q)(deliveryKey d := upd)"
  have A: "\<exists>q'. ?res (op_Ack ops q d) q' None"
    by (rule settle_ok[OF ack assms(2-4) v])
  have R: "\<exists>q'. ?res (op_Release ops q d at qnow) q' (Some (v\<lparr>jv_state := Waiting (clampAt at qnow)\<rparr>))" for at
    by (rule settle_ok[OF release assms(2-4) v])
  have P: "\<exists>q'. ?res (op_Postpone ops q d at qnow) q'
      (Some (v\<lparr>jv_attempts := (if 0 < jv_attempts v then jv_attempts v - 1 else jv_attempts v),
               jv_state := Waiting (clampAt at qnow)\<rparr>))" for at
    by (rule settle_ok[OF postpone assms(2-4) v])
  have B: "\<exists>q'. ?res (op_Bury ops q d f qnow) q' (Some (v\<lparr>jv_state := GivenUp (stampFailure f qnow)\<rparr>))" for f
    by (rule settle_ok[OF bury assms(2-4) v])
  show ?thesis
  proof (cases err)
    case None
    with A assms(1) show ?thesis by (auto simp: settleRun_def settleResult_def settleView_def settled_def)
  next
    case (Some e)
    note defs = settleRun_def settleResult_def settleView_def settled_def Some assms(1) assms(6,7)[symmetric]
      w_retry_def w_postpone_def w_giveUp_def
    show ?thesis
      using R[of now] R[of "now + the (o_Backoff policy) attempt"] P[of "now + the (o_Backoff policy) attempt"]
        B[of "giveUpFailure msg e now"]
      by (elim exE conjE) (simp add: defs)
  qed
qed

text \<open>Without the lease, a run changes nothing and is recorded as abandoned, or as unsettled on a closed queue.\<close>

lemma settleRun_lost:
  assumes "wk_queue w = ops" "invar q" "lost \<or> closed q \<or> \<not> holdsLease (view q (deliveryKey d)) d"
  shows "settleRun msg w q d err lost canceled now qnow =
     (if lost \<or> \<not> closed q then ResultAbandoned else ResultUnsettled, q)"
proof (cases "lost")
  case False
  let ?e = "if closed q then ErrClosed else ErrLeaseLost"
  have lost: "call q = (Inl ?e, q)" if "settles invar view closed call d upd" for call upd
    using settlesD(1,2)[OF that assms(2)] assms(3) False by auto
  have "settled r (Inl ?e) = (if closed q then ResultUnsettled else ResultAbandoned)" for r
    by (simp add: settled_def Is_queue_def)
  with False lost[OF ack] lost[OF release] lost[OF postpone] lost[OF bury] assms(1) show ?thesis
    by (auto simp: settleRun_def w_retry_def w_postpone_def w_giveUp_def Let_def split: option.splits)
qed (simp add: settleRun_def)

end


end
