(* ===== verification/Jobs_Once.thy ===== *)
theory Jobs_Once
  imports Jobs_Claims Jobs_Registry
begin

section \<open>Effects that run once\<close>

text \<open>
  \<open>Once\<close> of \<open>src/jobs/unique.go\<close> over any \<open>OnceStore\<close>: the interface is the record
  \<open>once_ops\<close>, what a store promises the locale \<open>once_store\<close>, and \<open>MemoryQueue\<close> an
  interpretation of it. The effect \<open>fn\<close> is application code: it runs against the store as
  \<open>BeginOnce\<close> left it and returns, or panics, in the store as it is by then, so that the calls
  other runs make meanwhile are part of what \<open>fn\<close> does to the state.
\<close>

subsection \<open>Definitions\<close>

record 's once_ops =
  os_Begin :: "'s \<Rightarrow> string \<Rightarrow> string \<Rightarrow> duration \<Rightarrow> gotime \<Rightarrow> (queue_error, OnceState, 's) outcome"
  os_Finish :: "'s \<Rightarrow> string \<Rightarrow> string \<Rightarrow> duration \<Rightarrow> gotime \<Rightarrow> (queue_error, unit, 's) outcome"
  os_Abandon :: "'s \<Rightarrow> string \<Rightarrow> string \<Rightarrow> (queue_error, unit, 's) outcome"

definition DefaultOnceKeep :: duration where "DefaultOnceKeep = 7 * 24 * Hour"
definition DefaultOnceLock :: duration where "DefaultOnceLock = 15 * Minute"

record onceConfig =
  oc_keep :: duration
  oc_lock :: duration

datatype OnceOption = KeepFor duration | LockFor duration

fun applyOnceOption :: "OnceOption \<Rightarrow> onceConfig \<Rightarrow> onceConfig" where
  "applyOnceOption (KeepFor d) c = c\<lparr>oc_keep := d\<rparr>"
| "applyOnceOption (LockFor d) c = c\<lparr>oc_lock := d\<rparr>"

definition onceConfigOf :: "OnceOption list \<Rightarrow> onceConfig" where
  "onceConfigOf opts = fold applyOnceOption opts \<lparr>oc_keep = DefaultOnceKeep, oc_lock = DefaultOnceLock\<rparr>"

type_synonym 's effect = "'s \<Rightarrow> goerr option appCall \<times> 's"

text \<open>The deferred release of the lock, and the error it may join to the effect's.\<close>

definition abandonOnce ::
  "'s once_ops \<Rightarrow> string \<Rightarrow> string \<Rightarrow> goerr option appCall \<Rightarrow> 's \<Rightarrow> goerr option appCall \<times> 's" where
  "abandonOnce store key token result s =
     (case os_Abandon store s key token of
        (Inr _, s') \<Rightarrow> (result, s')
      | (Inl abandonErr, s') \<Rightarrow>
          (case result of
             Ret (Some err) \<Rightarrow> (Ret (Some (EJoin err (EWrap key (EQueue abandonErr)))), s')
           | _ \<Rightarrow> (result, s')))"

text \<open>
  \<open>Once\<close>: the clock is read by the store, at \<open>now1\<close> when the run begins and at \<open>now2\<close> when it
  is recorded; \<open>token\<close> is the new lock token.
\<close>

definition Once ::
  "'s once_ops option \<Rightarrow> string \<Rightarrow> 's effect \<Rightarrow> OnceOption list \<Rightarrow> string \<Rightarrow> gotime \<Rightarrow> gotime \<Rightarrow> 's
   \<Rightarrow> goerr option appCall \<times> 's" where
  "Once store key fn opts token now1 now2 s =
     (let cfg = onceConfigOf opts in
      if key = '''' then (Ret (Some (EMsg ''jobs: Once: empty key'')), s)
      else if oc_keep cfg \<le> 0 \<or> oc_lock cfg \<le> 0
      then (Ret (Some (EMsg ''jobs: Once: KeepFor and LockFor must be positive'')), s)
      else (case store of
        None \<Rightarrow> fn s
      | Some ops \<Rightarrow>
          (case os_Begin ops s key token (oc_lock cfg) now1 of
             (Inl err, s1) \<Rightarrow> (Ret (Some (EWrap key (EQueue err))), s1)
           | (Inr OnceDone, s1) \<Rightarrow> (Ret None, s1)
           | (Inr OnceBusy, s1) \<Rightarrow> (Ret (Some (EWrap key (ESent ErrInProgress))), s1)
           | (Inr OnceAcquired, s1) \<Rightarrow>
               (case fn s1 of
                  (Ret None, s2) \<Rightarrow> (Ret None, snd (os_Finish ops s2 key token (oc_keep cfg) now2))
                | (result, s2) \<Rightarrow> abandonOnce ops key token result s2))))"

definition mem_once :: "MemoryQueue once_ops" where
  "mem_once = \<lparr>os_Begin = (\<lambda>q key token lock now.
       (Inr (fst (mq_BeginOnce q key token lock now)), snd (mq_BeginOnce q key token lock now))),
     os_Finish = (\<lambda>q key token keep now. mq_FinishOnce q key token keep now now),
     os_Abandon = (\<lambda>q key token. (Inr (), mq_AbandonOnce q key token))\<rparr>"

subsection \<open>What a store promises\<close>

text \<open>\<open>record s key\<close> is the stored holder and expiry of a key; \<open>done\<close> marks a finished one.\<close>

locale once_store =
  fixes ops :: "'s once_ops"
    and invar :: "'s \<Rightarrow> bool"
    and stored :: "'s \<Rightarrow> string \<Rightarrow> (string \<times> gotime) option"
    and finished :: string
  assumes begin_held:
    "invar s \<Longrightarrow> stored s key = Some (h, e) \<Longrightarrow> now < e \<Longrightarrow>
     \<exists>s'. os_Begin ops s key token lock now = (Inr (if h = finished then OnceDone else OnceBusy), s') \<and>
       invar s' \<and> stored s' key = Some (h, e)"
    and begin_free:
    "invar s \<Longrightarrow> (\<And>h e. stored s key = Some (h, e) \<Longrightarrow> e \<le> now) \<Longrightarrow>
     \<exists>s'. os_Begin ops s key token lock now = (Inr OnceAcquired, s') \<and>
       invar s' \<and> stored s' key = Some (token, now + lock)"
    and finish_held:
    "invar s \<Longrightarrow> stored s key = Some (token, e) \<Longrightarrow> now < e \<Longrightarrow>
     \<exists>s'. os_Finish ops s key token keep now = (Inr (), s') \<and>
       invar s' \<and> stored s' key = Some (finished, now + keep)"
    and abandon_held:
    "invar s \<Longrightarrow> stored s key = Some (token, e) \<Longrightarrow>
     \<exists>s'. os_Abandon ops s key token = (Inr (), s') \<and> invar s' \<and> stored s' key = None"
begin

text \<open>A finished effect: \<open>Once\<close> succeeds without running it, whatever \<open>fn\<close> is.\<close>

lemma once_finished:
  assumes "invar s" "stored s key = Some (finished, e)" "now1 < e"
    and "key \<noteq> ''''" "0 < oc_keep (onceConfigOf opts)" "0 < oc_lock (onceConfigOf opts)"
  shows "\<exists>s'. (\<forall>fn. Once (Some ops) key fn opts token now1 now2 s = (Ret None, s')) \<and> invar s' \<and>
     stored s' key = Some (finished, e)"
  using begin_held[OF assms(1-3), of token "oc_lock (onceConfigOf opts)"] assms(4-6)
  by (auto simp: Once_def Let_def)

text \<open>An effect another run holds: \<open>Once\<close> reports \<open>ErrInProgress\<close> without running it.\<close>

lemma once_in_progress:
  assumes "invar s" "stored s key = Some (h, e)" "now1 < e" "h \<noteq> finished"
    and "key \<noteq> ''''" "0 < oc_keep (onceConfigOf opts)" "0 < oc_lock (onceConfigOf opts)"
  shows "\<exists>s'. (\<forall>fn. Once (Some ops) key fn opts token now1 now2 s = (Ret (Some (EWrap key (ESent ErrInProgress))), s')) \<and>
     invar s' \<and> stored s' key = Some (h, e)"
  using begin_held[OF assms(1-3), of token "oc_lock (onceConfigOf opts)"] assms(4-7)
  by (auto simp: Once_def Let_def)

text \<open>
  A free key: the effect runs with the lock held. Its success is recorded; its error or its panic
  is passed on and the lock is released.
\<close>

lemma once_runs:
  assumes "invar s" "\<And>h e. stored s key = Some (h, e) \<Longrightarrow> e \<le> now1"
    and "key \<noteq> ''''" "0 < oc_keep (onceConfigOf opts)" "0 < oc_lock (onceConfigOf opts)"
    and fn: "\<And>s1. invar s1 \<Longrightarrow> stored s1 key = Some (token, now1 + oc_lock (onceConfigOf opts)) \<Longrightarrow>
      \<exists>s2. fn s1 = (result, s2) \<and> invar s2 \<and> stored s2 key = Some (token, now1 + oc_lock (onceConfigOf opts))"
    and "now2 < now1 + oc_lock (onceConfigOf opts)"
  shows "\<exists>s'. Once (Some ops) key fn opts token now1 now2 s = (result, s') \<and> invar s' \<and>
     stored s' key = (if result = Ret None then Some (finished, now2 + oc_keep (onceConfigOf opts)) else None)"
proof -
  let ?cfg = "onceConfigOf opts"
  obtain s1 where
    s1: "os_Begin ops s key token (oc_lock ?cfg) now1 = (Inr OnceAcquired, s1)"
      "invar s1" "stored s1 key = Some (token, now1 + oc_lock ?cfg)"
    using begin_free[OF assms(1), of key now1 token "oc_lock ?cfg"] assms(2) by blast
  from fn[OF s1(2,3)] obtain s2 where
    s2: "fn s1 = (result, s2)" "invar s2" "stored s2 key = Some (token, now1 + oc_lock ?cfg)" by blast
  from finish_held[OF s2(2,3) assms(7)] obtain s3 where
    s3: "os_Finish ops s2 key token (oc_keep ?cfg) now2 = (Inr (), s3)" "invar s3"
      "stored s3 key = Some (finished, now2 + oc_keep ?cfg)" by blast
  from abandon_held[OF s2(2,3)] obtain s4 where
    s4: "os_Abandon ops s2 key token = (Inr (), s4)" "invar s4" "stored s4 key = None" by blast
  show ?thesis
  proof (cases "result = Ret None")
    case True
    with s1(1) s2(1) s3 assms(3-5) show ?thesis by (simp add: Once_def Let_def)
  next
    case False
    then have "Once (Some ops) key fn opts token now1 now2 s = abandonOnce ops key token result s2"
      using s1(1) s2(1) assms(3-5) by (auto simp: Once_def Let_def split: appCall.splits option.splits)
    with False s4 show ?thesis by (simp add: abandonOnce_def)
  qed
qed

end

subsection \<open>MemoryQueue as a store\<close>

definition mq_stored :: "MemoryQueue \<Rightarrow> string \<Rightarrow> (string \<times> gotime) option" where
  "mq_stored q key = map_option (\<lambda>c. (mc_holder c, mc_expires c)) (map_of (mq_once q) key)"

lemma mq_stored_Some: "mq_stored q key = Some (h, e) \<longleftrightarrow> map_of (mq_once q) key = Some \<lparr>mc_holder = h, mc_expires = e\<rparr>"
  by (auto simp: mq_stored_def intro: memoryClaim.equality)

lemma BeginOnce_free:
  assumes "mq_ok q" "\<And>c. map_of (mq_once q) key = Some c \<Longrightarrow> mc_expires c \<le> now"
  shows "mq_BeginOnce q key token lock now = (OnceAcquired, snd (mq_BeginOnce q key token lock now))"
proof -
  have "\<not> now < mc_expires c" if "map_of (mq_once (sweepClaims q now)) key = Some c" for c
    using sweepClaims_live(2)[OF assms(1), of now key c] that assms(2) by fastforce
  then show ?thesis by (auto simp: mq_BeginOnce_def Let_def split: option.splits)
qed

interpretation mem_store: once_store mem_once mq_ok mq_stored onceDoneMarker
proof
  fix s key h e and now :: gotime and token :: string and lock :: duration
  assume a: "mq_ok s" "mq_stored s key = Some (h, e)" "now < e"
  then have c: "map_of (mq_once s) key = Some \<lparr>mc_holder = h, mc_expires = e\<rparr>" by (simp add: mq_stored_Some)
  have "map_of (mq_once (snd (mq_BeginOnce s key token lock now))) key = Some \<lparr>mc_holder = h, mc_expires = e\<rparr>"
    using once_kept[OF a(1) c, of "CBeginOnce key token lock now"] a(3) by simp
  with BeginOnce_held[OF a(1) c] a(3) mq_BeginOnce_ok[OF a(1)]
  show "\<exists>s'. os_Begin mem_once s key token lock now = (Inr (if h = onceDoneMarker then OnceDone else OnceBusy), s') \<and>
      mq_ok s' \<and> mq_stored s' key = Some (h, e)" by (simp add: mem_once_def mq_stored_Some)
next
  fix s key and now :: gotime and token :: string and lock :: duration
  assume a: "mq_ok s" "\<And>h e. mq_stored s key = Some (h, e) \<Longrightarrow> e \<le> now"
  have "mq_BeginOnce s key token lock now = (OnceAcquired, snd (mq_BeginOnce s key token lock now))"
    by (rule BeginOnce_free[OF a(1)]) (use a(2) in \<open>auto simp: mq_stored_def\<close>)
  with BeginOnce_acquired[OF this] mq_BeginOnce_ok[OF a(1)]
  show "\<exists>s'. os_Begin mem_once s key token lock now = (Inr OnceAcquired, s') \<and> mq_ok s' \<and>
      mq_stored s' key = Some (token, now + lock)"
    by (metis (no_types, lifting) fst_conv mem_once_def mq_stored_Some once_ops.select_convs(1))
next
  fix s key token e and now :: gotime and keep :: duration
  assume a: "mq_ok s" "mq_stored s key = Some (token, e)" "now < e"
  with FinishOnce_held[of s key token e now keep now] mq_FinishOnce_ok[OF a(1), of key token keep now now]
  show "\<exists>s'. os_Finish mem_once s key token keep now = (Inr (), s') \<and> mq_ok s' \<and>
      mq_stored s' key = Some (onceDoneMarker, now + keep)" by (auto simp: mem_once_def mq_stored_Some)
next
  fix s key token e
  assume "mq_ok s" "mq_stored s key = Some (token, e)"
  with mq_AbandonOnce_ok[of s key token]
  show "\<exists>s'. os_Abandon mem_once s key token = (Inr (), s') \<and> mq_ok s' \<and> mq_stored s' key = None"
    by (auto simp: mem_once_def mq_stored_Some mq_AbandonOnce_def) (simp add: mq_stored_def)
qed

subsection \<open>What Once promises on the in-memory queue\<close>

text \<open>
  C25: A completed effect is not repeated. When \<open>Once\<close> finds its key free and the effect succeeds
  before the lock expires, \<open>Once\<close> returns nil; and every later \<open>Once\<close> of that key before the
  record expires returns nil without running its effect (the outcome is the same for every
  effect), whatever other calls happened in between.
\<close>

theorem once_effect_not_repeated:
  assumes "mq_reachable q" "\<forall>c. map_of (mq_once q) key = Some c \<longrightarrow> mc_expires c \<le> now1"
    and "key \<noteq> ''''" "0 < oc_keep (onceConfigOf opts)" "0 < oc_lock (onceConfigOf opts)"
    and "\<forall>q1. mq_ok q1 \<longrightarrow> mq_stored q1 key = Some (token, now1 + oc_lock (onceConfigOf opts)) \<longrightarrow>
      (\<exists>q2. fn q1 = (Ret None, q2) \<and> mq_ok q2 \<and> mq_stored q2 key = Some (token, now1 + oc_lock (onceConfigOf opts)))"
    and "now2 < now1 + oc_lock (onceConfigOf opts)"
  shows "\<exists>q'. Once (Some mem_once) key fn opts token now1 now2 q = (Ret None, q') \<and>
     (\<forall>ds t opts' token' t2.
        list_all (keepsOnce key onceDoneMarker (now2 + oc_keep (onceConfigOf opts))) ds \<longrightarrow>
        t < now2 + oc_keep (onceConfigOf opts) \<longrightarrow>
        0 < oc_keep (onceConfigOf opts') \<longrightarrow> 0 < oc_lock (onceConfigOf opts') \<longrightarrow>
        (\<exists>q''. \<forall>fn'. Once (Some mem_once) key fn' opts' token' t t2 (snd (mq_run ds q')) = (Ret None, q'')))"
proof -
  have "\<exists>q'. Once (Some mem_once) key fn opts token now1 now2 q = (Ret None, q') \<and> mq_ok q' \<and>
      mq_stored q' key = (if Ret None = (Ret None :: goerr option appCall)
        then Some (onceDoneMarker, now2 + oc_keep (onceConfigOf opts)) else None)"
    by (rule mem_store.once_runs[OF reachable_ok[OF assms(1)] _ assms(3-5) _ assms(7)])
      (use assms(2,6) in \<open>auto simp: mq_stored_def\<close>)
  then obtain q' where q': "Once (Some mem_once) key fn opts token now1 now2 q = (Ret None, q')" "mq_ok q'"
    "map_of (mq_once q') key = Some \<lparr>mc_holder = onceDoneMarker, mc_expires = now2 + oc_keep (onceConfigOf opts)\<rparr>"
    by (auto simp: mq_stored_Some)
  have "\<exists>q''. \<forall>fn'. Once (Some mem_once) key fn' opts' token' t t2 (snd (mq_run ds q')) = (Ret None, q'')"
    if "list_all (keepsOnce key onceDoneMarker (now2 + oc_keep (onceConfigOf opts))) ds"
      "t < now2 + oc_keep (onceConfigOf opts)" "0 < oc_keep (onceConfigOf opts')" "0 < oc_lock (onceConfigOf opts')"
    for ds t opts' token' t2
  proof -
    from run_once_kept[OF q'(2,3), of ds] that(1)
    have "mq_ok (snd (mq_run ds q'))"
      "mq_stored (snd (mq_run ds q')) key = Some (onceDoneMarker, now2 + oc_keep (onceConfigOf opts))"
      by (simp_all add: mq_stored_Some)
    from mem_store.once_finished[OF this that(2) assms(3) that(3,4)] show ?thesis by blast
  qed
  with q'(1) show ?thesis by blast
qed

theorem once_effect_not_repeated_witness:
  "\<exists>q'. Once (Some mem_once) ''mail-7'' (\<lambda>s. (Ret None, s)) [] ''tok'' 100 101 NewMemoryQueue = (Ret None, q') \<and>
     (\<exists>q''. \<forall>fn'. Once (Some mem_once) ''mail-7'' fn' [] ''tok2'' 500 501 (snd (mq_run [CBeginOnce ''k'' ''t'' 1 200] q')) = (Ret None, q''))"
proof -
  have cfg: "oc_keep (onceConfigOf []) = 604800000000000" "oc_lock (onceConfigOf []) = 900000000000"
    by (simp_all add: onceConfigOf_def DefaultOnceKeep_def DefaultOnceLock_def)
  have free: "\<forall>c. map_of (mq_once NewMemoryQueue) ''mail-7'' = Some c \<longrightarrow> mc_expires c \<le> 100"
    by (simp add: NewMemoryQueue_def)
  from once_effect_not_repeated[OF mq_reachable.start free, of "[]" "''tok''" "\<lambda>s. (Ret None, s)" 101]
  obtain q' where q': "Once (Some mem_once) ''mail-7'' (\<lambda>s. (Ret None, s)) [] ''tok'' 100 101 NewMemoryQueue = (Ret None, q')"
    and later: "\<And>ds t opts' token' t2.
        list_all (keepsOnce ''mail-7'' onceDoneMarker (101 + oc_keep (onceConfigOf []))) ds \<Longrightarrow>
        t < 101 + oc_keep (onceConfigOf []) \<Longrightarrow>
        0 < oc_keep (onceConfigOf opts') \<Longrightarrow> 0 < oc_lock (onceConfigOf opts') \<Longrightarrow>
        (\<exists>q''. \<forall>fn'. Once (Some mem_once) ''mail-7'' fn' opts' token' t t2 (snd (mq_run ds q')) = (Ret None, q''))"
    by (auto simp: cfg)
  from q' later[of "[CBeginOnce ''k'' ''t'' 1 200]" 500 "[]" "''tok2''" 501] show ?thesis by (auto simp: cfg)
qed

text \<open>
  A failed effect can be retried. When the effect returns an error or panics, \<open>Once\<close> passes
  that on and releases the key, so that a later \<open>Once\<close> runs its effect; while the effect was
  running, every other \<open>Once\<close> of the key reported \<open>ErrInProgress\<close> without running its own.
\<close>

theorem once_failure_releases:
  assumes "mq_reachable q" "\<forall>c. map_of (mq_once q) key = Some c \<longrightarrow> mc_expires c \<le> now1"
    and "key \<noteq> ''''" "0 < oc_keep (onceConfigOf opts)" "0 < oc_lock (onceConfigOf opts)"
    and "result \<noteq> Ret None" "token \<noteq> onceDoneMarker" "now2 < now1 + oc_lock (onceConfigOf opts)"
    and "\<forall>q1. mq_ok q1 \<longrightarrow> mq_stored q1 key = Some (token, now1 + oc_lock (onceConfigOf opts)) \<longrightarrow>
      (\<exists>q2. fn q1 = (result, q2) \<and> mq_ok q2 \<and> mq_stored q2 key = Some (token, now1 + oc_lock (onceConfigOf opts)))"
  shows "(\<exists>q'. Once (Some mem_once) key fn opts token now1 now2 q = (result, q') \<and> map_of (mq_once q') key = None) \<and>
     (\<forall>q1 t token' t2. mq_ok q1 \<longrightarrow> mq_stored q1 key = Some (token, now1 + oc_lock (onceConfigOf opts)) \<longrightarrow>
        t < now1 + oc_lock (onceConfigOf opts) \<longrightarrow>
        (\<exists>q2. \<forall>fn'. Once (Some mem_once) key fn' opts token' t t2 q1 =
           (Ret (Some (EWrap key (ESent ErrInProgress))), q2)))"
proof -
  have "\<exists>q'. Once (Some mem_once) key fn opts token now1 now2 q = (result, q') \<and> mq_ok q' \<and>
      mq_stored q' key = (if result = Ret None then Some (onceDoneMarker, now2 + oc_keep (onceConfigOf opts)) else None)"
    by (rule mem_store.once_runs[OF reachable_ok[OF assms(1)] _ assms(3-5) _ assms(8)])
      (use assms(2,9) in \<open>auto simp: mq_stored_def\<close>)
  moreover have "\<exists>q2. \<forall>fn'. Once (Some mem_once) key fn' opts token' t t2 q1 =
           (Ret (Some (EWrap key (ESent ErrInProgress))), q2)"
    if "mq_ok q1" "mq_stored q1 key = Some (token, now1 + oc_lock (onceConfigOf opts))"
      "t < now1 + oc_lock (onceConfigOf opts)" for q1 t token' t2
    using mem_store.once_in_progress[OF that assms(7,3-5)] by blast
  ultimately show ?thesis using assms(6) by (auto simp: mq_stored_def)
qed

theorem once_failure_releases_witness:
  "\<exists>q'. Once (Some mem_once) ''mail-7'' (\<lambda>s. (Panics ''boom!'', s)) [LockFor 50] ''tok'' 100 101 NewMemoryQueue = (Panics ''boom!'', q') \<and>
     map_of (mq_once q') ''mail-7'' = None"
proof -
  have cfg: "oc_keep (onceConfigOf [LockFor 50]) = 604800000000000" "oc_lock (onceConfigOf [LockFor 50]) = 50"
    by (simp_all add: onceConfigOf_def DefaultOnceKeep_def)
  have free: "\<forall>c. map_of (mq_once NewMemoryQueue) ''mail-7'' = Some c \<longrightarrow> mc_expires c \<le> 100"
    by (simp add: NewMemoryQueue_def)
  from once_failure_releases[OF mq_reachable.start free, of "[LockFor 50]" "Panics ''boom!''" "''tok''" 101
      "\<lambda>s. (Panics ''boom!'', s)"] show ?thesis by (simp add: cfg onceDoneMarker_def)
qed

end
