(* ===== verification/Jobs_Worker_Theorems.thy ===== *)
theory Jobs_Worker_Theorems
  imports Jobs_Worker Jobs_Once Jobs_Runs
begin

section \<open>What the worker promises\<close>

text \<open>
  The worker on the in-memory queue: every outcome of a run settles its job as the policy says and
  touches no other job, a job that keeps failing runs exactly \<open>MaxAttempts\<close> times and is then set
  aside, one that keeps crashing its worker is set aside too, and a renewed lease is not lost.
\<close>

subsection \<open>Settling a run\<close>

text \<open>
  C10: A run that still holds its lease is settled exactly as its outcome demands. Success removes
  the job; a run the worker canceled puts it back at once; a run that waits for another's effect
  puts it back with its attempt taken back; a permanent failure or the last allowed attempt sets it
  aside with the failure; any other failure puts it back after its backoff. No other job changes,
  and the outcome is counted once.
\<close>

theorem run_settled:
  assumes "mq_reachable q" "wk_queue w = mem_ops" "leased q d = Inr job"
    and "policy = rg_Options (wk_registry w) (env_Name (d_Envelope d))" "attempt = env_Attempt (d_Envelope d)"
  shows "\<exists>m' q'. w_process msg w m q d err False canceled started runTime now qnow = (m', q') \<and> mq_ok q' \<and>
     mq_view q' = (mq_view q)(deliveryKey d := settleView msg policy attempt err canceled now qnow (viewJob job)) \<and>
     seriesCount m' (jobLabel w (env_Name (d_Envelope d))) (d_Queue d) (settleResult policy attempt err canceled) =
       seriesCount m (jobLabel w (env_Name (d_Envelope d))) (d_Queue d) (settleResult policy attempt err canceled) + 1 \<and>
     inFlightFor m' (d_Queue d) = inFlightFor m (d_Queue d)"
proof -
  note ok = reachable_ok[OF assms(1)]
  note l = leased_Inr[THEN iffD1, OF assms(3)]
  have v: "mq_view q (deliveryKey d) = Some (viewJob job)" using l by (simp add: mq_view_def)
  have "holdsLease (mq_view q (deliveryKey d)) d" using l by (auto simp: mq_holdsLease[OF ok])
  from mem.settleRun_holds[OF assms(2) ok _ this v assms(4,5), of msg err canceled now qnow] l
  obtain q' where "settleRun msg w q d err False canceled now qnow = (settleResult policy attempt err canceled, q')"
    "mq_ok q'" "mq_view q' = (mq_view q)(deliveryKey d := settleView msg policy attempt err canceled now qnow (viewJob job))"
    by blast
  then show ?thesis by (simp add: w_process_def Let_def)
qed

definition demoWorker :: "(unit, MemoryQueue) Worker" where
  "demoWorker = \<lparr>wk_registry = demoRegistry, wk_queue = mem_ops,
     wk_opts = \<lparr>wo_Queues = [''default''], wo_Concurrency = 1, wo_Lease = 30, wo_PollInterval = Second,
       wo_ShutdownTimeout = 30 * Second\<rparr>\<rparr>"

theorem run_settled_witness:
  "\<exists>m' q'. w_process (\<lambda>e. ''boom'') demoWorker NewMetrics demoTaken demoDelivery None False False 111 5 116 116 = (m', q') \<and>
     mq_view q' (''default'', ''a'') = None \<and> mq_view q' (''default'', ''c'') = mq_view demoTaken (''default'', ''c'') \<and>
     seriesCount m' ''mail'' ''default'' ResultSucceeded = 1"
proof -
  let ?job = "jobAt demoTaken (''default'', ''a'')"
  have l: "leased demoTaken demoDelivery = Inr ?job" by code_simp
  have d: "deliveryKey demoDelivery = (''default'', ''a'')" "env_Name (d_Envelope demoDelivery) = ''mail''"
    "d_Queue demoDelivery = ''default''" "jobLabel demoWorker ''mail'' = ''mail''" by code_simp+
  have w: "wk_queue demoWorker = mem_ops" by (simp add: demoWorker_def)
  from run_settled[OF demoTaken_reachable w l refl refl, of "\<lambda>e. ''boom''" NewMetrics None False 111 5 116 116]
  show ?thesis unfolding d by (auto simp: settleView_def settleResult_def seriesCount_def NewMetrics_def)
qed

text \<open>
  A run that lost its lease settles nothing. Whatever it returned, when the queue no longer
  knows its receipt the queue is unchanged, and the run is counted as abandoned.
\<close>

theorem lost_run_settles_nothing:
  assumes "mq_reachable q" "wk_queue w = mem_ops" "\<not> mq_closed q" "leased q d = Inl ErrLeaseLost"
  shows "\<exists>m'. w_process msg w m q d err lost canceled started runTime now qnow = (m', q) \<and>
     seriesCount m' (jobLabel w (env_Name (d_Envelope d))) (d_Queue d) ResultAbandoned =
       seriesCount m (jobLabel w (env_Name (d_Envelope d))) (d_Queue d) ResultAbandoned + 1"
proof -
  note ok = reachable_ok[OF assms(1)]
  have "\<not> holdsLease (mq_view q (deliveryKey d)) d"
    using mq_leased(3)[OF ok assms(3), of d] assms(4) by auto
  with mem.settleRun_lost[OF assms(2) ok, of lost d msg err canceled now qnow] assms(3) show ?thesis
    by (simp add: w_process_def Let_def)
qed

theorem lost_run_settles_nothing_witness:
  "\<exists>m'. w_process (\<lambda>e. ''boom'') demoWorker NewMetrics demoQueue demoDelivery None False False 111 5 116 116 = (m', demoQueue) \<and>
     seriesCount m' ''mail'' ''default'' ResultAbandoned = 1"
proof -
  have l: "leased demoQueue demoDelivery = Inl ErrLeaseLost" "\<not> mq_closed demoQueue" by code_simp+
  have d: "env_Name (d_Envelope demoDelivery) = ''mail''"
    "d_Queue demoDelivery = ''default''" "jobLabel demoWorker ''mail'' = ''mail''" by code_simp+
  have w: "wk_queue demoWorker = mem_ops" by (simp add: demoWorker_def)
  from lost_run_settles_nothing[OF demo_reachable w l(2,1), of "\<lambda>e. ''boom''" NewMetrics None False False 111 5 116 116]
  show ?thesis unfolding d by (simp add: seriesCount_def NewMetrics_def)
qed

subsection \<open>A job that keeps failing\<close>

text \<open>
  A round of a worker on one job. Before it, anyone makes the calls \<open>rd_before\<close>. The worker takes a
  job at the queue's clock \<open>rd_qnow\<close>; while the job runs, the calls \<open>rd_during\<close> are made (renewals of
  the lease among them); the run returns \<open>rd_err\<close>, and the worker settles it at its own clock
  \<open>rd_now\<close> and the queue's \<open>rd_qnow2\<close>.
\<close>

record 'c round =
  rd_worker :: "('c, MemoryQueue) Worker"
  rd_before :: "mq_call list"
  rd_receipt :: string
  rd_qnow :: gotime
  rd_during :: "mq_call list"
  rd_err :: "goerr option"
  rd_now :: gotime
  rd_qnow2 :: gotime

definition roundReserve ::
  "(goerr \<Rightarrow> string) \<Rightarrow> 'c round \<Rightarrow> Metrics \<times> MemoryQueue \<Rightarrow> reserve_result \<times> Metrics \<times> MemoryQueue" where
  "roundReserve msg rd st =
     w_reserve msg (rd_worker rd) (fst st) (snd (mq_run (rd_before rd) (snd st))) (rd_receipt rd) (rd_qnow rd)
       (rd_now rd) (rd_qnow2 rd)"

definition workRound ::
  "(goerr \<Rightarrow> string) \<Rightarrow> 'c round \<Rightarrow> Metrics \<times> MemoryQueue \<Rightarrow> Metrics \<times> MemoryQueue" where
  "workRound msg rd st =
     (case roundReserve msg rd st of
        (RDelivery d, m2, q2) \<Rightarrow>
          w_process msg (rd_worker rd) m2 (snd (mq_run (rd_during rd) q2)) d (rd_err rd) False False
            (rd_now rd) 0 (rd_now rd) (rd_qnow2 rd)
      | (_, m2, q2) \<Rightarrow> (m2, q2))"

definition retryable :: "goerr option \<Rightarrow> bool" where
  "retryable err \<longleftrightarrow>
     (case err of None \<Rightarrow> False | Some e \<Rightarrow> \<not> errors_Is e ErrInProgress \<and> \<not> IsPermanent err)"

text \<open>
  The round runs the job \<open>k\<close> and it fails with a retryable error: the calls before it neither deliver
  the job to anyone nor push or retry it nor close the queue, the worker is the one that gets it, and
  the lease is held until the run is settled.
\<close>

definition failedRun :: "(goerr \<Rightarrow> string) \<Rightarrow> memoryKey \<Rightarrow> 'c round \<Rightarrow> Metrics \<times> MemoryQueue \<Rightarrow> bool" where
  "failedRun msg k rd st \<longleftrightarrow>
     list_all (\<lambda>c. call_ok c \<and> c \<noteq> CClose \<and> \<not> revives k c) (rd_before rd) \<and>
     \<not> list_ex (delivers k) (fst (mq_run (rd_before rd) (snd st))) \<and>
     (case roundReserve msg rd st of (RDelivery d, _) \<Rightarrow> deliveryKey d = k | _ \<Rightarrow> False) \<and>
     rd_receipt rd \<noteq> '''' \<and>
     holdsThrough k (rd_receipt rd) (rd_qnow rd + wo_Lease (wk_opts (rd_worker rd))) (rd_during rd) \<and>
     retryable (rd_err rd)"

fun failingRuns :: "(goerr \<Rightarrow> string) \<Rightarrow> memoryKey \<Rightarrow> 'c round list \<Rightarrow> Metrics \<times> MemoryQueue \<Rightarrow> bool" where
  "failingRuns msg k [] st \<longleftrightarrow> True"
| "failingRuns msg k (rd # rds) st \<longleftrightarrow> failedRun msg k rd st \<and> failingRuns msg k rds (workRound msg rd st)"

definition worksFor :: "Options \<Rightarrow> string \<Rightarrow> 'c round \<Rightarrow> bool" where
  "worksFor policy name rd \<longleftrightarrow>
     wk_queue (rd_worker rd) = mem_ops \<and> rg_Options (wk_registry (rd_worker rd)) name = policy"

lemma w_reserve_RDelivery:
  "w_reserve msg w m q receipt qnow now qnow2 = (RDelivery d, m', q') \<Longrightarrow>
   op_Reserve (wk_queue w) q (wo_Queues (wk_opts w)) (wo_Lease (wk_opts w)) receipt qnow = (Inr d, q')"
  by (auto simp: w_reserve_def Let_def split_beta prod_eq_iff split: prod.splits sum.splits option.splits if_splits)

lemma failedRunD:
  assumes "failedRun msg k rd (m, q)" "wk_queue (rd_worker rd) = mem_ops"
  obtains d m2 q1 q2 where "q1 = snd (mq_run (rd_before rd) q)" "roundReserve msg rd (m, q) = (RDelivery d, m2, q2)"
    "mq_Reserve q1 (wo_Queues (wk_opts (rd_worker rd))) (wo_Lease (wk_opts (rd_worker rd))) (rd_receipt rd) (rd_qnow rd) = (Inr d, q2)"
    "deliveryKey d = k"
    "list_all call_ok (rd_before rd)" "CClose \<notin> set (rd_before rd)" "list_ex (revives k) (rd_before rd) = False"
    "list_ex (delivers k) (fst (mq_run (rd_before rd) q)) = False"
proof -
  from assms(1) obtain d m2 q2 where r: "roundReserve msg rd (m, q) = (RDelivery d, m2, q2)" "deliveryKey d = k"
    by (auto simp: failedRun_def split: prod.splits reserve_result.splits)
  from w_reserve_RDelivery[OF r(1)[unfolded roundReserve_def]] assms(2)
  have "mq_Reserve (snd (mq_run (rd_before rd) q)) (wo_Queues (wk_opts (rd_worker rd))) (wo_Lease (wk_opts (rd_worker rd)))
     (rd_receipt rd) (rd_qnow rd) = (Inr d, q2)" by (simp add: mem_ops_def)
  with assms(1) r show thesis by (intro that[OF refl]) (auto simp: failedRun_def list_all_iff list_ex_iff)
qed

lemma round_fails:
  assumes "mq_ok q" "\<not> mq_closed q" "mq_view q k = Some v" "jv_state v = Waiting at"
    and "worksFor policy (env_Name (jv_env v)) rd" "failedRun msg k rd (m, q)"
  shows "\<exists>m' q' v'. workRound msg rd (m, q) = (m', q') \<and> mq_ok q' \<and> \<not> mq_closed q' \<and>
     mq_view q' k = Some v' \<and> jv_env v' = jv_env v \<and> jv_attempts v' = jv_attempts v + 1 \<and>
     (if o_MaxAttempts policy \<le> jv_attempts v + 1 then \<exists>f. jv_state v' = GivenUp f \<and> f_Reason f = ReasonExhausted
      else \<exists>at'. jv_state v' = Waiting at')"
proof -
  let ?w = "rd_worker rd"
  have w: "wk_queue ?w = mem_ops" using assms(5) by (simp add: worksFor_def)
  obtain d m2 q1 q2 where q1: "q1 = snd (mq_run (rd_before rd) q)"
    and rr: "roundReserve msg rd (m, q) = (RDelivery d, m2, q2)"
    and res: "mq_Reserve q1 (wo_Queues (wk_opts ?w)) (wo_Lease (wk_opts ?w)) (rd_receipt rd) (rd_qnow rd) = (Inr d, q2)"
    and dk: "deliveryKey d = k"
    and cs: "list_all call_ok (rd_before rd)" "CClose \<notin> set (rd_before rd)"
      "list_ex (delivers k) (fst (mq_run (rd_before rd) q)) = False"
    by (rule failedRunD[OF assms(6) w])
  from assms(3,4) obtain j where j: "map_of (mq_jobs q) k = Some j" "v = viewJob j" "\<not> mj_reserved j" "mj_failure j = None"
    by (auto simp: mq_view_def viewJob_def split: option.splits if_splits)
  have ok1: "mq_ok q1" "\<not> mq_closed q1" "map_of (mq_jobs q1) k = Some j"
    using mq_run_ok[OF assms(1) cs(1)] run_waiting_kept[OF assms(1) j(1,3,4) cs] cs(2) assms(2)
    by (simp_all add: q1 mq_run_closed)
  let ?j = "leaseJob j (rd_receipt rd) (rd_qnow rd) (wo_Lease (wk_opts ?w))"
  have q2: "q2 = putJob q1 k ?j" and d: "d_Envelope d = (mj_env j)\<lparr>env_Attempt := mj_attempts j + 1\<rparr>" "d_Receipt d = rd_receipt rd"
    using reserve_takes[OF ok1(1) res] ok1(3) dk by auto
  have r: "rd_receipt rd \<noteq> ''''" and held: "holdsThrough k (rd_receipt rd) (rd_qnow rd + wo_Lease (wk_opts ?w)) (rd_during rd)"
    and err: "retryable (rd_err rd)" using assms(6) by (auto simp: failedRun_def)
  have ok2: "mq_ok q2" using mq_Reserve_ok[OF ok1(1) r, of "wo_Queues (wk_opts ?w)" "wo_Lease (wk_opts ?w)" "rd_qnow rd"] res by simp
  let ?q3 = "snd (mq_run (rd_during rd) q2)"
  have "mq_ok ?q3 \<and> \<not> mq_closed ?q3 \<and> (\<exists>t. map_of (mq_jobs ?q3) k = Some (?j\<lparr>mj_leaseDeadline := t\<rparr>))"
    by (rule run_held[OF ok2]) (use ok1(2) held in \<open>simp_all add: q2 putJob_def leaseJob_def\<close>)
  then obtain t where q3: "mq_ok ?q3" "\<not> mq_closed ?q3" "map_of (mq_jobs ?q3) k = Some (?j\<lparr>mj_leaseDeadline := t\<rparr>)" by blast
  let ?v1 = "v\<lparr>jv_attempts := jv_attempts v + 1, jv_state := LeasedTo (rd_receipt rd) t\<rparr>"
  have vk: "mq_view ?q3 (deliveryKey d) = Some ?v1"
    using q3(3) j(2,4) by (simp add: dk mq_view_def viewJob_def leaseJob_def)
  have hl: "holdsLease (mq_view ?q3 (deliveryKey d)) d" unfolding vk using d(2) r by (simp add: holdsLease_def)
  have pol: "policy = rg_Options (wk_registry ?w) (env_Name (d_Envelope d))" "jv_attempts v + 1 = env_Attempt (d_Envelope d)"
    using assms(5) by (simp_all add: worksFor_def d(1) j(2))
  from mem.settleRun_holds[OF w q3(1,2) hl vk pol, of msg "rd_err rd" False "rd_now rd" "rd_qnow2 rd"]
  obtain q' where s: "snd (settleRun msg ?w ?q3 d (rd_err rd) False False (rd_now rd) (rd_qnow2 rd)) = q'"
    "mq_ok q'" "\<not> mq_closed q'"
    "mq_view q' k = settleView msg policy (jv_attempts v + 1) (rd_err rd) False (rd_now rd) (rd_qnow2 rd) ?v1"
    unfolding dk by auto
  from err obtain e where "rd_err rd = Some e" "\<not> errors_Is e ErrInProgress" "\<not> IsPermanent (Some e)"
    by (auto simp: retryable_def split: option.splits)
  then have "\<exists>v'. mq_view q' k = Some v' \<and> jv_env v' = jv_env v \<and> jv_attempts v' = jv_attempts v + 1 \<and>
     (if o_MaxAttempts policy \<le> jv_attempts v + 1 then \<exists>f. jv_state v' = GivenUp f \<and> f_Reason f = ReasonExhausted
      else \<exists>at'. jv_state v' = Waiting at')"
    unfolding s(4) by (auto simp: settleView_def stampFailure_def giveUpFailure_def)
  moreover have "\<exists>m'. workRound msg rd (m, q) = (m', q')"
    using s(1) by (auto simp: workRound_def rr w_process_def Let_def split_beta)
  ultimately show ?thesis using s(2,3) by blast
qed

lemma setAside_view: "mq_view q k = Some v \<Longrightarrow> jv_state v = GivenUp f \<Longrightarrow> setAside q k"
  by (auto simp: mq_view_def setAside_def viewJob_def split: option.splits if_splits)

text \<open>A job that was set aside does not run again.\<close>

lemma setAside_no_run:
  assumes "mq_ok q" "setAside q k" "wk_queue (rd_worker rd) = mem_ops"
  shows "\<not> failedRun msg k rd (m, q)"
proof
  assume fr: "failedRun msg k rd (m, q)"
  obtain d m2 q1 q2 where q1: "q1 = snd (mq_run (rd_before rd) q)"
    and res: "mq_Reserve q1 (wo_Queues (wk_opts (rd_worker rd))) (wo_Lease (wk_opts (rd_worker rd))) (rd_receipt rd) (rd_qnow rd) = (Inr d, q2)"
    and d: "deliveryKey d = k" and cs: "list_all call_ok (rd_before rd)" "list_ex (revives k) (rd_before rd) = False"
    by (rule failedRunD[OF fr assms(3)])
  have "setAside q1 k" "mq_ok q1" using run_setAside[OF assms(1,2) cs] mq_run_ok[OF assms(1) cs(1)] by (simp_all add: q1)
  from setAside_reserve(2)[OF this(2,1)] res d show False by (metis fst_conv)
qed

lemma failing_runs:
  assumes "mq_ok q" "\<not> mq_closed q" "mq_view q k = Some v" "jv_state v = Waiting at" "jv_attempts v < o_MaxAttempts policy"
    and "list_all (worksFor policy (env_Name (jv_env v))) rds" "failingRuns msg k rds (m, q)"
  shows "jv_attempts v + int (length rds) \<le> o_MaxAttempts policy \<and>
     (\<exists>m' q' v'. fold (workRound msg) rds (m, q) = (m', q') \<and> mq_ok q' \<and>
        mq_view q' k = Some v' \<and> jv_env v' = jv_env v \<and> jv_attempts v' = jv_attempts v + int (length rds) \<and>
        (if jv_attempts v + int (length rds) = o_MaxAttempts policy
         then \<exists>f. jv_state v' = GivenUp f \<and> f_Reason f = ReasonExhausted
         else \<exists>at'. jv_state v' = Waiting at'))"
  using assms
proof (induction rds arbitrary: q v at m)
  case Nil
  then show ?case by auto
next
  case (Cons rd rds)
  from Cons.prems(6,7) have "worksFor policy (env_Name (jv_env v)) rd" "failedRun msg k rd (m, q)" by simp_all
  from round_fails[OF Cons.prems(1-4) this] obtain m1 q1 v1 where
    round: "workRound msg rd (m, q) = (m1, q1)" "mq_ok q1" "\<not> mq_closed q1" "mq_view q1 k = Some v1"
      "jv_env v1 = jv_env v" "jv_attempts v1 = jv_attempts v + 1"
      "if o_MaxAttempts policy \<le> jv_attempts v + 1 then \<exists>f. jv_state v1 = GivenUp f \<and> f_Reason f = ReasonExhausted
       else \<exists>at'. jv_state v1 = Waiting at'" by blast
  show ?case
  proof (cases "o_MaxAttempts policy \<le> jv_attempts v + 1")
    case True
    with round(7) obtain f where f: "jv_state v1 = GivenUp f" "f_Reason f = ReasonExhausted" by auto
    have "rds = []"
    proof (cases rds)
      case (Cons rd2 rds2)
      with Cons.prems(6,7) round(1) have "wk_queue (rd_worker rd2) = mem_ops" "failedRun msg k rd2 (m1, q1)"
        by (simp_all add: worksFor_def)
      with setAside_no_run[OF round(2) setAside_view[OF round(4) f(1)]] show ?thesis by blast
    qed simp
    with True round f Cons.prems(5) show ?thesis by simp
  next
    case False
    with round(7) obtain at' where at': "jv_state v1 = Waiting at'" by auto
    from Cons.IH[OF round(2-4) at' _ _ , of m1] False Cons.prems(6,7) round(1,5,6) show ?thesis
      by (simp add: add.assoc)
  qed
qed

text \<open>
  C5: A job that keeps failing runs exactly \<open>MaxAttempts\<close> times. Take any job that waits in an
  in-memory queue with no attempts yet, beside whatever other jobs, and any history in which workers
  run it again and again (any workers whose registry gives it the same policy), other callers doing
  what they like before and during each run, as long as every run fails with a retryable error and is
  settled while it holds its lease, and nobody pushes or retries the job or closes the queue. There are at most
  \<open>MaxAttempts\<close> such runs. After each of the first \<open>MaxAttempts - 1\<close> the job waits with that many
  attempts counted; after the last it is set aside as exhausted, and whatever calls follow, no
  \<open>Reserve\<close> delivers it again unless it is retried or pushed anew.
\<close>

theorem failing_job_exhausted:
  assumes "mq_reachable q" "\<not> mq_closed q" "mq_view q k = Some v" "jv_state v = Waiting at" "jv_attempts v = 0"
    and "1 \<le> o_MaxAttempts policy" "list_all (worksFor policy (env_Name (jv_env v))) rds"
    and "failingRuns msg k rds (m, q)" "q' = snd (fold (workRound msg) rds (m, q))"
  shows "int (length rds) \<le> o_MaxAttempts policy \<and>
     (\<exists>v'. mq_view q' k = Some v' \<and> jv_env v' = jv_env v \<and> jv_attempts v' = int (length rds) \<and>
       (if int (length rds) = o_MaxAttempts policy
        then (\<exists>f. jv_state v' = GivenUp f \<and> f_Reason f = ReasonExhausted) \<and>
             (\<forall>cs. list_all (\<lambda>c. call_ok c \<and> \<not> revives k c) cs \<longrightarrow> \<not> list_ex (delivers k) (fst (mq_run cs q')))
        else \<exists>at'. jv_state v' = Waiting at'))"
proof -
  have r: "jv_attempts v + int (length rds) \<le> o_MaxAttempts policy \<and>
     (\<exists>m' q' v'. fold (workRound msg) rds (m, q) = (m', q') \<and> mq_ok q' \<and>
        mq_view q' k = Some v' \<and> jv_env v' = jv_env v \<and> jv_attempts v' = jv_attempts v + int (length rds) \<and>
        (if jv_attempts v + int (length rds) = o_MaxAttempts policy
         then \<exists>f. jv_state v' = GivenUp f \<and> f_Reason f = ReasonExhausted
         else \<exists>at'. jv_state v' = Waiting at'))"
    by (rule failing_runs[OF reachable_ok[OF assms(1)] assms(2-4) _ assms(7,8)]) (use assms(5,6) in simp)
  then obtain v' where v': "mq_ok q'" "mq_view q' k = Some v'" "jv_env v' = jv_env v" "jv_attempts v' = int (length rds)"
    "if int (length rds) = o_MaxAttempts policy then \<exists>f. jv_state v' = GivenUp f \<and> f_Reason f = ReasonExhausted
     else \<exists>at'. jv_state v' = Waiting at'"
    using assms(5,9) by auto
  have gone: "\<not> list_ex (delivers k) (fst (mq_run cs q'))"
    if "jv_state v' = GivenUp f" "list_all (\<lambda>c. call_ok c \<and> \<not> revives k c) cs" for f cs
    using run_setAside[OF v'(1) setAside_view[OF v'(2) that(1)], of cs] that(2) by (auto simp: list_all_iff list_ex_iff)
  from v'(5) have "if int (length rds) = o_MaxAttempts policy
        then (\<exists>f. jv_state v' = GivenUp f \<and> f_Reason f = ReasonExhausted) \<and>
             (\<forall>cs. list_all (\<lambda>c. call_ok c \<and> \<not> revives k c) cs \<longrightarrow> \<not> list_ex (delivers k) (fst (mq_run cs q')))
        else \<exists>at'. jv_state v' = Waiting at'"
    using gone by (cases "int (length rds) = o_MaxAttempts policy") (simp, blast, simp)
  with r v'(2-4) assms(5) show ?thesis by simp
qed

text \<open>
  Five runs in a queue with two other jobs, another worker taking one of them during the first run
  and settling it, and a push before every run.
\<close>

definition demoRound :: "int \<Rightarrow> string \<Rightarrow> mq_call list \<Rightarrow> unit round" where
  "demoRound i jid during = \<lparr>rd_worker = demoWorker, rd_before = [CPush ''low'' (demoEnv jid) 0 (i * Hour)],
     rd_receipt = ''r'', rd_qnow = i * Hour, rd_during = during,
     rd_err = Some (EJob KindHandler ''mail'' 2 (Some (EMsg ''boom''))), rd_now = i * Hour + 5, rd_qnow2 = i * Hour + 6\<rparr>"

definition demoRounds :: "unit round list" where
  "demoRounds = [demoRound 1 ''p1'' [CReserve [''default''] 30 ''r2'' Hour,
       CAck (deliveryOf ''default'' (jobAt demoQueue (''default'', ''c'')) ''r2''),
       CExtend (demoDelivery\<lparr>d_Receipt := ''r''\<rparr>) 30 (Hour + 1)],
     demoRound 2 ''p2'' [], demoRound 3 ''p3'' [], demoRound 4 ''p4'' [], demoRound 5 ''p5'' []]"

theorem failing_job_exhausted_witness:
  "let q' = snd (fold (workRound (\<lambda>e. ''boom'')) demoRounds (NewMetrics, demoQueue)) in
     \<exists>v f. mq_view q' (''default'', ''a'') = Some v \<and> jv_attempts v = 5 \<and> jv_state v = GivenUp f \<and>
       f_Reason f = ReasonExhausted \<and>
       \<not> list_ex (delivers (''default'', ''a'')) (fst (mq_run [CReserve [''default''] 30 ''r9'' (9 * Hour)] q'))"
proof -
  let ?k = "(''default'', ''a'')"
  let ?v = "viewJob (jobAt demoQueue ?k)"
  let ?policy = "rg_Options demoRegistry ''mail''"
  have q: "\<not> mq_closed demoQueue" "mq_view demoQueue ?k = Some ?v" "jv_state ?v = Waiting 100" "jv_attempts ?v = 0"
    "o_MaxAttempts ?policy = 5" "env_Name (jv_env ?v) = ''mail''" by code_simp+
  have len: "length demoRounds = 5" by (simp add: demoRounds_def)
  have works: "list_all (worksFor ?policy (env_Name (jv_env ?v))) demoRounds"
    unfolding q(6) by (simp add: demoRounds_def demoRound_def worksFor_def demoWorker_def)
  have runs: "failingRuns (\<lambda>e. ''boom'') ?k demoRounds (NewMetrics, demoQueue)" by code_simp
  have "1 \<le> o_MaxAttempts ?policy" by (simp add: q(5))
  from failing_job_exhausted[OF demo_reachable q(1-4) this works runs refl] show ?thesis
    unfolding Let_def q(5) len by (auto simp del: mq_run.simps mq_run_Cons)
qed

subsection \<open>A job that keeps crashing its worker\<close>

text \<open>
  C37: A job that takes its worker down with it is set aside too. A delivery whose lease had expired
  and whose attempt exceeds \<open>MaxAttempts\<close> is not run: the worker sets the job aside as exhausted
  and changes no other job. Whatever the worker does run is within \<open>MaxAttempts\<close>, or was not left
  over by another worker.
\<close>

theorem crashing_job_set_aside:
  assumes "mq_reachable q" "wk_queue w = mem_ops" "receipt \<noteq> ''''"
    and "mq_Reserve q (wo_Queues (wk_opts w)) (wo_Lease (wk_opts w)) receipt qnow = (Inr d, q1)"
    and "limit = o_MaxAttempts (rg_Options (wk_registry w) (env_Name (d_Envelope d)))"
  shows "if d_LeaseExpired d \<and> limit < env_Attempt (d_Envelope d)
     then \<exists>m' q' v f. w_reserve msg w m q receipt qnow now qnow2 = (RSetAside, m', q') \<and>
       mq_view q' = (mq_view q1)(deliveryKey d \<mapsto> v) \<and> jv_state v = GivenUp f \<and> f_Reason f = ReasonExhausted
     else w_reserve msg w m q receipt qnow now qnow2 = (RDelivery d, m, q1)"
proof -
  note ok = reachable_ok[OF assms(1)]
  have op: "op_Reserve mem_ops q (wo_Queues (wk_opts w)) (wo_Lease (wk_opts w)) receipt qnow = (Inr d, q1)"
    using assms(4) by (simp add: mem_ops_def)
  from mem.reserve_Inr[OF ok assms(3) op] have q1: "mq_ok q1" "\<not> mq_closed q1" "d_Err d = None"
    by (auto simp: reserves_def)
  have held: "holdsLease (mq_view q1 (deliveryKey d)) d" by (rule mem.reserve_holds[OF ok assms(3) op])
  then obtain v where v: "mq_view q1 (deliveryKey d) = Some v" by (auto simp: holdsLease_def split: option.splits)
  have "\<exists>q'. mq_Bury q1 d (giveUpFailure msg exhaustErr now) qnow2 = (Inr (), q') \<and> mq_ok q' \<and> \<not> mq_closed q' \<and>
    mq_view q' = (mq_view q1)(deliveryKey d := Some (v\<lparr>jv_state := GivenUp (stampFailure (giveUpFailure msg exhaustErr now) qnow2)\<rparr>))"
    using mem.settle_ok[OF mem.bury q1(1,2) held v] by (simp add: mem_ops_def)
  then obtain q' where b: "mq_Bury q1 d (giveUpFailure msg exhaustErr now) qnow2 = (Inr (), q')"
    "mq_view q' = (mq_view q1)(deliveryKey d \<mapsto> v\<lparr>jv_state := GivenUp (stampFailure (giveUpFailure msg exhaustErr now) qnow2)\<rparr>)"
    by blast
  have "f_Reason (stampFailure (giveUpFailure msg exhaustErr now) qnow2) = ReasonExhausted"
    by (simp add: stampFailure_def giveUpFailure_def IsPermanent_def exhaustErr_def Classify_def)
  with b assms(2,4,5) q1(3) show ?thesis
    by (auto simp: w_reserve_def mem_ops_def w_giveUp_def Let_def)
qed

text \<open>Five workers that died on the same job, one after another.\<close>

definition demoCrashes :: MemoryQueue where
  "demoCrashes = snd (mq_run (CPush ''default'' (demoEnv ''a'') 0 100 #
     map (\<lambda>i. CReserve [''default''] 30 ''r'' (i * 100)) [1, 2, 3, 4, 5]) NewMemoryQueue)"

theorem crashing_job_set_aside_witness:
  "\<exists>m' q' v f. w_reserve (\<lambda>e. ''died'') demoWorker NewMetrics demoCrashes ''r6'' 700 700 700 = (RSetAside, m', q') \<and>
     mq_view q' (''default'', ''a'') = Some v \<and> jv_state v = GivenUp f \<and> f_Reason f = ReasonExhausted"
proof -
  have reach: "mq_reachable demoCrashes"
    unfolding demoCrashes_def by (rule run_reachable[OF mq_reachable.start]) simp
  let ?r = "mq_Reserve demoCrashes (wo_Queues (wk_opts demoWorker)) (wo_Lease (wk_opts demoWorker)) ''r6'' 700"
  have r: "\<not> isl (fst ?r)" "d_LeaseExpired (projr (fst ?r))" "env_Attempt (d_Envelope (projr (fst ?r))) = 6"
    "o_MaxAttempts (rg_Options (wk_registry demoWorker) (env_Name (d_Envelope (projr (fst ?r))))) = 5"
    "deliveryKey (projr (fst ?r)) = (''default'', ''a'')" by code_simp+
  have w: "wk_queue demoWorker = mem_ops" by (simp add: demoWorker_def)
  from crashing_job_set_aside[OF reach w _ outcome_Inr[OF r(1)] refl, of "\<lambda>e. ''died''" NewMetrics 700 700] r
  show ?thesis by auto
qed

subsection \<open>Renewing a lease\<close>

text \<open>
  The renewing goroutine of one run: between its ticks other callers make calls of their own.
\<close>

fun renewRun ::
  "('c, MemoryQueue) Worker \<Rightarrow> Delivery \<Rightarrow> (mq_call list \<times> gotime) list \<Rightarrow> MemoryQueue \<Rightarrow> renewal list \<times> MemoryQueue" where
  "renewRun w d [] q = ([], q)"
| "renewRun w d ((cs, t) # ticks) q =
     (let (r, q1) = renewTick w (snd (mq_run cs q)) d False t; (rs, q2) = renewRun w d ticks q1 in (r # rs, q2))"

text \<open>Each tick comes before the deadline the previous one set, as far as other callers can see.\<close>

fun renewedInTime :: "memoryKey \<Rightarrow> string \<Rightarrow> duration \<Rightarrow> gotime \<Rightarrow> (mq_call list \<times> gotime) list \<Rightarrow> bool" where
  "renewedInTime k receipt lease deadline [] \<longleftrightarrow> True"
| "renewedInTime k receipt lease deadline ((cs, t) # ticks) \<longleftrightarrow>
     list_all (leavesLease k receipt deadline) cs \<and> renewedInTime k receipt lease (t + lease) ticks"

lemma run_leased_kept:
  assumes "mq_ok q" "leased q d = Inr j" "list_all (leavesLease (deliveryKey d) (d_Receipt d) (mj_leaseDeadline j)) cs"
  shows "mq_ok (snd (mq_run cs q))" "leased (snd (mq_run cs q)) d = Inr j"
proof -
  note l = leased_Inr[THEN iffD1, OF assms(2)]
  show "mq_ok (snd (mq_run cs q))"
    by (rule mq_run_ok[OF assms(1)]) (use assms(3) in \<open>auto simp: list_all_iff intro: leavesLease_ok\<close>)
  from run_lease_kept[OF assms(1), of "deliveryKey d" j cs] l assms(3)
  show "leased (snd (mq_run cs q)) d = Inr j"
    using leavesLease_open[OF assms(3)] by (simp add: leased_Inr mq_run_closed)
qed

lemma renewRun_kept:
  assumes "mq_ok q" "leased q d = Inr j" "wk_queue w = mem_ops" "0 < wo_Lease (wk_opts w)"
    and "renewedInTime (deliveryKey d) (d_Receipt d) (wo_Lease (wk_opts w)) (mj_leaseDeadline j) ticks"
  shows "(\<forall>r \<in> set (fst (renewRun w d ticks q)). r = Renewing) \<and>
     (\<exists>j'. leased (snd (renewRun w d ticks q)) d = Inr j' \<and> mj_env j' = mj_env j \<and> mj_attempts j' = mj_attempts j)"
  using assms
proof (induction ticks arbitrary: q j)
  case (Cons tick ticks)
  obtain cs t where tick: "tick = (cs, t)" by (cases tick)
  from Cons.prems(5) have cs: "list_all (leavesLease (deliveryKey d) (d_Receipt d) (mj_leaseDeadline j)) cs"
    and rest: "renewedInTime (deliveryKey d) (d_Receipt d) (wo_Lease (wk_opts w)) (t + wo_Lease (wk_opts w)) ticks"
    by (simp_all add: tick)
  note q1 = run_leased_kept[OF Cons.prems(1,2) cs]
  let ?q1 = "snd (mq_run cs q)"
  let ?j = "j\<lparr>mj_leaseDeadline := t + wo_Lease (wk_opts w)\<rparr>"
  let ?q2 = "putJob ?q1 (deliveryKey d) ?j"
  have ext: "mq_Extend ?q1 d (wo_Lease (wk_opts w)) t = (Inr (), ?q2)"
    using Cons.prems(4) q1(2) by (simp add: mq_Extend_def)
  have "mq_ok ?q2" using mq_Extend_ok[OF q1(1), of d "wo_Lease (wk_opts w)" t] ext by simp
  moreover have "leased ?q2 d = Inr ?j"
    using leased_Inr[THEN iffD1, OF q1(2)] by (simp add: leased_Inr putJob_def)
  ultimately have IH: "(\<forall>r \<in> set (fst (renewRun w d ticks ?q2)). r = Renewing) \<and>
     (\<exists>j'. leased (snd (renewRun w d ticks ?q2)) d = Inr j' \<and> mj_env j' = mj_env ?j \<and> mj_attempts j' = mj_attempts ?j)"
    using Cons.IH[of ?q2 ?j] Cons.prems(3,4) rest by simp
  have "renewTick w ?q1 d False t = (Renewing, ?q2)"
    using ext by (simp add: renewTick_def Cons.prems(3) mem_ops_def)
  with IH show ?case by (simp add: tick split_beta)
qed simp

text \<open>
  C17: A renewed lease is not lost. As long as every tick comes before the deadline the one before it
  set, whatever other callers do, every tick renews, the job is never delivered to anyone else, and
  after the run its holder can still settle it.
\<close>

theorem renewed_lease_kept:
  assumes "mq_reachable q" "leased q d = Inr j" "wk_queue w = mem_ops" "0 < wo_Lease (wk_opts w)"
    and "renewedInTime (deliveryKey d) (d_Receipt d) (wo_Lease (wk_opts w)) (mj_leaseDeadline j) ticks"
  shows "(\<forall>r \<in> set (fst (renewRun w d ticks q)). r = Renewing) \<and>
     (\<exists>j' q'. leased (snd (renewRun w d ticks q)) d = Inr j' \<and> mj_env j' = mj_env j \<and>
        mq_Ack (snd (renewRun w d ticks q)) d = (Inr (), q'))"
  using renewRun_kept[OF reachable_ok[OF assms(1)] assms(2-5)] by (auto simp: mq_Ack_eq)

definition demoTicks :: "(mq_call list \<times> gotime) list" where
  "demoTicks = [([CReserve [''default''] 30 ''r2'' 119], 120), ([CReserve [''default''] 30 ''r3'' 149], 130),
     ([CReserve [''default''] 30 ''r4'' 159], 140)]"

theorem renewed_lease_kept_witness:
  "list_all (\<lambda>r. r = Renewing) (fst (renewRun demoWorker demoDelivery demoTicks demoTaken)) \<and>
   (\<exists>q'. mq_Ack (snd (renewRun demoWorker demoDelivery demoTicks demoTaken)) demoDelivery = (Inr (), q'))"
proof -
  let ?j = "jobAt demoTaken (''default'', ''a'')"
  have l: "leased demoTaken demoDelivery = Inr ?j" by code_simp
  have w: "wk_queue demoWorker = mem_ops" "0 < wo_Lease (wk_opts demoWorker)" by (simp_all add: demoWorker_def)
  have t: "renewedInTime (deliveryKey demoDelivery) (d_Receipt demoDelivery) (wo_Lease (wk_opts demoWorker))
      (mj_leaseDeadline ?j) demoTicks" by code_simp
  from renewed_lease_kept[OF demoTaken_reachable l w t] show ?thesis unfolding list_all_iff by blast
qed

subsection \<open>Waiting for an unreachable queue\<close>

lemma reserveBackoffLoop_eq:
  assumes "0 \<le> wait" "in_int64 wait"
  shows "min maxReserveBackoff (reserveBackoffLoop n wait) = min maxReserveBackoff (wait * 2 ^ n)"
  using assms
proof (induction n arbitrary: wait)
  case (Suc n)
  show ?case
  proof (cases "wait < maxReserveBackoff")
    case True
    with Suc.prems have "in_int64 (wait * 2)" by (simp add: int64_defs maxReserveBackoff_def)
    with True Suc show ?thesis by (simp add: mult.assoc)
  next
    case False
    have "(1 :: int) \<le> 2 ^ Suc n" by (rule one_le_power) simp
    then have "wait * 1 \<le> wait * 2 ^ Suc n" using Suc.prems(1) by (rule mult_left_mono)
    with False show ?thesis by simp
  qed
qed simp

text \<open>
  An unreachable queue is polled ever more slowly, and never more slowly than every 30 seconds.
  After \<open>n\<close> consecutive failures the loop waits the poll interval doubled \<open>n - 1\<close> times, capped,
  with no overflow; a \<open>Reserve\<close> that reaches the queue resets the count.
\<close>

theorem reserve_backoff_capped:
  assumes "0 \<le> wo_PollInterval opts" "in_int64 (wo_PollInterval opts)" "0 \<le> failures" "\<not> Is_queue err ErrNoJob"
  shows "afterReserve opts False (RErr err) failures =
       (WaitThen (min maxReserveBackoff (wo_PollInterval opts * 2 ^ nat failures)), failures + 1) \<and>
     snd (afterReserve opts False (RErr ErrNoJob) failures) = 0 \<and>
     snd (afterReserve opts False (RDelivery d) failures) = 0"
  using reserveBackoffLoop_eq[OF assms(1,2), of "nat failures"] assms(3,4)
  by (auto simp: afterReserve_def reserveBackoff_def Let_def Is_queue_def)

theorem reserve_backoff_capped_witness:
  "afterReserve (wk_opts demoWorker) False (RErr QueueUnavailable) 3 = (WaitThen (8 * Second), 4) \<and>
   afterReserve (wk_opts demoWorker) False (RErr QueueUnavailable) 40 = (WaitThen (30 * Second), 41)"
proof -
  have o: "wo_PollInterval (wk_opts demoWorker) = Second" by (simp add: demoWorker_def)
  from reserve_backoff_capped[of "wk_opts demoWorker" 3 QueueUnavailable]
    reserve_backoff_capped[of "wk_opts demoWorker" 40 QueueUnavailable]
  show ?thesis by (simp add: o int64_defs Is_queue_def maxReserveBackoff_def)
qed

end
