(* ===== verification/Jobs_Dispatcher.thy ===== *)
theory Jobs_Dispatcher
  imports Jobs_Registry Jobs_Runs
begin

section \<open>Dispatching jobs\<close>

text \<open>
  \<open>src/jobs/dispatcher.go\<close>: what application code calls to queue a job. \<open>Open\<close> and
  \<open>OpenWithRedis\<close> only connect to a server and are not modelled. The dispatch options
  \<open>Unique\<close> and \<open>UniqueFor\<close> are those of \<open>src/jobs/unique.go\<close>.
\<close>

subsection \<open>Definitions\<close>

datatype JobsDriver = JobsDriverUnset | JobsDriverSync | JobsDriverMemory | JobsDriverRedis

definition DefaultJobsQueue :: string where "DefaultJobsQueue = ''default''"

record ('c, 'q) Dispatcher =
  dp_registry :: "'c Registry"
  dp_queue :: "'q queue_ops option"
  dp_driver :: JobsDriver
  dp_defaultQueue :: string

datatype DispatcherOption = WithDefaultQueue string | withDriver JobsDriver

fun applyDispatcherOption :: "DispatcherOption \<Rightarrow> ('c, 'q) Dispatcher \<Rightarrow> ('c, 'q) Dispatcher" where
  "applyDispatcherOption (WithDefaultQueue name) d = d\<lparr>dp_defaultQueue := name\<rparr>"
| "applyDispatcherOption (withDriver driver) d = d\<lparr>dp_driver := driver\<rparr>"

definition NewDispatcher ::
  "'c Registry \<Rightarrow> 'q queue_ops option \<Rightarrow> DispatcherOption list \<Rightarrow> ('c, 'q) Dispatcher" where
  "NewDispatcher registry queue opts =
     fold applyDispatcherOption opts
       \<lparr>dp_registry = registry, dp_queue = queue,
        dp_driver = (case queue of Some _ \<Rightarrow> JobsDriverUnset | None \<Rightarrow> JobsDriverSync),
        dp_defaultQueue = DefaultJobsQueue\<rparr>"

record dispatchConfig =
  dc_queue :: string
  dc_delay :: duration
  dc_at :: gotime
  dc_unique :: "UniqueKey option"

datatype DispatchOption = OnQueue string | Delay duration | At gotime
  | Unique string duration | UniqueFor string duration

fun applyDispatchOption :: "DispatchOption \<Rightarrow> dispatchConfig \<Rightarrow> dispatchConfig" where
  "applyDispatchOption (OnQueue name) c = c\<lparr>dc_queue := name\<rparr>"
| "applyDispatchOption (Delay d) c = c\<lparr>dc_delay := d, dc_at := 0\<rparr>"
| "applyDispatchOption (At t) c = c\<lparr>dc_at := t, dc_delay := 0\<rparr>"
| "applyDispatchOption (Unique key ttl) c =
     c\<lparr>dc_unique := Some \<lparr>uk_Key = key, uk_TTL = ttl, uk_UntilDone = True\<rparr>\<rparr>"
| "applyDispatchOption (UniqueFor key window) c =
     c\<lparr>dc_unique := Some \<lparr>uk_Key = key, uk_TTL = window, uk_UntilDone = False\<rparr>\<rparr>"

definition dispatchConfigOf :: "('c, 'q) Dispatcher \<Rightarrow> DispatchOption list \<Rightarrow> dispatchConfig" where
  "dispatchConfigOf d opts =
     fold applyDispatchOption opts \<lparr>dc_queue = dp_defaultQueue d, dc_delay = 0, dc_at = 0, dc_unique = None\<rparr>"

text \<open>When the job becomes available: zero means at once.\<close>

definition dispatchAtTime :: "dispatchConfig \<Rightarrow> gotime \<Rightarrow> gotime" where
  "dispatchAtTime cfg now = (if 0 < dc_delay cfg then now + dc_delay cfg else dc_at cfg)"

text \<open>
  \<open>Dispatch\<close>. \<open>Inl\<close> is an error with no envelope; \<open>Inr\<close> the envelope, with the job's own failure
  when it ran at once. \<open>enow\<close>, \<open>now\<close> and \<open>qnow\<close> are the clocks of the registry, the dispatcher
  and the queue; \<open>newID\<close> the new job's ID.
\<close>

definition Dispatch ::
  "('c, 'q) Dispatcher \<Rightarrow> 'c \<Rightarrow> jobValue option \<Rightarrow> DispatchOption list \<Rightarrow> string \<Rightarrow> gotime \<Rightarrow> gotime \<Rightarrow> gotime \<Rightarrow> 'q
   \<Rightarrow> (goerr, Envelope \<times> goerr option, 'q) outcome" where
  "Dispatch d ctx job opts newID enow now qnow q =
     (let cfg = dispatchConfigOf d opts in
      if \<not> ValidName (dc_queue cfg) then (Inl (EQueue (ErrInvalidQueue (dc_queue cfg))), q)
      else if dc_delay cfg < 0 then (Inl (EMsg ''jobs: negative delay''), q)
      else (case (case dc_unique cfg of None \<Rightarrow> None | Some u \<Rightarrow> unique_validate u) of
        Some err \<Rightarrow> (Inl (EQueue err), q)
      | None \<Rightarrow>
          (case rg_Encode (dp_registry d) ctx job newID enow of
             Inl err \<Rightarrow> (Inl err, q)
           | Inr env \<Rightarrow>
               (case dp_queue d of
                  None \<Rightarrow>
                    let env' = env\<lparr>env_Attempt := 1\<rparr> in (Inr (env', rg_Run (dp_registry d) ctx env'), q)
                | Some ops \<Rightarrow>
                    let at = dispatchAtTime cfg now;
                        (res, q') = (case dc_unique cfg of
                                       Some u \<Rightarrow> op_PushUnique ops q (dc_queue cfg) env at u qnow
                                     | None \<Rightarrow> op_Push ops q (dc_queue cfg) env at qnow)
                    in (case res of Inl err \<Rightarrow> Inl (EQueue err) | Inr _ \<Rightarrow> Inr (env, None), q')))))"

definition DispatchAt ::
  "('c, 'q) Dispatcher \<Rightarrow> 'c \<Rightarrow> jobValue option \<Rightarrow> gotime \<Rightarrow> DispatchOption list \<Rightarrow> string \<Rightarrow> gotime \<Rightarrow> gotime \<Rightarrow> gotime \<Rightarrow> 'q
   \<Rightarrow> (goerr, Envelope \<times> goerr option, 'q) outcome" where
  "DispatchAt d ctx job when opts newID enow now qnow q =
     Dispatch d ctx job (opts @ [At when]) newID enow now qnow q"

definition dp_Close :: "('c, 'q) Dispatcher \<Rightarrow> 'q \<Rightarrow> 'q" where
  "dp_Close d q = (case dp_queue d of None \<Rightarrow> q | Some ops \<Rightarrow> op_Close ops q)"

subsection \<open>Lemmas\<close>

lemma dispatchConfig_At:
  "dc_delay (dispatchConfigOf d (opts @ [At when])) = 0" "dc_at (dispatchConfigOf d (opts @ [At when])) = when"
  by (simp_all add: dispatchConfigOf_def)

text \<open>A dispatch over a queue that succeeded pushed the encoded envelope; one that failed pushed nothing.\<close>

lemma Dispatch_Inr:
  assumes "Dispatch d ctx job opts newID enow now qnow q = (Inr (env, err), q')" "dp_queue d = Some ops"
  defines "cfg \<equiv> dispatchConfigOf d opts"
  shows "err = None \<and> rg_Encode (dp_registry d) ctx job newID enow = Inr env \<and> ValidName (dc_queue cfg) \<and>
     0 \<le> dc_delay cfg \<and>
     (case dc_unique cfg of
        None \<Rightarrow> op_Push ops q (dc_queue cfg) env (dispatchAtTime cfg now) qnow = (Inr (), q')
      | Some u \<Rightarrow> op_PushUnique ops q (dc_queue cfg) env (dispatchAtTime cfg now) u qnow = (Inr (), q'))"
  using assms(1,2) unfolding cfg_def[symmetric] Dispatch_def Let_def
  by (auto simp: cfg_def[symmetric] split_beta prod_eq_iff split: if_splits option.splits sum.splits)

lemma storeJob_view:
  assumes "mq_view q (queue, env_ID env) = None"
  shows "mq_view (storeJob q queue env at u now) = (mq_view q)((queue, env_ID env) \<mapsto>
     \<lparr>jv_env = env\<lparr>env_Attempt := 0\<rparr>, jv_attempts = 0, jv_state = Waiting (clampAt at now)\<rparr>)"
  by (rule ext, cases u) (simp_all add: storeJob_def newJob_def mq_view_def viewJob_def Let_def)

lemma push_view:
  assumes "push q queue env at u n1 n2 n3 = (Inr (), q')"
  shows "mq_view q (queue, env_ID env) = None"
    and "mq_view q' = (mq_view q)((queue, env_ID env) \<mapsto>
     \<lparr>jv_env = env\<lparr>env_Attempt := 0\<rparr>, jv_attempts = 0, jv_state = Waiting (clampAt at n3)\<rparr>)"
proof -
  from assms obtain q1 where q1: "q' = storeJob q1 queue env at u n3" "mq_jobs q1 = mq_jobs q"
    "map_of (mq_jobs q) (queue, env_ID env) = None"
    by (cases rule: push_cases) auto
  then show "mq_view q (queue, env_ID env) = None" by (simp add: mq_view_def)
  then show "mq_view q' = (mq_view q)((queue, env_ID env) \<mapsto>
     \<lparr>jv_env = env\<lparr>env_Attempt := 0\<rparr>, jv_attempts = 0, jv_state = Waiting (clampAt at n3)\<rparr>)"
    using storeJob_view[of q1 queue env at u n3] mq_view_jobs[OF q1(2)] q1(1) by simp
qed

lemma dispatch_view:
  assumes "dp_queue d = Some mem_ops"
    and "Dispatch d ctx job opts newID enow now qnow q = (Inr (env, err), q')" "cfg = dispatchConfigOf d opts"
  shows "err = None \<and>
     rg_Encode (dp_registry d) ctx job newID enow = Inr env \<and> mq_view q (dc_queue cfg, env_ID env) = None \<and>
     mq_view q' = (mq_view q)((dc_queue cfg, env_ID env) \<mapsto>
       \<lparr>jv_env = env\<lparr>env_Attempt := 0\<rparr>, jv_attempts = 0,
        jv_state = Waiting (clampAt (if 0 < dc_delay cfg then now + dc_delay cfg else dc_at cfg) qnow)\<rparr>)"
proof -
  from Dispatch_Inr[OF assms(2) assms(1), folded assms(3)]
  have e: "err = None" "rg_Encode (dp_registry d) ctx job newID enow = Inr env"
    and p: "case dc_unique cfg of
      None \<Rightarrow> op_Push mem_ops q (dc_queue cfg) env (dispatchAtTime cfg now) qnow = (Inr (), q')
    | Some u \<Rightarrow> op_PushUnique mem_ops q (dc_queue cfg) env (dispatchAtTime cfg now) u qnow = (Inr (), q')"
    by blast+
  then obtain u where "push q (dc_queue cfg) env (dispatchAtTime cfg now) u qnow qnow qnow = (Inr (), q')"
    by (auto simp: mem_ops_def mq_Push_def mq_PushUnique_def split: option.splits)
  from push_view[OF this] e show ?thesis by (simp add: dispatchAtTime_def)
qed

text \<open>The dispatched job waits in the queue, among whatever else is there.\<close>

lemma dispatch_waits:
  assumes "dp_queue d = Some mem_ops" "mq_ok q" "cfg = dispatchConfigOf d opts"
    and "Dispatch d ctx job opts newID enow now qnow q = (Inr (env, err), q')"
  shows "mq_ok q'" "\<not> mq_closed q'" "ValidName (dc_queue cfg)"
    and "\<exists>j. map_of (mq_jobs q') (dc_queue cfg, env_ID env) = Some j \<and> \<not> mj_reserved j \<and> mj_failure j = None \<and>
      mj_env j = env\<lparr>env_Attempt := 0\<rparr> \<and> mj_attempts j = 0 \<and> mj_availableAt j = clampAt (dispatchAtTime cfg now) qnow"
proof -
  note inr = Dispatch_Inr[OF assms(4,1), folded assms(3)]
  then show valid: "ValidName (dc_queue cfg)" by blast
  from inr obtain u where p: "push q (dc_queue cfg) env (dispatchAtTime cfg now) u qnow qnow qnow = (Inr (), q')"
    and u: "\<And>u'. u = Some u' \<Longrightarrow> unique_validate u' = None"
    by (auto simp: mem_ops_def mq_Push_def mq_PushUnique_def split: option.splits)
  show "mq_ok q'" using push_ok[OF assms(2), of u] p u by (force simp: unique_validate_def split: if_splits)
  have "\<not> mq_closed q" using p by (auto simp: push_def split: if_splits)
  then show "\<not> mq_closed q'" using push_closed[of q "dc_queue cfg" env "dispatchAtTime cfg now" u qnow qnow qnow] p by simp
  from push_view(2)[OF p] have "mq_view q' (dc_queue cfg, env_ID env) =
      Some \<lparr>jv_env = env\<lparr>env_Attempt := 0\<rparr>, jv_attempts = 0, jv_state = Waiting (clampAt (dispatchAtTime cfg now) qnow)\<rparr>"
    by simp
  then show "\<exists>j. map_of (mq_jobs q') (dc_queue cfg, env_ID env) = Some j \<and> \<not> mj_reserved j \<and> mj_failure j = None \<and>
      mj_env j = env\<lparr>env_Attempt := 0\<rparr> \<and> mj_attempts j = 0 \<and> mj_availableAt j = clampAt (dispatchAtTime cfg now) qnow"
    by (auto simp: mq_view_def viewJob_def split: option.splits if_splits)
qed

text \<open>
  A dispatched job is stored once, where and for when its options say, and a refused one is not
  stored. Over the in-memory queue, a \<open>Dispatch\<close> that returns an envelope put exactly that envelope,
  with no attempts, on the chosen queue, available after its delay or at its time and never before
  the queue's now; one that returns an error left every job as it was. \<open>DispatchAt\<close> puts it at its
  time whatever delay the options name.
\<close>

theorem dispatch_stores_once:
  assumes "dp_queue d = Some mem_ops"
    and "Dispatch d ctx job opts newID enow now qnow q = (res, q')" "cfg = dispatchConfigOf d opts"
  shows "(\<forall>env err. res = Inr (env, err) \<longrightarrow> err = None \<and>
       rg_Encode (dp_registry d) ctx job newID enow = Inr env \<and> mq_view q (dc_queue cfg, env_ID env) = None \<and>
       mq_view q' = (mq_view q)((dc_queue cfg, env_ID env) \<mapsto>
         \<lparr>jv_env = env\<lparr>env_Attempt := 0\<rparr>, jv_attempts = 0,
          jv_state = Waiting (clampAt (if 0 < dc_delay cfg then now + dc_delay cfg else dc_at cfg) qnow)\<rparr>)) \<and>
     (\<forall>e. res = Inl e \<longrightarrow> mq_view q' = mq_view q) \<and>
     (\<forall>when opts'. opts = opts' @ [At when] \<longrightarrow> dispatchAtTime cfg now = when)"
proof -
  have "err = None \<and>
       rg_Encode (dp_registry d) ctx job newID enow = Inr env \<and> mq_view q (dc_queue cfg, env_ID env) = None \<and>
       mq_view q' = (mq_view q)((dc_queue cfg, env_ID env) \<mapsto>
         \<lparr>jv_env = env\<lparr>env_Attempt := 0\<rparr>, jv_attempts = 0,
          jv_state = Waiting (clampAt (if 0 < dc_delay cfg then now + dc_delay cfg else dc_at cfg) qnow)\<rparr>)"
    if r: "res = Inr (env, err)" for env err
    using dispatch_view[OF assms(1) assms(2)[unfolded r] assms(3)] .
  moreover have "mq_view q' = mq_view q" if r: "res = Inl e" for e
  proof -
    have *: "mq_view (snd (push q queue env at u n n n)) = mq_view q"
      if "fst (push q queue env at u n n n) = Inl e'" for queue env at u n e'
    proof (cases "push q queue env at u n n n")
      case (Pair r' q'')
      then show ?thesis
      proof (cases rule: push_cases)
        case (refused e)
        then show ?thesis unfolding Pair by (auto intro: mq_view_jobs)
      qed (use that Pair in simp)
    qed
    show ?thesis
      using assms(1,2) r
      by (auto simp: Dispatch_def Let_def split_beta mem_ops_def mq_Push_def mq_PushUnique_def *
          split: if_splits option.splits sum.splits)
  qed
  ultimately show ?thesis by (auto simp: assms(3) dispatchAtTime_def dispatchConfig_At)
qed

definition demoDispatcher :: "(unit, MemoryQueue) Dispatcher" where
  "demoDispatcher = NewDispatcher demoRegistry (Some mem_ops) []"

theorem dispatch_stores_once_witness:
  "let r = Dispatch demoDispatcher () (Some demoJob) [Delay 50] ''id-1'' 100 100 100 NewMemoryQueue in
     \<not> isl (fst r) \<and>
     mq_view (snd r) (''default'', ''id-1'') =
       Some \<lparr>jv_env = fst (projr (fst r)), jv_attempts = 0, jv_state = Waiting 150\<rparr>"
proof -
  let ?r = "Dispatch demoDispatcher () (Some demoJob) [Delay 50] ''id-1'' 100 100 100 NewMemoryQueue"
  let ?env = "fst (projr (fst ?r))"
  have r: "\<not> isl (fst ?r)" "env_ID ?env = ''id-1''" "env_Attempt ?env = 0" by code_simp+
  have d: "dp_queue demoDispatcher = Some mem_ops" by (simp add: demoDispatcher_def NewDispatcher_def)
  have cfg: "dispatchConfigOf demoDispatcher [Delay 50] =
      \<lparr>dc_queue = ''default'', dc_delay = 50, dc_at = 0, dc_unique = None\<rparr>"
    by (simp add: dispatchConfigOf_def demoDispatcher_def NewDispatcher_def DefaultJobsQueue_def)
  have env: "?env\<lparr>env_Attempt := 0\<rparr> = ?env" using r(3) by (cases ?env) simp
  have inr: "?r = (Inr (?env, snd (projr (fst ?r))), snd ?r)" using outcome_Inr[OF r(1)] by simp
  from dispatch_stores_once[OF d inr refl, THEN conjunct1, rule_format, OF refl]
  have "mq_view (snd ?r) = (mq_view NewMemoryQueue)((''default'', env_ID ?env) \<mapsto>
      \<lparr>jv_env = ?env\<lparr>env_Attempt := 0\<rparr>, jv_attempts = 0, jv_state = Waiting 150\<rparr>)"
    unfolding cfg by (simp add: clampAt_def IsZero_def)
  then have "mq_view (snd ?r) (''default'', ''id-1'') = Some \<lparr>jv_env = ?env, jv_attempts = 0, jv_state = Waiting 150\<rparr>"
    unfolding env r(2) by simp
  with r(1) show ?thesis unfolding Let_def by simp
qed

end
