(* ===== verification/Go_Numbers.thy ===== *)
theory Go_Numbers
  imports Gombit_Prelude
begin

section \<open>Decimal numerals and JSON integers\<close>

text \<open>
  What the source uses of Go's number formatting: \<open>strconv.FormatInt\<close> and
  \<open>json.Marshal\<close> of an \<open>int64\<close> (both write the plain decimal numeral), and
  \<open>json.Unmarshal\<close> into a \<open>*int64\<close>, which takes a JSON integer in the 64-bit range or
  \<open>null\<close> and refuses everything else. The round trip between them is proved here.
\<close>

definition isDigit :: "char \<Rightarrow> bool" where
  "isDigit c \<longleftrightarrow> 48 \<le> (of_char c :: nat) \<and> (of_char c :: nat) \<le> 57"

definition digitChar :: "nat \<Rightarrow> char" where
  "digitChar d = char_of (48 + d)"

definition digitVal :: "char \<Rightarrow> nat" where
  "digitVal c = of_char c - 48"

fun natDigits :: "nat \<Rightarrow> string" where
  "natDigits n = (if n < 10 then [digitChar n] else natDigits (n div 10) @ [digitChar (n mod 10)])"

declare natDigits.simps [simp del]

definition digitsVal :: "string \<Rightarrow> nat" where
  "digitsVal ds = foldl (\<lambda>a c. 10 * a + digitVal c) 0 ds"

definition FormatInt :: "int \<Rightarrow> string" where
  "FormatInt i = (if i < 0 then CHR ''-'' # natDigits (nat (- i)) else natDigits (nat i))"

text \<open>A JSON integer literal: no leading zero, an optional minus sign.\<close>

definition jsonNatural :: "string \<Rightarrow> bool" where
  "jsonNatural ds \<longleftrightarrow> ds \<noteq> [] \<and> list_all isDigit ds \<and> (hd ds = CHR ''0'' \<longrightarrow> length ds = 1)"

fun jsonInteger :: "string \<Rightarrow> int option" where
  "jsonInteger [] = None"
| "jsonInteger (c # cs) =
     (if c = CHR ''-'' then (if jsonNatural cs then Some (- int (digitsVal cs)) else None)
      else if jsonNatural (c # cs) then Some (int (digitsVal (c # cs))) else None)"

definition jsonSpace :: "char \<Rightarrow> bool" where
  "jsonSpace c \<longleftrightarrow> c = CHR '' '' \<or> c = CHR 0x09 \<or> c = CHR 0x0A \<or> c = CHR 0x0D"

definition jsonTrim :: "string \<Rightarrow> string" where
  "jsonTrim s = rev (dropWhile jsonSpace (rev (dropWhile jsonSpace s)))"

text \<open>\<open>json.Unmarshal(payload, &stored)\<close> for \<open>stored *int64\<close>: \<open>None\<close> is its error,
  \<open>Some None\<close> the pointer left nil by \<open>null\<close>.\<close>

definition unmarshalInt64Ptr :: "string \<Rightarrow> int option option" where
  "unmarshalInt64Ptr payload = (let s = jsonTrim payload in
     if s = ''null'' then Some None
     else (case jsonInteger s of None \<Rightarrow> None
           | Some i \<Rightarrow> if in_int64 i then Some (Some i) else None))"

subsection \<open>The round trip\<close>

lemma digitVal_digitChar [simp]: "d < 10 \<Longrightarrow> digitVal (digitChar d) = d"
  by (simp add: digitVal_def digitChar_def)

lemma isDigit_digitChar [simp]: "d < 10 \<Longrightarrow> isDigit (digitChar d)"
  by (simp add: isDigit_def digitChar_def)

lemma digitChar_0 [simp]: "d < 10 \<Longrightarrow> digitChar d = CHR ''0'' \<longleftrightarrow> d = 0"
  by (auto simp: digitChar_def char_of_eq_iff take_bit_eq_mod)

lemma natDigits_nonempty [simp]: "natDigits n \<noteq> []"
  by (subst natDigits.simps) simp

lemma natDigits_digits: "list_all isDigit (natDigits n)"
  by (induction n rule: natDigits.induct) (subst natDigits.simps, simp)

lemma digitsVal_natDigits [simp]: "digitsVal (natDigits n) = n"
  by (induction n rule: natDigits.induct)
    (subst natDigits.simps, auto simp: digitsVal_def)

lemma natDigits_hd: "hd (natDigits n) = CHR ''0'' \<longleftrightarrow> n = 0"
proof (induction n rule: natDigits.induct)
  case (1 n)
  then show ?case by (subst natDigits.simps) (auto simp: hd_append)
qed

lemma natDigits_natural: "jsonNatural (natDigits n)"
proof -
  have "length (natDigits 0) = 1" by (subst natDigits.simps) simp
  then show ?thesis using natDigits_hd[of n] by (auto simp: jsonNatural_def natDigits_digits)
qed

lemma isDigit_not_minus: "isDigit c \<Longrightarrow> c \<noteq> CHR ''-''"
  by (auto simp: isDigit_def)

lemma isDigit_not_space: "isDigit c \<Longrightarrow> \<not> jsonSpace c"
  by (auto simp: isDigit_def jsonSpace_def)

lemma jsonInteger_FormatInt: "jsonInteger (FormatInt i) = Some i"
proof (cases "i < 0")
  case False
  obtain c cs where c: "natDigits (nat i) = c # cs" by (cases "natDigits (nat i)") auto
  have "isDigit c" using natDigits_digits[of "nat i"] c by simp
  then have "jsonInteger (natDigits (nat i)) = Some (int (digitsVal (natDigits (nat i))))"
    using natDigits_natural[of "nat i"] c isDigit_not_minus by simp
  then show ?thesis using False by (simp add: FormatInt_def)
qed (simp add: FormatInt_def natDigits_natural)

lemma jsonTrim_id:
  assumes "s \<noteq> []" "\<not> jsonSpace (hd s)" "\<not> jsonSpace (last s)"
  shows "jsonTrim s = s"
proof -
  have "dropWhile jsonSpace s = s" using assms by (cases s) auto
  moreover have "dropWhile jsonSpace (rev s) = rev s" using assms by (cases s rule: rev_cases) auto
  ultimately show ?thesis by (simp add: jsonTrim_def)
qed

lemma FormatInt_trim: "jsonTrim (FormatInt i) = FormatInt i"
proof (rule jsonTrim_id)
  have d: "isDigit (hd (natDigits n))" "isDigit (last (natDigits n))" for n
    using natDigits_digits[of n] by (auto simp: list_all_iff)
  show "\<not> jsonSpace (hd (FormatInt i))" "\<not> jsonSpace (last (FormatInt i))"
    using d isDigit_not_space by (auto simp: FormatInt_def jsonSpace_def)
qed (simp add: FormatInt_def)

lemma jsonInteger_null: "jsonInteger ''null'' = None"
  by code_simp

lemma FormatInt_not_null: "FormatInt i \<noteq> ''null''"
  using jsonInteger_FormatInt[of i] jsonInteger_null by auto

lemma unmarshal_FormatInt [simp]: "in_int64 i \<Longrightarrow> unmarshalInt64Ptr (FormatInt i) = Some (Some i)"
  by (simp add: unmarshalInt64Ptr_def FormatInt_trim FormatInt_not_null jsonInteger_FormatInt)

lemma unmarshal_range: "unmarshalInt64Ptr p = Some (Some i) \<Longrightarrow> in_int64 i"
  by (auto simp: unmarshalInt64Ptr_def Let_def split: if_splits option.splits)

end
