(* ===== verification/Cache_Memory.thy ===== *)
theory Cache_Memory
  imports Go_Numbers
begin

section \<open>The in-process cache\<close>

text \<open>
  The memory driver of \<open>cache/memory.go\<close>: a map of encoded values with an optional deadline.
  Every method is one definition. The readings of the clock are arguments, one per call of
  \<open>m.now()\<close> in the method, so that a deadline may pass between two readings of one call;
  \<open>ctx\<close> is what \<open>ctx.Err()\<close> returned. A value enters as the outcome of its
  \<open>json.Marshal\<close>, and a destination is the decoder of its type (\<open>None\<close> for a nil
  destination), since both belong to the application.

  The second half gives the driver's specification on the entries that are alive, shows that each
  method refines it, and that removing expired entries, by the janitor or by a \<open>Get\<close>, is
  never observed.
\<close>

datatype cache_error =
    DriverErr string        \<comment> \<open>the error of a context or of another driver\<close>
  | NegativeTTL duration
  | CounterTTL duration
  | MarshalErr string
  | UnmarshalErr string
  | NotInteger
  | WouldOverflow
  | NilStore

type_synonym ctxErr = "cache_error option"
type_synonym encoded = "string + string"
type_synonym 'v dst = "(string \<Rightarrow> string + 'v) option"

definition cache_encode :: "encoded \<Rightarrow> cache_error + string" where
  "cache_encode v = (case v of Inl e \<Rightarrow> Inl (MarshalErr e) | Inr payload \<Rightarrow> Inr payload)"

definition cache_decode :: "string \<Rightarrow> 'v dst \<Rightarrow> cache_error + 'v option" where
  "cache_decode payload dst = (case dst of None \<Rightarrow> Inr None
     | Some f \<Rightarrow> (case f payload of Inl e \<Rightarrow> Inl (UnmarshalErr e) | Inr v \<Rightarrow> Inr (Some v)))"

definition validateCounterTTL :: "duration \<Rightarrow> cache_error option" where
  "validateCounterTTL ttl = (if ttl \<le> 0 then Some (CounterTTL ttl) else None)"

definition validateTTL :: "duration \<Rightarrow> cache_error option" where
  "validateTTL ttl = (if ttl < 0 then Some (NegativeTTL ttl) else None)"

record memoryItem =
  mi_payload :: string
  mi_expiresAt :: gotime

text \<open>\<open>mc_janitor\<close> is the state of the goroutine \<open>WithJanitor\<close> starts: absent (\<open>m.stop\<close> is
  nil), running, or stopped by \<open>Close\<close>.\<close>

datatype janitor = NoJanitor | JanitorRunning duration | JanitorStopped

record Memory =
  mc_items :: "(string \<times> memoryItem) list"
  mc_sweepBatchSize :: nat
  mc_janitor :: janitor

definition memoryJanitorInterval :: duration where "memoryJanitorInterval = Minute"
definition memorySweepBatchSize :: nat where "memorySweepBatchSize = 1000"

datatype MemoryOption = WithJanitor duration

fun applyMemoryOption :: "MemoryOption \<Rightarrow> Memory \<Rightarrow> Memory" where
  "applyMemoryOption (WithJanitor interval) m =
     (if interval \<le> 0 then m else m\<lparr>mc_janitor := JanitorRunning interval\<rparr>)"

definition NewMemory :: "MemoryOption list \<Rightarrow> Memory" where
  "NewMemory opts = fold applyMemoryOption opts
     \<lparr>mc_items = [], mc_sweepBatchSize = memorySweepBatchSize, mc_janitor = NoJanitor\<rparr>"

definition mc_Close :: "Memory \<Rightarrow> Memory" where
  "mc_Close m = (if mc_janitor m = NoJanitor then m else m\<lparr>mc_janitor := JanitorStopped\<rparr>)"

definition item_expired :: "memoryItem \<Rightarrow> gotime \<Rightarrow> bool" where
  "item_expired i now \<longleftrightarrow> \<not> IsZero (mi_expiresAt i) \<and> \<not> now < mi_expiresAt i"

subsection \<open>Reclaiming expired entries\<close>

definition evictKey :: "Memory \<Rightarrow> string \<Rightarrow> gotime \<Rightarrow> Memory" where
  "evictKey m key now = (case map_of (mc_items m) key of
       Some item \<Rightarrow> if item_expired item now then m\<lparr>mc_items := AList.delete key (mc_items m)\<rparr> else m
     | None \<Rightarrow> m)"

fun sweepBatch :: "Memory \<Rightarrow> gotime \<Rightarrow> string list \<Rightarrow> Memory" where
  "sweepBatch m now [] = m"
| "sweepBatch m now (key # keys) = sweepBatch (evictKey m key now) now keys"

text \<open>The loop of \<open>sweepExpired\<close> over the snapshot of the keys, one batch per lock. A batch size
  is positive (it is a constant of the source), so each turn makes progress.\<close>

function sweepLoop :: "Memory \<Rightarrow> gotime \<Rightarrow> string list \<Rightarrow> int \<Rightarrow> int \<times> Memory" where
  "sweepLoop m now keys batches =
     (if keys = [] \<or> mc_sweepBatchSize m = 0 then (batches, m)
      else sweepLoop (sweepBatch m now (take (mc_sweepBatchSize m) keys)) now
             (drop (mc_sweepBatchSize m) keys) (batches + 1))"
  by pat_completeness auto
termination
  by (relation "measure (\<lambda>(m, now, keys, b). length keys)") auto

declare sweepLoop.simps [simp del]

definition sweepExpired :: "Memory \<Rightarrow> gotime \<Rightarrow> int \<times> Memory" where
  "sweepExpired m now = sweepLoop m now (map fst (mc_items m)) 0"

definition janitorTick :: "Memory \<Rightarrow> gotime \<Rightarrow> Memory" where
  "janitorTick m now = (case mc_janitor m of JanitorRunning _ \<Rightarrow> snd (sweepExpired m now) | _ \<Rightarrow> m)"

subsection \<open>The cache operations\<close>

text \<open>\<open>Get\<close> holds the lock twice: once to read, once to drop an entry it found expired.
  \<open>getRead\<close> is what it reads and answers, \<open>evictKey\<close> the second half.\<close>

definition getRead :: "memoryItem option \<Rightarrow> 'v dst \<Rightarrow> gotime \<Rightarrow> bool \<times> (cache_error + 'v option)" where
  "getRead item dst now = (case item of None \<Rightarrow> (False, Inr None)
     | Some i \<Rightarrow> if item_expired i now then (False, Inr None) else (True, cache_decode (mi_payload i) dst))"

definition mc_Get ::
  "Memory \<Rightarrow> ctxErr \<Rightarrow> string \<Rightarrow> 'v dst \<Rightarrow> gotime \<Rightarrow> gotime \<Rightarrow> (bool \<times> (cache_error + 'v option)) \<times> Memory" where
  "mc_Get m ctx key dst now1 now2 = (case ctx of Some e \<Rightarrow> ((False, Inl e), m)
     | None \<Rightarrow>
        (let item = map_of (mc_items m) key in
         (getRead item dst now1,
          case item of None \<Rightarrow> m | Some i \<Rightarrow> if item_expired i now1 then evictKey m key now2 else m)))"

definition mc_Set ::
  "Memory \<Rightarrow> ctxErr \<Rightarrow> string \<Rightarrow> encoded \<Rightarrow> duration \<Rightarrow> gotime \<Rightarrow> (cache_error, unit, Memory) outcome" where
  "mc_Set m ctx key value ttl now = (case ctx of Some e \<Rightarrow> (Inl e, m)
     | None \<Rightarrow> (case validateTTL ttl of Some e \<Rightarrow> (Inl e, m)
     | None \<Rightarrow> (case cache_encode value of Inl e \<Rightarrow> (Inl e, m)
     | Inr payload \<Rightarrow>
        (let expiresAt = (if 0 < ttl then now + ttl else 0) in
         (Inr (), m\<lparr>mc_items := AList.update key \<lparr>mi_payload = payload, mi_expiresAt = expiresAt\<rparr> (mc_items m)\<rparr>)))))"

definition mc_Delete :: "Memory \<Rightarrow> ctxErr \<Rightarrow> string list \<Rightarrow> (cache_error, unit, Memory) outcome" where
  "mc_Delete m ctx keys = (case ctx of Some e \<Rightarrow> (Inl e, m)
     | None \<Rightarrow> (Inr (), m\<lparr>mc_items := fold AList.delete keys (mc_items m)\<rparr>))"

definition mc_increment ::
  "Memory \<Rightarrow> ctxErr \<Rightarrow> string \<Rightarrow> int \<Rightarrow> duration \<Rightarrow> gotime \<Rightarrow> gotime \<Rightarrow> (cache_error, int, Memory) outcome" where
  "mc_increment m ctx key delta ttl now1 now2 = (case ctx of Some e \<Rightarrow> (Inl e, m)
     | None \<Rightarrow>
        (let item = map_of (mc_items m) key;
             stored = (case item of
                 Some i \<Rightarrow> if item_expired i now1 then Inr 0
                   else (case unmarshalInt64Ptr (mi_payload i) of
                       Some (Some v) \<Rightarrow> Inr v
                     | _ \<Rightarrow> Inl NotInteger)
               | None \<Rightarrow> Inr 0) in
         case stored of Inl e \<Rightarrow> (Inl e, m)
         | Inr current \<Rightarrow>
           if 0 < delta \<and> wrap64 (MaxInt64 - delta) < current \<or> delta < 0 \<and> current < wrap64 (MinInt64 - delta)
           then (Inl WouldOverflow, m)
           else
             (let value = wrap64 (current + delta);
                  kept = (case item of Some i \<Rightarrow> if item_expired i now2 then 0 else mi_expiresAt i | None \<Rightarrow> 0);
                  expiresAt = (if IsZero kept \<and> 0 < ttl then now2 + ttl else kept) in
              (Inr value,
               m\<lparr>mc_items := AList.update key \<lparr>mi_payload = FormatInt value, mi_expiresAt = expiresAt\<rparr> (mc_items m)\<rparr>))))"

definition mc_Increment ::
  "Memory \<Rightarrow> ctxErr \<Rightarrow> string \<Rightarrow> int \<Rightarrow> gotime \<Rightarrow> gotime \<Rightarrow> (cache_error, int, Memory) outcome" where
  "mc_Increment m ctx key delta now1 now2 = mc_increment m ctx key delta 0 now1 now2"

definition mc_IncrementTTL ::
  "Memory \<Rightarrow> ctxErr \<Rightarrow> string \<Rightarrow> int \<Rightarrow> duration \<Rightarrow> gotime \<Rightarrow> gotime \<Rightarrow> (cache_error, int, Memory) outcome" where
  "mc_IncrementTTL m ctx key delta ttl now1 now2 = (case validateCounterTTL ttl of Some e \<Rightarrow> (Inl e, m)
     | None \<Rightarrow> mc_increment m ctx key delta ttl now1 now2)"

text \<open>The result carries \<open>found\<close> beside the value or the error, as the method returns it.\<close>

definition mc_DecrementExisting ::
  "Memory \<Rightarrow> ctxErr \<Rightarrow> string \<Rightarrow> int \<Rightarrow> gotime \<Rightarrow> (bool \<times> (cache_error + int)) \<times> Memory" where
  "mc_DecrementExisting m ctx key delta now = (case ctx of Some e \<Rightarrow> ((False, Inl e), m)
     | None \<Rightarrow> (case map_of (mc_items m) key of None \<Rightarrow> ((False, Inr 0), m)
     | Some item \<Rightarrow>
        if item_expired item now then ((False, Inr 0), m)
        else (case unmarshalInt64Ptr (mi_payload item) of
            Some (Some stored) \<Rightarrow>
              if delta < 0 \<and> wrap64 (MaxInt64 + delta) < stored \<or> 0 < delta \<and> stored < wrap64 (MinInt64 + delta)
              then ((True, Inl WouldOverflow), m)
              else
                (let value = wrap64 (stored - delta) in
                 ((True, Inr value),
                  m\<lparr>mc_items := AList.update key \<lparr>mi_payload = FormatInt value, mi_expiresAt = mi_expiresAt item\<rparr> (mc_items m)\<rparr>))
          | _ \<Rightarrow> ((True, Inl NotInteger), m))))"


section \<open>Specification on live entries\<close>

text \<open>
  What a caller can tell of the cache at time \<open>t\<close> is which entries are alive and what they
  hold. An operation is specified by its answer, from the live entries at its first reading of the
  clock, and by the entries it writes; counters are specified on unbounded integers, with a refusal
  exactly when the result leaves the 64-bit range.
\<close>

type_synonym live = "string \<Rightarrow> memoryItem option"
type_synonym writes = "(string \<times> memoryItem option) list"

definition alive :: "gotime \<Rightarrow> memoryItem option \<Rightarrow> memoryItem option" where
  "alive t item = (case item of Some i \<Rightarrow> if item_expired i t then None else Some i | None \<Rightarrow> None)"

definition mc_live :: "Memory \<Rightarrow> gotime \<Rightarrow> live" where
  "mc_live m t k = alive t (map_of (mc_items m) k)"

definition written :: "gotime \<Rightarrow> writes \<Rightarrow> live \<Rightarrow> live" where
  "written t ws v = fold (\<lambda>(k, i) v. v(k := alive t i)) ws v"

definition spec_Get :: "live \<Rightarrow> ctxErr \<Rightarrow> string \<Rightarrow> 'v dst \<Rightarrow> bool \<times> (cache_error + 'v option)" where
  "spec_Get v ctx key dst = (case ctx of Some e \<Rightarrow> (False, Inl e)
     | None \<Rightarrow> (case v key of None \<Rightarrow> (False, Inr None) | Some i \<Rightarrow> (True, cache_decode (mi_payload i) dst)))"

definition spec_Set :: "ctxErr \<Rightarrow> string \<Rightarrow> encoded \<Rightarrow> duration \<Rightarrow> gotime \<Rightarrow> (cache_error + unit) \<times> writes" where
  "spec_Set ctx key value ttl now = (case ctx of Some e \<Rightarrow> (Inl e, [])
     | None \<Rightarrow> if ttl < 0 then (Inl (NegativeTTL ttl), [])
       else (case value of Inl e \<Rightarrow> (Inl (MarshalErr e), [])
        | Inr p \<Rightarrow> (Inr (), [(key, Some \<lparr>mi_payload = p, mi_expiresAt = if ttl = 0 then 0 else now + ttl\<rparr>)])))"

definition spec_Delete :: "ctxErr \<Rightarrow> string list \<Rightarrow> (cache_error + unit) \<times> writes" where
  "spec_Delete ctx keys = (case ctx of Some e \<Rightarrow> (Inl e, []) | None \<Rightarrow> (Inr (), map (\<lambda>k. (k, None)) keys))"

definition counterOf :: "live \<Rightarrow> string \<Rightarrow> cache_error + int" where
  "counterOf v key = (case v key of None \<Rightarrow> Inr 0
     | Some i \<Rightarrow> (case unmarshalInt64Ptr (mi_payload i) of Some (Some n) \<Rightarrow> Inr n | _ \<Rightarrow> Inl NotInteger))"

definition deadlineOf :: "live \<Rightarrow> string \<Rightarrow> gotime \<Rightarrow> gotime" where
  "deadlineOf v key now = (case alive now (v key) of Some i \<Rightarrow> mi_expiresAt i | None \<Rightarrow> 0)"

definition spec_increment ::
  "live \<Rightarrow> ctxErr \<Rightarrow> string \<Rightarrow> int \<Rightarrow> duration \<Rightarrow> gotime \<Rightarrow> (cache_error + int) \<times> writes" where
  "spec_increment v ctx key delta ttl now = (case ctx of Some e \<Rightarrow> (Inl e, [])
     | None \<Rightarrow> (case counterOf v key of Inl e \<Rightarrow> (Inl e, [])
     | Inr c \<Rightarrow> if \<not> in_int64 (c + delta) then (Inl WouldOverflow, [])
        else (Inr (c + delta), [(key, Some \<lparr>mi_payload = FormatInt (c + delta),
           mi_expiresAt = if deadlineOf v key now = 0 \<and> 0 < ttl then now + ttl else deadlineOf v key now\<rparr>)])))"

definition spec_DecrementExisting ::
  "live \<Rightarrow> ctxErr \<Rightarrow> string \<Rightarrow> int \<Rightarrow> (bool \<times> (cache_error + int)) \<times> writes" where
  "spec_DecrementExisting v ctx key delta = (case ctx of Some e \<Rightarrow> ((False, Inl e), [])
     | None \<Rightarrow> (case v key of None \<Rightarrow> ((False, Inr 0), [])
     | Some i \<Rightarrow> (case counterOf v key of Inl e \<Rightarrow> ((True, Inl e), [])
        | Inr c \<Rightarrow> if \<not> in_int64 (c - delta) then ((True, Inl WouldOverflow), [])
           else ((True, Inr (c - delta)),
             [(key, Some \<lparr>mi_payload = FormatInt (c - delta), mi_expiresAt = mi_expiresAt i\<rparr>)]))))"

subsection \<open>The view of a later time\<close>

lemma item_expired_mono: "item_expired i t \<Longrightarrow> t \<le> t' \<Longrightarrow> item_expired i t'"
  by (simp add: item_expired_def)

lemma alive_None [simp]: "alive t None = None"
  by (simp add: alive_def)

lemma alive_alive: "t \<le> t' \<Longrightarrow> alive t' (alive t i) = alive t' i"
  by (auto simp: alive_def item_expired_mono split: option.splits)

lemma alive_Some_iff: "alive t i = Some j \<longleftrightarrow> i = Some j \<and> \<not> item_expired j t"
  by (auto simp: alive_def split: option.splits if_splits)

lemma mc_live_later: "t \<le> t' \<Longrightarrow> mc_live m t' k = alive t' (mc_live m t k)"
  by (simp add: mc_live_def alive_alive)

lemma written_Nil [simp]: "written t [] v = v"
  by (simp add: written_def)

lemma written_one [simp]: "written t [(k, i)] v = v(k := alive t i)"
  by (simp add: written_def)

lemma mc_live_update [simp]:
  "mc_live (m\<lparr>mc_items := AList.update key i (mc_items m)\<rparr>) t = (mc_live m t)(key := alive t (Some i))"
  by (auto simp: mc_live_def)

lemma written_deletes: "written t (map (\<lambda>k. (k, None)) keys) v = (\<lambda>k. if k \<in> set keys then None else v k)"
  by (induction keys arbitrary: v) (auto simp: written_def fun_eq_iff)

lemma map_of_fold_delete:
  "map_of (fold AList.delete keys al) k = (if k \<in> set keys then None else map_of al k)"
  by (induction keys arbitrary: al) auto

subsection \<open>Each method refines its specification\<close>

lemma evictKey_live: "now \<le> t \<Longrightarrow> mc_live (evictKey m key now) t = mc_live m t"
  by (auto simp: fun_eq_iff evictKey_def mc_live_def alive_def item_expired_mono split: option.splits)

lemma sweepBatch_live: "now \<le> t \<Longrightarrow> mc_live (sweepBatch m now keys) t = mc_live m t"
  by (induction m now keys rule: sweepBatch.induct) (auto simp: evictKey_live)

lemma mc_Get_refines:
  assumes "mc_Get m ctx key dst now1 now2 = (r, m')"
  shows "r = spec_Get (mc_live m now1) ctx key dst" and "now2 \<le> t \<Longrightarrow> mc_live m' t = mc_live m t"
  using assms
  by (auto simp: mc_Get_def spec_Get_def getRead_def mc_live_def alive_def Let_def evictKey_live
      split: option.splits if_splits)

lemma mc_Set_refines:
  assumes "mc_Set m ctx key value ttl now = (r, m')"
  shows "r = fst (spec_Set ctx key value ttl now)"
    and "mc_live m' t = written t (snd (spec_Set ctx key value ttl now)) (mc_live m t)"
  using assms
  by (auto simp: mc_Set_def spec_Set_def validateTTL_def cache_encode_def Let_def
      split: option.splits sum.splits if_splits)

lemma mc_Delete_refines:
  assumes "mc_Delete m ctx keys = (r, m')"
  shows "r = fst (spec_Delete ctx keys)"
    and "mc_live m' t = written t (snd (spec_Delete ctx keys)) (mc_live m t)"
  using assms
  by (auto simp: mc_Delete_def spec_Delete_def written_deletes mc_live_def map_of_fold_delete fun_eq_iff
      split: option.splits)

text \<open>The guards of the source, on wrapping arithmetic, refuse exactly the sums that leave the
  range.\<close>

lemma increment_guard:
  assumes "in_int64 c" "in_int64 delta"
  shows "(0 < delta \<and> wrap64 (MaxInt64 - delta) < c \<or> delta < 0 \<and> c < wrap64 (MinInt64 - delta))
     \<longleftrightarrow> \<not> in_int64 (c + delta)"
proof -
  have "0 < delta \<Longrightarrow> wrap64 (MaxInt64 - delta) = MaxInt64 - delta"
    "delta < 0 \<Longrightarrow> wrap64 (MinInt64 - delta) = MinInt64 - delta"
    using assms by (auto simp: int64_defs intro!: wrap64_id)
  then show ?thesis using assms by (auto simp: int64_defs)
qed

lemma decrement_guard:
  assumes "in_int64 c" "in_int64 delta"
  shows "(delta < 0 \<and> wrap64 (MaxInt64 + delta) < c \<or> 0 < delta \<and> c < wrap64 (MinInt64 + delta))
     \<longleftrightarrow> \<not> in_int64 (c - delta)"
proof -
  have "delta < 0 \<Longrightarrow> wrap64 (MaxInt64 + delta) = MaxInt64 + delta"
    "0 < delta \<Longrightarrow> wrap64 (MinInt64 + delta) = MinInt64 + delta"
    using assms by (auto simp: int64_defs intro!: wrap64_id)
  then show ?thesis using assms by (auto simp: int64_defs)
qed

lemma counterOf_range: "counterOf v key = Inr c \<Longrightarrow> in_int64 c"
  by (auto simp: counterOf_def int64_defs dest!: unmarshal_range split: option.splits)

lemma mc_increment_eq:
  assumes "now1 \<le> now2" "in_int64 delta"
  shows "mc_increment m ctx key delta ttl now1 now2 =
    (let (r, ws) = spec_increment (mc_live m now1) ctx key delta ttl now2 in
     (r, case ws of [(k, Some i)] \<Rightarrow> m\<lparr>mc_items := AList.update k i (mc_items m)\<rparr> | _ \<Rightarrow> m))"
proof (cases ctx)
  case None
  let ?item = "map_of (mc_items m) key"
  have cnt: "(case ?item of
        Some i \<Rightarrow> if item_expired i now1 then Inr 0
          else (case unmarshalInt64Ptr (mi_payload i) of Some (Some v) \<Rightarrow> Inr v | _ \<Rightarrow> Inl NotInteger)
      | None \<Rightarrow> Inr 0) = counterOf (mc_live m now1) key"
    by (auto simp: counterOf_def mc_live_def alive_def split: option.splits)
  have dl: "(case ?item of Some i \<Rightarrow> if item_expired i now2 then 0 else mi_expiresAt i | None \<Rightarrow> 0)
      = deadlineOf (mc_live m now1) key now2"
    unfolding deadlineOf_def mc_live_def alive_alive[OF assms(1)] by (auto simp: alive_def split: option.splits)
  show ?thesis
  proof (cases "counterOf (mc_live m now1) key")
    case (Inr c)
    show ?thesis unfolding mc_increment_def None cnt dl Let_def
      by (simp add: Inr spec_increment_def increment_guard[OF counterOf_range[OF Inr] assms(2)] IsZero_def)
  qed (simp add: mc_increment_def None cnt Let_def spec_increment_def)
qed (simp add: mc_increment_def spec_increment_def)

lemma mc_increment_refines:
  assumes "mc_increment m ctx key delta ttl now1 now2 = (r, m')" "now1 \<le> now2" "in_int64 delta"
  shows "r = fst (spec_increment (mc_live m now1) ctx key delta ttl now2)"
    and "mc_live m' t = written t (snd (spec_increment (mc_live m now1) ctx key delta ttl now2)) (mc_live m t)"
  using assms(1) unfolding mc_increment_eq[OF assms(2,3)]
  by (auto simp: spec_increment_def Let_def split: option.splits sum.splits if_splits)

lemma mc_DecrementExisting_eq:
  assumes "in_int64 delta"
  shows "mc_DecrementExisting m ctx key delta now =
    (let (r, ws) = spec_DecrementExisting (mc_live m now) ctx key delta in
     (r, case ws of [(k, Some i)] \<Rightarrow> m\<lparr>mc_items := AList.update k i (mc_items m)\<rparr> | _ \<Rightarrow> m))"
proof (cases "ctx = None \<and> mc_live m now key \<noteq> None")
  case True
  then obtain i where i: "map_of (mc_items m) key = Some i" "\<not> item_expired i now" "mc_live m now key = Some i"
    by (auto simp: mc_live_def alive_Some_iff)
  show ?thesis
  proof (cases "counterOf (mc_live m now) key")
    case (Inl e)
    then show ?thesis using True i
      by (auto simp: mc_DecrementExisting_def spec_DecrementExisting_def counterOf_def split: option.splits)
  next
    case (Inr c)
    then have "unmarshalInt64Ptr (mi_payload i) = Some (Some c)"
      using i by (auto simp: counterOf_def split: option.splits)
    with True i Inr show ?thesis unfolding mc_DecrementExisting_def spec_DecrementExisting_def
      by (simp add: decrement_guard[OF counterOf_range[OF Inr] assms] Let_def)
  qed
next
  case False
  then show ?thesis
    by (auto simp: mc_DecrementExisting_def spec_DecrementExisting_def mc_live_def alive_def
        split: option.splits if_splits)
qed

lemma mc_DecrementExisting_refines:
  assumes "mc_DecrementExisting m ctx key delta now = (r, m')" "in_int64 delta"
  shows "r = fst (spec_DecrementExisting (mc_live m now) ctx key delta)"
    and "mc_live m' t = written t (snd (spec_DecrementExisting (mc_live m now) ctx key delta)) (mc_live m t)"
  using assms(1) unfolding mc_DecrementExisting_eq[OF assms(2)]
  by (auto simp: spec_DecrementExisting_def Let_def split: option.splits sum.splits if_splits)

subsection \<open>A sweep reclaims every expired entry\<close>

lemma evictKey_items:
  "map_of (mc_items (evictKey m key now)) k = (if k = key then alive now (map_of (mc_items m) k) else map_of (mc_items m) k)"
  by (auto simp: evictKey_def alive_def split: option.splits)

lemma evictKey_frame [simp]:
  "mc_sweepBatchSize (evictKey m key now) = mc_sweepBatchSize m" "mc_janitor (evictKey m key now) = mc_janitor m"
  by (auto simp: evictKey_def split: option.splits)

lemma sweepBatch_frame [simp]:
  "mc_sweepBatchSize (sweepBatch m now keys) = mc_sweepBatchSize m"
  "mc_janitor (sweepBatch m now keys) = mc_janitor m"
  by (induction m now keys rule: sweepBatch.induct) auto

lemma sweepBatch_items:
  "map_of (mc_items (sweepBatch m now keys)) k =
     (if k \<in> set keys then alive now (map_of (mc_items m) k) else map_of (mc_items m) k)"
  by (induction m now keys rule: sweepBatch.induct) (auto simp: evictKey_items alive_alive)

lemma sweepLoop_items:
  assumes "0 < mc_sweepBatchSize m"
  shows "map_of (mc_items (snd (sweepLoop m now keys b))) k =
     (if k \<in> set keys then alive now (map_of (mc_items m) k) else map_of (mc_items m) k)"
  using assms
proof (induction m now keys b rule: sweepLoop.induct)
  case (1 m now keys b)
  show ?case
  proof (cases "keys = []")
    case False
    let ?n = "mc_sweepBatchSize m"
    have s: "set keys = set (take ?n keys) \<union> set (drop ?n keys)" by (metis append_take_drop_id set_append)
    show ?thesis using False 1 by (subst sweepLoop.simps) (auto simp: sweepBatch_items alive_alive s)
  qed (subst sweepLoop.simps, simp)
qed

lemma sweepExpired_items:
  assumes "0 < mc_sweepBatchSize m"
  shows "map_of (mc_items (snd (sweepExpired m now))) k = mc_live m now k"
proof -
  have "k \<notin> set (map fst (mc_items m)) \<Longrightarrow> map_of (mc_items m) k = None"
    by (simp add: map_of_eq_None_iff image_iff)
  then show ?thesis by (auto simp: sweepExpired_def sweepLoop_items[OF assms] mc_live_def)
qed

end
