(* ===== verification/Cache_Contract.thy ===== *)
theory Cache_Contract
  imports Cache_Memory
begin

section \<open>The cache interface, namespaces and the other drivers\<close>

text \<open>
  \<open>cache/cache.go\<close>, \<open>cache/namespace.go\<close> and \<open>cache/noop.go\<close>: the \<open>Cache\<close> interface with
  the optional \<open>Counter\<close>, the package functions that fall back when a cache has none, the
  namespacing wrapper, the driver that keeps nothing, and the \<open>Store\<close> around an opened driver.

  The locale \<open>cache_store\<close> states what the interface promises through the specification on
  live entries; the memory driver keeps it, and so does every namespace over a cache that keeps it.
  Its lemmas (a fixed window of a counter, locality of a call) are proved once for all of them.

  The circumstances of a call are a record: what \<open>ctx.Err()\<close> returns at the first and at a
  later check, and the readings of the clock in the order they are taken.
\<close>

record call_env =
  ce_ctx :: ctxErr
  ce_ctx2 :: ctxErr
  ce_now1 :: gotime
  ce_now2 :: gotime
  ce_now3 :: gotime

record 's counter_ops =
  ct_IncrementTTL :: "'s \<Rightarrow> call_env \<Rightarrow> string \<Rightarrow> int \<Rightarrow> duration \<Rightarrow> (cache_error, int, 's) outcome"
  ct_DecrementExisting :: "'s \<Rightarrow> call_env \<Rightarrow> string \<Rightarrow> int \<Rightarrow> (bool \<times> (cache_error + int)) \<times> 's"

text \<open>\<open>co_counter\<close> is the outcome of the type assertion \<open>c.(Counter)\<close>.\<close>

record ('v, 's) cache_ops =
  co_Get :: "'s \<Rightarrow> call_env \<Rightarrow> string \<Rightarrow> 'v dst \<Rightarrow> (bool \<times> (cache_error + 'v option)) \<times> 's"
  co_Set :: "'s \<Rightarrow> call_env \<Rightarrow> string \<Rightarrow> encoded \<Rightarrow> duration \<Rightarrow> (cache_error, unit, 's) outcome"
  co_Delete :: "'s \<Rightarrow> call_env \<Rightarrow> string list \<Rightarrow> (cache_error, unit, 's) outcome"
  co_Increment :: "'s \<Rightarrow> call_env \<Rightarrow> string \<Rightarrow> int \<Rightarrow> (cache_error, int, 's) outcome"
  co_counter :: "'s counter_ops option"

definition mc_counter :: "Memory counter_ops" where
  "mc_counter = \<lparr>
     ct_IncrementTTL = \<lambda>m env key delta ttl. mc_IncrementTTL m (ce_ctx env) key delta ttl (ce_now1 env) (ce_now2 env),
     ct_DecrementExisting = \<lambda>m env key delta. mc_DecrementExisting m (ce_ctx env) key delta (ce_now1 env)\<rparr>"

definition mc_ops :: "('v, Memory) cache_ops" where
  "mc_ops = \<lparr>
     co_Get = \<lambda>m env key dst. mc_Get m (ce_ctx env) key dst (ce_now1 env) (ce_now2 env),
     co_Set = \<lambda>m env key value ttl. mc_Set m (ce_ctx env) key value ttl (ce_now1 env),
     co_Delete = \<lambda>m env keys. mc_Delete m (ce_ctx env) keys,
     co_Increment = \<lambda>m env key delta. mc_Increment m (ce_ctx env) key delta (ce_now1 env) (ce_now2 env),
     co_counter = Some mc_counter\<rparr>"

text \<open>The environment of a second call on the same cache: the later readings.\<close>

definition laterCall :: "call_env \<Rightarrow> call_env" where
  "laterCall env = env\<lparr>ce_ctx := ce_ctx2 env, ce_now1 := ce_now3 env, ce_now2 := ce_now3 env\<rparr>"

definition cache_DecrementExisting ::
  "('v, 's) cache_ops \<Rightarrow> 's \<Rightarrow> call_env \<Rightarrow> string \<Rightarrow> int \<Rightarrow> (bool \<times> (cache_error + int)) \<times> 's" where
  "cache_DecrementExisting c s env key delta = (case co_counter c of
       Some counter \<Rightarrow> ct_DecrementExisting counter s env key delta
     | None \<Rightarrow> (case co_Increment c s env key (wrap64 (- delta)) of
           (Inl e, s1) \<Rightarrow> ((False, Inl e), s1)
         | (Inr value, s1) \<Rightarrow>
             if value = wrap64 (- delta)
             then (case co_Delete c s1 (laterCall env) [key] of
                 (Inl e, s2) \<Rightarrow> ((False, Inl e), s2)
               | (Inr _, s2) \<Rightarrow> ((False, Inr 0), s2))
             else ((True, Inr value), s1)))"

definition cache_IncrementTTL ::
  "('v, 's) cache_ops \<Rightarrow> 's \<Rightarrow> call_env \<Rightarrow> string \<Rightarrow> int \<Rightarrow> duration \<Rightarrow> (cache_error, int, 's) outcome" where
  "cache_IncrementTTL c s env key delta ttl = (case validateCounterTTL ttl of Some e \<Rightarrow> (Inl e, s)
     | None \<Rightarrow> (case co_counter c of
           Some counter \<Rightarrow> ct_IncrementTTL counter s env key delta ttl
         | None \<Rightarrow> (case co_Increment c s env key delta of
               (Inl e, s1) \<Rightarrow> (Inl e, s1)
             | (Inr value, s1) \<Rightarrow>
                 if value \<noteq> delta then (Inr value, s1)
                 else (case co_Set c s1 (laterCall env) key (Inr (FormatInt value)) ttl of
                     (Inl e, s2) \<Rightarrow> (Inl e, s2)
                   | (Inr _, s2) \<Rightarrow> (Inr value, s2)))))"

subsection \<open>Namespaces\<close>

definition trimColons :: "string \<Rightarrow> string" where
  "trimColons s = rev (dropWhile (\<lambda>c. c = CHR '':'') (rev (dropWhile (\<lambda>c. c = CHR '':'') s)))"

definition ns_key :: "string \<Rightarrow> string \<Rightarrow> string" where
  "ns_key n key = n @ '':'' @ key"

definition ns_counter :: "string \<Rightarrow> ('v, 's) cache_ops \<Rightarrow> 's counter_ops" where
  "ns_counter n c = \<lparr>
     ct_IncrementTTL = \<lambda>s env key delta ttl. cache_IncrementTTL c s env (ns_key n key) delta ttl,
     ct_DecrementExisting = \<lambda>s env key delta. cache_DecrementExisting c s env (ns_key n key) delta\<rparr>"

definition namespaced :: "string \<Rightarrow> ('v, 's) cache_ops \<Rightarrow> ('v, 's) cache_ops" where
  "namespaced n c = \<lparr>
     co_Get = \<lambda>s env key dst. co_Get c s env (ns_key n key) dst,
     co_Set = \<lambda>s env key value ttl. co_Set c s env (ns_key n key) value ttl,
     co_Delete = \<lambda>s env keys. co_Delete c s env (map (ns_key n) keys),
     co_Increment = \<lambda>s env key delta. co_Increment c s env (ns_key n key) delta,
     co_counter = Some (ns_counter n c)\<rparr>"

definition Namespace :: "string \<Rightarrow> ('v, 's) cache_ops \<Rightarrow> ('v, 's) cache_ops" where
  "Namespace namespace c = (let n = trimColons namespace in if n = '''' then c else namespaced n c)"

subsection \<open>The driver that keeps nothing\<close>

definition noop_Increment :: "'s \<Rightarrow> call_env \<Rightarrow> (cache_error, int, 's) outcome" where
  "noop_Increment s env = (case ce_ctx env of Some e \<Rightarrow> (Inl e, s) | None \<Rightarrow> (Inr 0, s))"

definition noop_counter :: "'s counter_ops" where
  "noop_counter = \<lparr>
     ct_IncrementTTL = \<lambda>s env key delta ttl. (case validateCounterTTL ttl of Some e \<Rightarrow> (Inl e, s)
        | None \<Rightarrow> noop_Increment s env),
     ct_DecrementExisting = \<lambda>s env key delta.
       ((False, case ce_ctx env of Some e \<Rightarrow> Inl e | None \<Rightarrow> Inr 0), s)\<rparr>"

definition noop_ops :: "('v, 's) cache_ops" where
  "noop_ops = \<lparr>
     co_Get = \<lambda>s env key dst. (case ce_ctx env of Some e \<Rightarrow> ((False, Inl e), s) | None \<Rightarrow> ((False, Inr None), s)),
     co_Set = \<lambda>s env key value ttl. (case ce_ctx env of Some e \<Rightarrow> (Inl e, s)
        | None \<Rightarrow> (case validateTTL ttl of Some e \<Rightarrow> (Inl e, s) | None \<Rightarrow> (Inr (), s))),
     co_Delete = \<lambda>s env keys. (case ce_ctx env of Some e \<Rightarrow> (Inl e, s) | None \<Rightarrow> (Inr (), s)),
     co_Increment = \<lambda>s env key delta. noop_Increment s env,
     co_counter = Some noop_counter\<rparr>"

subsection \<open>An opened store\<close>

text \<open>A nil store, or one without a driver, answers every call with an error.\<close>

record ('v, 's) Store =
  st_impl :: "('v, 's) cache_ops option"

definition st_cache :: "('v, 's) Store option \<Rightarrow> ('v, 's) cache_ops option" where
  "st_cache st = (case st of None \<Rightarrow> None | Some r \<Rightarrow> st_impl r)"

definition st_Get ::
  "('v, 's) Store option \<Rightarrow> 's \<Rightarrow> call_env \<Rightarrow> string \<Rightarrow> 'v dst \<Rightarrow> (bool \<times> (cache_error + 'v option)) \<times> 's" where
  "st_Get st s env key dst = (case st_cache st of None \<Rightarrow> ((False, Inl NilStore), s)
     | Some c \<Rightarrow> co_Get c s env key dst)"

definition st_Set ::
  "('v, 's) Store option \<Rightarrow> 's \<Rightarrow> call_env \<Rightarrow> string \<Rightarrow> encoded \<Rightarrow> duration \<Rightarrow> (cache_error, unit, 's) outcome" where
  "st_Set st s env key value ttl = (case st_cache st of None \<Rightarrow> (Inl NilStore, s)
     | Some c \<Rightarrow> co_Set c s env key value ttl)"

definition st_Delete ::
  "('v, 's) Store option \<Rightarrow> 's \<Rightarrow> call_env \<Rightarrow> string list \<Rightarrow> (cache_error, unit, 's) outcome" where
  "st_Delete st s env keys = (case st_cache st of None \<Rightarrow> (Inl NilStore, s)
     | Some c \<Rightarrow> co_Delete c s env keys)"

definition st_Increment ::
  "('v, 's) Store option \<Rightarrow> 's \<Rightarrow> call_env \<Rightarrow> string \<Rightarrow> int \<Rightarrow> (cache_error, int, 's) outcome" where
  "st_Increment st s env key delta = (case st_cache st of None \<Rightarrow> (Inl NilStore, s)
     | Some c \<Rightarrow> co_Increment c s env key delta)"

definition st_IncrementTTL ::
  "('v, 's) Store option \<Rightarrow> 's \<Rightarrow> call_env \<Rightarrow> string \<Rightarrow> int \<Rightarrow> duration \<Rightarrow> (cache_error, int, 's) outcome" where
  "st_IncrementTTL st s env key delta ttl = (case st_cache st of None \<Rightarrow> (Inl NilStore, s)
     | Some c \<Rightarrow> cache_IncrementTTL c s env key delta ttl)"

definition st_DecrementExisting ::
  "('v, 's) Store option \<Rightarrow> 's \<Rightarrow> call_env \<Rightarrow> string \<Rightarrow> int \<Rightarrow> (bool \<times> (cache_error + int)) \<times> 's" where
  "st_DecrementExisting st s env key delta = (case st_cache st of None \<Rightarrow> ((False, Inl NilStore), s)
     | Some c \<Rightarrow> cache_DecrementExisting c s env key delta)"


section \<open>What the interface promises\<close>

text \<open>The calls of a client, their answers, and the call that performs each.\<close>

datatype 'v cache_call =
    KGet string "'v dst"
  | KSet string encoded duration
  | KDelete "string list"
  | KIncrement string int
  | KIncrementTTL string int duration
  | KDecrementExisting string int

datatype 'v cache_answer =
    AGet bool "cache_error + 'v option"
  | ADone "cache_error + unit"
  | ACount "cache_error + int"
  | AExisting bool "cache_error + int"

definition cacheDo :: "('v, 's) cache_ops \<Rightarrow> 's \<Rightarrow> call_env \<Rightarrow> 'v cache_call \<Rightarrow> 'v cache_answer \<times> 's" where
  "cacheDo c s env call = (case call of
       KGet key dst \<Rightarrow> (let (r, s') = co_Get c s env key dst in (AGet (fst r) (snd r), s'))
     | KSet key value ttl \<Rightarrow> (let (r, s') = co_Set c s env key value ttl in (ADone r, s'))
     | KDelete keys \<Rightarrow> (let (r, s') = co_Delete c s env keys in (ADone r, s'))
     | KIncrement key delta \<Rightarrow> (let (r, s') = co_Increment c s env key delta in (ACount r, s'))
     | KIncrementTTL key delta ttl \<Rightarrow> (let (r, s') = cache_IncrementTTL c s env key delta ttl in (ACount r, s'))
     | KDecrementExisting key delta \<Rightarrow>
         (let (r, s') = cache_DecrementExisting c s env key delta in (AExisting (fst r) (snd r), s')))"

text \<open>The answer and the writes of a call, from the entries alive at its first reading.\<close>

definition cacheSpec :: "live \<Rightarrow> call_env \<Rightarrow> 'v cache_call \<Rightarrow> 'v cache_answer \<times> writes" where
  "cacheSpec v env call = (case call of
       KGet key dst \<Rightarrow> (let r = spec_Get v (ce_ctx env) key dst in (AGet (fst r) (snd r), []))
     | KSet key value ttl \<Rightarrow> map_prod ADone (\<lambda>w. w) (spec_Set (ce_ctx env) key value ttl (ce_now1 env))
     | KDelete keys \<Rightarrow> map_prod ADone (\<lambda>w. w) (spec_Delete (ce_ctx env) keys)
     | KIncrement key delta \<Rightarrow> map_prod ACount (\<lambda>w. w) (spec_increment v (ce_ctx env) key delta 0 (ce_now2 env))
     | KIncrementTTL key delta ttl \<Rightarrow>
         if ttl \<le> 0 then (ACount (Inl (CounterTTL ttl)), [])
         else map_prod ACount (\<lambda>w. w) (spec_increment v (ce_ctx env) key delta ttl (ce_now2 env))
     | KDecrementExisting key delta \<Rightarrow>
         map_prod (\<lambda>r. AExisting (fst r) (snd r)) (\<lambda>w. w) (spec_DecrementExisting v (ce_ctx env) key delta))"

fun callKeys :: "'v cache_call \<Rightarrow> string set" where
  "callKeys (KGet key _) = {key}"
| "callKeys (KSet key _ _) = {key}"
| "callKeys (KDelete keys) = set keys"
| "callKeys (KIncrement key _) = {key}"
| "callKeys (KIncrementTTL key _ _) = {key}"
| "callKeys (KDecrementExisting key _) = {key}"

fun deltaOk :: "'v cache_call \<Rightarrow> bool" where
  "deltaOk (KIncrement _ delta) = in_int64 delta"
| "deltaOk (KIncrementTTL _ delta _) = in_int64 delta"
| "deltaOk (KDecrementExisting _ delta) = in_int64 delta"
| "deltaOk _ = True"

definition env_ok :: "call_env \<Rightarrow> bool" where
  "env_ok env \<longleftrightarrow> ce_now1 env \<le> ce_now2 env \<and> ce_now2 env \<le> ce_now3 env"

type_synonym 'v timedCall = "call_env \<times> 'v cache_call"

fun cacheRun :: "('v, 's) cache_ops \<Rightarrow> 's \<Rightarrow> 'v timedCall list \<Rightarrow> 'v cache_answer list \<times> 's" where
  "cacheRun c s [] = ([], s)"
| "cacheRun c s ((env, call) # calls) =
     (let (a, s1) = cacheDo c s env call; (as, s2) = cacheRun c s1 calls in (a # as, s2))"

text \<open>A history of calls under one clock: a call begins after the one before it read the clock for
  the last time. \<open>clockEnd\<close> is its last reading.\<close>

fun inOrder :: "gotime \<Rightarrow> 'v timedCall list \<Rightarrow> bool" where
  "inOrder t [] \<longleftrightarrow> True"
| "inOrder t ((env, call) # calls) \<longleftrightarrow> t \<le> ce_now1 env \<and> env_ok env \<and> deltaOk call \<and> inOrder (ce_now2 env) calls"

fun clockEnd :: "gotime \<Rightarrow> 'v timedCall list \<Rightarrow> gotime" where
  "clockEnd t [] = t"
| "clockEnd t ((env, call) # calls) = clockEnd (ce_now2 env) calls"

subsection \<open>A call sees and writes only its keys\<close>

lemma written_Cons: "written t (w # ws) v = written t ws (v(fst w := alive t (snd w)))"
  by (simp add: written_def case_prod_unfold)

lemma written_other: "k \<notin> fst ` set ws \<Longrightarrow> written t ws v k = v k"
  by (induction ws arbitrary: v) (simp_all add: written_Cons)

lemma written_cong: "v k = v' k \<Longrightarrow> written t ws v k = written t ws v' k"
proof (induction ws arbitrary: v v')
  case (Cons w ws)
  show ?case unfolding written_Cons by (rule Cons.IH) (simp add: Cons.prems)
qed simp

lemma spec_writes:
  "fst ` set (snd (spec_Set ctx key value ttl now)) \<subseteq> {key}"
  "fst ` set (snd (spec_Delete ctx keys)) \<subseteq> set keys"
  "fst ` set (snd (spec_increment v ctx key delta ttl now)) \<subseteq> {key}"
  "fst ` set (snd (spec_DecrementExisting v ctx key delta)) \<subseteq> {key}"
  by (auto simp: spec_Set_def split: option.splits sum.splits)
    (auto simp: spec_Delete_def split: option.splits,
     auto simp: spec_increment_def split: option.splits sum.splits,
     auto simp: spec_DecrementExisting_def split: option.splits sum.splits if_splits)

lemma cacheSpec_writes: "fst ` set (snd (cacheSpec v env call)) \<subseteq> callKeys call"
proof (cases call)
  case (KIncrementTTL key d ttl)
  then show ?thesis using spec_writes(3) by (cases "ttl \<le> 0") (auto simp: cacheSpec_def)
qed (use spec_writes in \<open>auto simp: cacheSpec_def Let_def\<close>)

lemma spec_local:
  assumes "v key = v' key"
  shows "spec_increment v ctx key d ttl now = spec_increment v' ctx key d ttl now"
    and "spec_DecrementExisting v ctx key d = spec_DecrementExisting v' ctx key d"
    and "spec_Get v ctx key dst = spec_Get v' ctx key dst"
proof -
  have "counterOf v key = counterOf v' key" "deadlineOf v key now = deadlineOf v' key now"
    by (simp_all only: counterOf_def deadlineOf_def assms)
  then show "spec_increment v ctx key d ttl now = spec_increment v' ctx key d ttl now"
    and "spec_DecrementExisting v ctx key d = spec_DecrementExisting v' ctx key d"
    and "spec_Get v ctx key dst = spec_Get v' ctx key dst"
    by (simp_all only: spec_increment_def spec_DecrementExisting_def spec_Get_def assms)
qed

lemma cacheSpec_local:
  assumes "\<And>k. k \<in> callKeys call \<Longrightarrow> v k = v' k"
  shows "cacheSpec v env call = cacheSpec v' env call"
  using assms by (cases call) (simp_all add: cacheSpec_def spec_local[of v _ v'])

lemma clockEnd_ge: "inOrder t calls \<Longrightarrow> t \<le> clockEnd t calls"
  by (induction t calls rule: clockEnd.induct) (auto simp: env_ok_def)

text \<open>The answers of the calls that count up one key of a fixed window, as plain arithmetic.\<close>

fun hitAnswers :: "int \<Rightarrow> int list \<Rightarrow> 'v cache_answer list" where
  "hitAnswers n [] = []"
| "hitAnswers n (d # ds) =
     (if in_int64 (n + d) then ACount (Inr (n + d)) # hitAnswers (n + d) ds
      else ACount (Inl WouldOverflow) # hitAnswers n ds)"

fun hitTotal :: "int \<Rightarrow> int list \<Rightarrow> int" where
  "hitTotal n [] = n"
| "hitTotal n (d # ds) = hitTotal (if in_int64 (n + d) then n + d else n) ds"

definition isHit :: "string \<Rightarrow> duration \<Rightarrow> 'v timedCall \<Rightarrow> bool" where
  "isHit key ttl ec \<longleftrightarrow> (case snd ec of KIncrementTTL k d ttl' \<Rightarrow> k = key \<and> ttl' = ttl \<and> ce_ctx (fst ec) = None | _ \<Rightarrow> False)"

definition hitDelta :: "'v timedCall \<Rightarrow> int" where
  "hitDelta ec = (case snd ec of KIncrementTTL k d ttl \<Rightarrow> d | _ \<Rightarrow> 0)"

text \<open>The other calls of the history leave the counter's key alone.\<close>

definition windowCalls :: "string \<Rightarrow> duration \<Rightarrow> 'v timedCall list \<Rightarrow> bool" where
  "windowCalls key ttl calls \<longleftrightarrow> list_all (\<lambda>ec. isHit key ttl ec \<or> key \<notin> callKeys (snd ec)) calls"

definition hitsIn :: "string \<Rightarrow> duration \<Rightarrow> 'v timedCall list \<Rightarrow> int list" where
  "hitsIn key ttl calls = map hitDelta (filter (isHit key ttl) calls)"

definition answersTo :: "('v timedCall \<Rightarrow> bool) \<Rightarrow> 'v timedCall list \<Rightarrow> 'v cache_answer list \<Rightarrow> 'v cache_answer list" where
  "answersTo P calls as = map snd (filter (\<lambda>p. P (fst p)) (zip calls as))"

locale cache_store =
  fixes ops :: "('v, 's) cache_ops"
    and live :: "'s \<Rightarrow> gotime \<Rightarrow> live"
  assumes answers: "cacheDo ops s env call = (a, s') \<Longrightarrow> env_ok env \<Longrightarrow> deltaOk call \<Longrightarrow>
      a = fst (cacheSpec (live s (ce_now1 env)) env call)"
    and writes: "cacheDo ops s env call = (a, s') \<Longrightarrow> env_ok env \<Longrightarrow> deltaOk call \<Longrightarrow> ce_now2 env \<le> t \<Longrightarrow>
      live s' t = written t (snd (cacheSpec (live s (ce_now1 env)) env call)) (live s t)"
    and later: "t \<le> t' \<Longrightarrow> live s t' k = alive t' (live s t k)"
begin

text \<open>A call leaves every other key as it was.\<close>

lemma other_key:
  assumes "cacheDo ops s env call = (a, s')" "env_ok env" "deltaOk call" "ce_now2 env \<le> t" "k \<notin> callKeys call"
  shows "live s' t k = live s t k"
proof -
  have "k \<notin> fst ` set (snd (cacheSpec (live s (ce_now1 env)) env call))"
    using cacheSpec_writes[of "live s (ce_now1 env)" env call] assms(5) by blast
  then show ?thesis unfolding writes[OF assms(1-4)] by (rule written_other)
qed

text \<open>Calls whose keys look the same in two states answer the same and keep them looking the
  same.\<close>

lemma same_step:
  assumes "cacheDo ops s env call = (a, s1)" "cacheDo ops s' env call = (a', s1')"
    and "env_ok env" "deltaOk call" "t \<le> ce_now1 env"
    and "\<And>k. k \<in> K \<Longrightarrow> live s t k = live s' t k" "callKeys call \<subseteq> K"
  shows "a = a'" and "k \<in> K \<Longrightarrow> live s1 (ce_now2 env) k = live s1' (ce_now2 env) k"
proof -
  have same: "k \<in> K \<Longrightarrow> t \<le> t' \<Longrightarrow> live s t' k = live s' t' k" for k t'
    using later[of t t' s] later[of t t' s'] assms(6) by simp
  then have spec: "cacheSpec (live s (ce_now1 env)) env call = cacheSpec (live s' (ce_now1 env)) env call"
    using assms(5,7) by (intro cacheSpec_local) auto
  show "a = a'" using answers[OF assms(1,3,4)] answers[OF assms(2,3,4)] spec by simp
  show "k \<in> K \<Longrightarrow> live s1 (ce_now2 env) k = live s1' (ce_now2 env) k"
    using writes[OF assms(1,3,4) order_refl] writes[OF assms(2,3,4) order_refl] spec same[of k "ce_now2 env"] assms(3,5)
    by (auto simp: env_ok_def intro!: written_cong)
qed

text \<open>One hit on a counter that is alive keeps its deadline.\<close>

lemma hit_step:
  assumes "cacheDo ops s env (KIncrementTTL key d ttl) = (a, s1)" "ce_ctx env = None" "env_ok env" "in_int64 d" "0 < ttl"
    and "live s (ce_now1 env) key = Some \<lparr>mi_payload = FormatInt n, mi_expiresAt = T\<rparr>" "in_int64 n"
    and "T \<noteq> 0" "ce_now2 env < T" "ce_now2 env \<le> t" "t < T"
  shows "[a] = hitAnswers n [d]"
    and "live s1 t key = Some \<lparr>mi_payload = FormatInt (hitTotal n [d]), mi_expiresAt = T\<rparr>"
proof -
  have "live s t key = Some \<lparr>mi_payload = FormatInt n, mi_expiresAt = T\<rparr>"
    using later[of "ce_now1 env" t s key] assms(3,6,8,10,11)
    by (simp add: env_ok_def alive_def item_expired_def IsZero_def)
  moreover have "deadlineOf (live s (ce_now1 env)) key (ce_now2 env) = T"
    using assms(6,8,9) by (simp add: deadlineOf_def alive_def item_expired_def IsZero_def)
  ultimately show "[a] = hitAnswers n [d]"
    and "live s1 t key = Some \<lparr>mi_payload = FormatInt (hitTotal n [d]), mi_expiresAt = T\<rparr>"
    using answers[OF assms(1,3)] writes[OF assms(1,3) _ assms(10)] assms(2,4-11)
    by (auto simp: cacheSpec_def spec_increment_def counterOf_def alive_def item_expired_def IsZero_def)
qed

end


context cache_store
begin

lemma window_run:
  assumes "inOrder t calls" "windowCalls key ttl calls" "0 < ttl" "cacheRun ops s calls = (as, s')"
    and "live s t key = Some \<lparr>mi_payload = FormatInt n, mi_expiresAt = T\<rparr>" "in_int64 n" "T \<noteq> 0" "clockEnd t calls < T"
  shows "answersTo (isHit key ttl) calls as = hitAnswers n (hitsIn key ttl calls)"
    and "live s' (clockEnd t calls) key = Some \<lparr>mi_payload = FormatInt (hitTotal n (hitsIn key ttl calls)), mi_expiresAt = T\<rparr>"
proof -
  have "answersTo (isHit key ttl) calls as = hitAnswers n (hitsIn key ttl calls) \<and>
     live s' (clockEnd t calls) key = Some \<lparr>mi_payload = FormatInt (hitTotal n (hitsIn key ttl calls)), mi_expiresAt = T\<rparr>"
    using assms
  proof (induction calls arbitrary: t s n as)
    case (Cons ec calls)
    obtain env call where ec: "ec = (env, call)" by (cases ec)
    obtain a s1 where a: "cacheDo ops s env call = (a, s1)" by (cases "cacheDo ops s env call")
    obtain as1 where as1: "cacheRun ops s1 calls = (as1, s')" "as = a # as1"
      using Cons.prems(4) ec a by (auto split: prod.splits)
    have o: "t \<le> ce_now1 env" "env_ok env" "deltaOk call" "inOrder (ce_now2 env) calls"
      using Cons.prems(1) ec by auto
    have w: "windowCalls key ttl calls" using Cons.prems(2) by (simp add: windowCalls_def)
    have T: "ce_now2 env < T" "clockEnd (ce_now2 env) calls < T"
      using Cons.prems(8) ec clockEnd_ge[OF o(4)] by auto
    have l: "live s t' key = Some \<lparr>mi_payload = FormatInt n, mi_expiresAt = T\<rparr>" if "t \<le> t'" "t' < T" for t'
      using later[OF that(1), of s key] Cons.prems(5,7) that(2) by (simp add: alive_def item_expired_def)
    have now: "t \<le> ce_now2 env" "ce_now1 env < T" using o(1,2) T(1) by (auto simp: env_ok_def)
    show ?case
    proof (cases "isHit key ttl ec")
      case True
      then obtain d where c: "call = KIncrementTTL key d ttl" "ce_ctx env = None"
        using ec by (auto simp: isHit_def split: cache_call.splits)
      note h = hit_step[OF a[unfolded c] c(2) o(2) _ assms(3) l[OF o(1) now(2)] Cons.prems(6,7) T(1) order_refl T(1)]
      have d: "in_int64 d" using o(3) c by simp
      have t: "in_int64 (hitTotal n [d])" using Cons.prems(6) by simp
      note IH = Cons.IH[OF o(4) w assms(3) as1(1) h(2)[OF d] t Cons.prems(7) T(2)]
      show ?thesis using True IH h(1)[OF d] as1(2) ec c
        by (auto simp: answersTo_def hitsIn_def hitDelta_def)
    next
      case False
      then have k: "key \<notin> callKeys call" using Cons.prems(2) ec by (simp add: windowCalls_def)
      have "live s1 (ce_now2 env) key = Some \<lparr>mi_payload = FormatInt n, mi_expiresAt = T\<rparr>"
        using other_key[OF a o(2,3) order_refl k] l[OF now(1) T(1)] by simp
      from Cons.IH[OF o(4) w assms(3) as1(1) this Cons.prems(6,7) T(2)] False as1(2) ec
      show ?thesis by (simp add: answersTo_def hitsIn_def)
    qed
  qed (simp add: answersTo_def hitsIn_def)
  then show "answersTo (isHit key ttl) calls as = hitAnswers n (hitsIn key ttl calls)"
    and "live s' (clockEnd t calls) key = Some \<lparr>mi_payload = FormatInt (hitTotal n (hitsIn key ttl calls)), mi_expiresAt = T\<rparr>"
    by auto
qed

text \<open>The first hit on a key with no entry opens the window.\<close>

lemma window_opens:
  assumes "cacheDo ops s env (KIncrementTTL key d ttl) = (a, s1)" "ce_ctx env = None" "env_ok env" "in_int64 d" "0 < ttl"
    and "live s (ce_now1 env) key = None" "0 \<le> ce_now2 env"
  shows "a = ACount (Inr d)"
    and "live s1 (ce_now2 env) key = Some \<lparr>mi_payload = FormatInt d, mi_expiresAt = ce_now2 env + ttl\<rparr>"
  using answers[OF assms(1,3)] writes[OF assms(1,3) _ order_refl] assms(2,4-7)
  by (auto simp: cacheSpec_def spec_increment_def counterOf_def deadlineOf_def alive_def item_expired_def IsZero_def)

end

subsection \<open>The memory driver keeps the contract\<close>

interpretation mem_cache: cache_store mc_ops mc_live
proof
  fix s s' env t and call :: "'v cache_call" and a
  assume d: "cacheDo mc_ops s env call = (a, s')" and ok: "env_ok env" "deltaOk call"
  have n: "ce_now1 env \<le> ce_now2 env" using ok(1) by (simp add: env_ok_def)
  have "a = fst (cacheSpec (mc_live s (ce_now1 env)) env call) \<and>
    (ce_now2 env \<le> t \<longrightarrow> mc_live s' t = written t (snd (cacheSpec (mc_live s (ce_now1 env)) env call)) (mc_live s t))"
  proof (cases call)
    case (KGet key dst)
    with d show ?thesis using mc_Get_refines[of s "ce_ctx env" key dst "ce_now1 env" "ce_now2 env"]
      by (auto simp: cacheDo_def cacheSpec_def mc_ops_def Let_def split: prod.splits)
  next
    case (KSet key v ttl)
    with d show ?thesis using mc_Set_refines[of s "ce_ctx env" key v ttl "ce_now1 env"]
      by (auto simp: cacheDo_def cacheSpec_def mc_ops_def split: prod.splits)
  next
    case (KDelete keys)
    with d show ?thesis using mc_Delete_refines[of s "ce_ctx env" keys]
      by (auto simp: cacheDo_def cacheSpec_def mc_ops_def split: prod.splits)
  next
    case (KIncrement key delta)
    with d ok n show ?thesis
      using mc_increment_refines[of s "ce_ctx env" key delta 0 "ce_now1 env" "ce_now2 env"]
      by (auto simp: cacheDo_def cacheSpec_def mc_ops_def mc_Increment_def split: prod.splits)
  next
    case (KIncrementTTL key delta ttl)
    with d ok n show ?thesis
      using mc_increment_refines[of s "ce_ctx env" key delta ttl "ce_now1 env" "ce_now2 env"]
      by (auto simp: cacheDo_def cacheSpec_def mc_ops_def mc_counter_def cache_IncrementTTL_def
          mc_IncrementTTL_def validateCounterTTL_def split: prod.splits)
  next
    case (KDecrementExisting key delta)
    with d ok show ?thesis
      using mc_DecrementExisting_refines[of s "ce_ctx env" key delta "ce_now1 env"]
      by (auto simp: cacheDo_def cacheSpec_def mc_ops_def mc_counter_def cache_DecrementExisting_def split: prod.splits)
  qed
  then show "a = fst (cacheSpec (mc_live s (ce_now1 env)) env call)"
    and "ce_now2 env \<le> t \<Longrightarrow> mc_live s' t = written t (snd (cacheSpec (mc_live s (ce_now1 env)) env call)) (mc_live s t)"
    by auto
qed (rule mc_live_later)

subsection \<open>A namespace of a cache is a cache\<close>

fun nsCall :: "string \<Rightarrow> 'v cache_call \<Rightarrow> 'v cache_call" where
  "nsCall n (KGet key dst) = KGet (ns_key n key) dst"
| "nsCall n (KSet key value ttl) = KSet (ns_key n key) value ttl"
| "nsCall n (KDelete keys) = KDelete (map (ns_key n) keys)"
| "nsCall n (KIncrement key delta) = KIncrement (ns_key n key) delta"
| "nsCall n (KIncrementTTL key delta ttl) = KIncrementTTL (ns_key n key) delta ttl"
| "nsCall n (KDecrementExisting key delta) = KDecrementExisting (ns_key n key) delta"

lemma ns_key_inj [simp]: "ns_key n k = ns_key n k' \<longleftrightarrow> k = k'"
  by (simp add: ns_key_def)

lemma callKeys_nsCall: "callKeys (nsCall n call) = ns_key n ` callKeys call"
  by (cases call) auto

lemma deltaOk_nsCall [simp]: "deltaOk (nsCall n call) = deltaOk call"
  by (cases call) auto

lemma cacheDo_namespaced: "cacheDo (namespaced n c) s env call = cacheDo c s env (nsCall n call)"
  by (cases call)
    (auto simp: cacheDo_def namespaced_def ns_counter_def cache_IncrementTTL_def cache_DecrementExisting_def
      split: option.splits prod.splits)

lemma spec_ns:
  fixes v :: live and n :: string
  defines "u \<equiv> \<lambda>k. v (ns_key n k)"
  shows "spec_increment v ctx (ns_key n key) d ttl now =
      map_prod (\<lambda>a. a) (map (\<lambda>(k, i). (ns_key n k, i))) (spec_increment u ctx key d ttl now)"
    and "spec_DecrementExisting v ctx (ns_key n key) d =
      map_prod (\<lambda>a. a) (map (\<lambda>(k, i). (ns_key n k, i))) (spec_DecrementExisting u ctx key d)"
    and "spec_Set ctx (ns_key n key) x ttl now =
      map_prod (\<lambda>a. a) (map (\<lambda>(k, i). (ns_key n k, i))) (spec_Set ctx key x ttl now)"
    and "spec_Get v ctx (ns_key n key) dst = spec_Get u ctx key dst"
proof -
  have c: "counterOf v (ns_key n key) = counterOf u key" and dl: "deadlineOf v (ns_key n key) now = deadlineOf u key now"
    and u: "v (ns_key n key) = u key"
    by (simp_all only: u_def counterOf_def deadlineOf_def)
  show "spec_increment v ctx (ns_key n key) d ttl now =
      map_prod (\<lambda>a. a) (map (\<lambda>(k, i). (ns_key n k, i))) (spec_increment u ctx key d ttl now)"
    by (cases ctx; cases "counterOf u key") (simp_all add: spec_increment_def c dl)
  show "spec_DecrementExisting v ctx (ns_key n key) d =
      map_prod (\<lambda>a. a) (map (\<lambda>(k, i). (ns_key n k, i))) (spec_DecrementExisting u ctx key d)"
    by (cases ctx; cases "u key"; cases "counterOf u key") (simp_all add: spec_DecrementExisting_def c u)
  show "spec_Set ctx (ns_key n key) x ttl now =
      map_prod (\<lambda>a. a) (map (\<lambda>(k, i). (ns_key n k, i))) (spec_Set ctx key x ttl now)"
    by (cases ctx; cases x) (simp_all add: spec_Set_def)
  show "spec_Get v ctx (ns_key n key) dst = spec_Get u ctx key dst"
    by (simp only: spec_Get_def u)
qed

lemma spec_nsCall:
  "cacheSpec v env (nsCall n call) =
     map_prod (\<lambda>a. a) (map (\<lambda>(k, i). (ns_key n k, i))) (cacheSpec (\<lambda>k. v (ns_key n k)) env call)"
  by (cases call)
    (simp_all add: cacheSpec_def spec_ns spec_Delete_def Let_def map_prod_def case_prod_unfold comp_def split: option.split)

lemma written_ns:
  "written t (map (\<lambda>(k, i). (ns_key n k, i)) ws) v (ns_key n k) = written t ws (\<lambda>k. v (ns_key n k)) k"
proof (induction ws arbitrary: v)
  case (Cons w ws)
  have "(\<lambda>k. (v(ns_key n (fst w) := alive t (snd w))) (ns_key n k)) = (\<lambda>k. v (ns_key n k))(fst w := alive t (snd w))"
    by (auto simp: fun_eq_iff)
  with Cons show ?case by (simp add: written_Cons case_prod_unfold)
qed simp

locale namespaced_store = cache_store +
  fixes n :: string

sublocale namespaced_store \<subseteq> ns: cache_store "namespaced n ops" "\<lambda>s t k. live s t (ns_key n k)"
proof
  fix s s' env call a t
  assume "cacheDo (namespaced n ops) s env call = (a, s')" "env_ok env" "deltaOk call"
  then have d: "cacheDo ops s env (nsCall n call) = (a, s')" "env_ok env" "deltaOk (nsCall n call)"
    by (simp_all add: cacheDo_namespaced)
  show "a = fst (cacheSpec (\<lambda>k. live s (ce_now1 env) (ns_key n k)) env call)"
    using answers[OF d] by (simp add: spec_nsCall)
  show "ce_now2 env \<le> t \<Longrightarrow> (\<lambda>k. live s' t (ns_key n k)) =
      written t (snd (cacheSpec (\<lambda>k. live s (ce_now1 env) (ns_key n k)) env call)) (\<lambda>k. live s t (ns_key n k))"
    using writes[OF d] by (simp add: spec_nsCall written_ns)
qed (rule later)

interpretation mem_ns: namespaced_store mc_ops mc_live n for n
  by unfold_locales

end
