(* ===== verification/Cache_Theorems.thy ===== *)
theory Cache_Theorems
  imports Cache_Contract
begin

section \<open>What callers of the cache can rely on\<close>

text \<open>
  Properties of the memory driver and of namespaces over it: counters with a fixed window, isolation
  of namespaces that share a cache, and that reclaiming expired entries cannot be observed, under
  every interleaving of the janitor's batches with other calls. The last part shows two places where
  the code does not do what its comments promise.
\<close>

subsection \<open>A fixed window\<close>

definition storedKey :: "string \<Rightarrow> string \<Rightarrow> string" where
  "storedKey namespace key = (if trimColons namespace = '''' then key else ns_key (trimColons namespace) key)"

lemma Namespace_cases:
  "trimColons namespace = '''' \<Longrightarrow> Namespace namespace c = c"
  "trimColons namespace \<noteq> '''' \<Longrightarrow> Namespace namespace c = namespaced (trimColons namespace) c"
  by (simp_all add: Namespace_def Let_def)

lemma answersTo_first: "P ec \<Longrightarrow> answersTo P (ec # calls) (a # as) = a # answersTo P calls as"
  by (simp add: answersTo_def)

context cache_store
begin

lemma window_from_start:
  assumes "inOrder t ((env, KIncrementTTL key d ttl) # calls)" "windowCalls key ttl calls" "0 < ttl" "0 \<le> t"
    and "ce_ctx env = None" "live s t key = None"
    and "cacheRun ops s ((env, KIncrementTTL key d ttl) # calls) = (as, s')"
    and "clockEnd (ce_now2 env) calls < ce_now2 env + ttl"
  shows "answersTo (isHit key ttl) ((env, KIncrementTTL key d ttl) # calls) as =
      hitAnswers 0 (d # hitsIn key ttl calls)"
    and "live s' (clockEnd (ce_now2 env) calls) key =
      Some \<lparr>mi_payload = FormatInt (hitTotal 0 (d # hitsIn key ttl calls)), mi_expiresAt = ce_now2 env + ttl\<rparr>"
    and "live s' (ce_now2 env + ttl) key = None"
proof -
  have o: "t \<le> ce_now1 env" "env_ok env" "in_int64 d" "inOrder (ce_now2 env) calls" using assms(1) by auto
  obtain a s1 as1 where a: "cacheDo ops s env (KIncrementTTL key d ttl) = (a, s1)"
    "cacheRun ops s1 calls = (as1, s')" "as = a # as1"
    using assms(7) by (auto split: prod.splits)
  have l: "live s (ce_now1 env) key = None" using later[OF o(1)] assms(6) by simp
  have p: "0 \<le> ce_now2 env" "ce_now2 env + ttl \<noteq> 0" using o(1,2) assms(3,4) by (auto simp: env_ok_def)
  note w = window_opens[OF a(1) assms(5) o(2,3) assms(3) l p(1)]
  note r = window_run[OF o(4) assms(2,3) a(2) w(2) o(3) p(2) assms(8)]
  show "answersTo (isHit key ttl) ((env, KIncrementTTL key d ttl) # calls) as =
      hitAnswers 0 (d # hitsIn key ttl calls)"
    using r(1) w(1) o(3) a(3) assms(5) by (simp add: answersTo_first isHit_def)
  show e: "live s' (clockEnd (ce_now2 env) calls) key =
      Some \<lparr>mi_payload = FormatInt (hitTotal 0 (d # hitsIn key ttl calls)), mi_expiresAt = ce_now2 env + ttl\<rparr>"
    using r(2) o(3) by simp
  show "live s' (ce_now2 env + ttl) key = None"
    using later[of "clockEnd (ce_now2 env) calls" "ce_now2 env + ttl" s' key] assms(8) e p(2)
    by (simp add: alive_def item_expired_def IsZero_def)
qed

end

text \<open>
  C26: A counter with an expiry counts a fixed window exactly. From the first \<open>IncrementTTL\<close> of a
  key with no live entry, through any namespace of the memory driver and among any other calls that
  leave the key alone, every further \<open>IncrementTTL\<close> before the deadline answers the exact running
  total (or refuses an increment that would leave the 64-bit range, keeping the total), no hit moves
  the deadline, and at the deadline the counter is gone.
\<close>

theorem fixed_window:
  assumes "inOrder t ((env, KIncrementTTL key d ttl) # calls)" "windowCalls key ttl calls" "0 < ttl" "0 \<le> t"
    and "ce_ctx env = None" "mc_live m t (storedKey namespace key) = None"
    and "cacheRun (Namespace namespace mc_ops) m ((env, KIncrementTTL key d ttl) # calls) = (as, m')"
    and "clockEnd (ce_now2 env) calls < ce_now2 env + ttl"
  shows "answersTo (isHit key ttl) ((env, KIncrementTTL key d ttl) # calls) as =
       hitAnswers 0 (d # hitsIn key ttl calls) \<and>
     mc_live m' (clockEnd (ce_now2 env) calls) (storedKey namespace key) =
       Some \<lparr>mi_payload = FormatInt (hitTotal 0 (d # hitsIn key ttl calls)), mi_expiresAt = ce_now2 env + ttl\<rparr> \<and>
     mc_live m' (ce_now2 env + ttl) (storedKey namespace key) = None"
proof (cases "trimColons namespace = ''''")
  case True
  then have k: "storedKey namespace key = key" by (simp add: storedKey_def)
  show ?thesis unfolding k
    using mem_cache.window_from_start[OF assms(1-5) assms(6)[unfolded k] assms(7)[unfolded Namespace_cases(1)[OF True]] assms(8)]
    by blast
next
  case False
  then have k: "storedKey namespace key = ns_key (trimColons namespace) key" by (simp add: storedKey_def)
  show ?thesis unfolding k
    using mem_ns.ns.window_from_start[OF assms(1-5) assms(6)[unfolded k] assms(7)[unfolded Namespace_cases(2)[OF False]] assms(8)]
    by blast
qed

definition at :: "gotime \<Rightarrow> call_env" where
  "at t = \<lparr>ce_ctx = None, ce_ctx2 = None, ce_now1 = t, ce_now2 = t, ce_now3 = t\<rparr>"

definition demoHits :: "int timedCall list" where
  "demoHits = [(at 110, KIncrementTTL ''ip'' 1 60), (at 120, KSet ''other'' (Inr ''7'') 5),
     (at 159, KIncrementTTL ''ip'' 2 60)]"

theorem fixed_window_witness:
  "answersTo (isHit ''ip'' 60) ((at 100, KIncrementTTL ''ip'' 1 60) # demoHits)
     (fst (cacheRun (Namespace ''app:'' mc_ops) (NewMemory []) ((at 100, KIncrementTTL ''ip'' 1 60) # demoHits))) =
   [ACount (Inr 1), ACount (Inr 2), ACount (Inr 4)]"
proof -
  let ?r = "cacheRun (Namespace ''app:'' mc_ops) (NewMemory []) ((at 100, KIncrementTTL ''ip'' 1 60) # demoHits)"
  have o: "inOrder 100 ((at 100, KIncrementTTL ''ip'' 1 60) # demoHits)" "windowCalls ''ip'' 60 demoHits"
    "(0 :: int) < 60" "(0 :: int) \<le> 100" "ce_ctx (at 100) = None"
    "clockEnd (ce_now2 (at 100)) demoHits < ce_now2 (at 100) + 60"
    by (simp_all add: demoHits_def at_def env_ok_def int64_defs windowCalls_def isHit_def)
  have l: "mc_live (NewMemory []) 100 (storedKey ''app:'' ''ip'') = None" by (simp add: mc_live_def NewMemory_def)
  have h: "hitsIn ''ip'' 60 demoHits = [1, 2]" by (simp add: hitsIn_def demoHits_def isHit_def hitDelta_def at_def)
  have "?r = (fst ?r, snd ?r)" by simp
  from fixed_window[OF o(1-5) l this o(6)] show ?thesis by (simp add: h int64_defs)
qed


subsection \<open>Tenants that share a cache\<close>

text \<open>A history of calls, each through the namespace it names, on one memory cache.\<close>

fun sharedRun :: "Memory \<Rightarrow> (string \<times> 'v timedCall) list \<Rightarrow> 'v cache_answer list \<times> Memory" where
  "sharedRun m [] = ([], m)"
| "sharedRun m ((namespace, env, call) # calls) =
     (let (a, m1) = cacheDo (Namespace namespace mc_ops) m env call; (as, m2) = sharedRun m1 calls in (a # as, m2))"

definition callsOf :: "string \<Rightarrow> (string \<times> 'v timedCall) list \<Rightarrow> 'v timedCall list" where
  "callsOf namespace calls = map snd (filter (\<lambda>c. fst c = namespace) calls)"

definition answersOf :: "string \<Rightarrow> (string \<times> 'v timedCall) list \<Rightarrow> 'v cache_answer list \<Rightarrow> 'v cache_answer list" where
  "answersOf namespace calls as = map snd (filter (\<lambda>p. fst (fst p) = namespace) (zip calls as))"

text \<open>
  Two namespaces are separate when neither, with its separating colon, begins the other: \<open>app\<close> and
  \<open>app:development\<close> are not (a key of the second is a key of the first), \<open>app:development\<close> and
  \<open>app:production\<close> are. Colons around a name do not count.
\<close>

definition separate :: "string \<Rightarrow> string \<Rightarrow> bool" where
  "separate n n' \<longleftrightarrow> (let a = trimColons n @ '':''; b = trimColons n' @ '':'' in
     take (length a) b \<noteq> a \<and> take (length b) a \<noteq> b)"

definition shareable :: "string \<Rightarrow> string \<Rightarrow> bool" where
  "shareable n n' \<longleftrightarrow> trimColons n' \<noteq> '''' \<and> (n' = n \<or> separate n n')"

lemma Namespace_named:
  "trimColons n \<noteq> '''' \<Longrightarrow> cacheDo (Namespace n c) s env call = cacheDo c s env (nsCall (trimColons n) call)"
  by (simp add: Namespace_def Let_def cacheDo_namespaced)

lemma ns_keys_disjoint:
  assumes "separate n n'"
  shows "ns_key (trimColons n) k \<noteq> ns_key (trimColons n') k'"
proof
  let ?a = "trimColons n @ '':''" and ?b = "trimColons n' @ '':''"
  assume "ns_key (trimColons n) k = ns_key (trimColons n') k'"
  then have "?a @ k = ?b @ k'" by (simp add: ns_key_def)
  then obtain us where "?a = ?b @ us \<or> ?b = ?a @ us" unfolding append_eq_append_conv2 by metis
  then have "take (length ?b) ?a = ?b \<or> take (length ?a) ?b = ?a" by (metis append_eq_conv_conj)
  with assms show False unfolding separate_def Let_def by blast
qed

lemma shared_same:
  assumes "inOrder t (map snd calls)" "list_all (\<lambda>c. shareable n (fst c)) calls" "trimColons n \<noteq> ''''"
    and "\<And>k. mc_live m t (ns_key (trimColons n) k) = mc_live m' t (ns_key (trimColons n) k)"
  shows "answersOf n calls (fst (sharedRun m calls)) = fst (cacheRun (Namespace n mc_ops) m' (callsOf n calls))"
  using assms(1,2,4)
proof (induction calls arbitrary: t m m')
  case (Cons c calls)
  obtain n1 env call where c: "c = (n1, env, call)" by (cases c) auto
  have o: "t \<le> ce_now1 env" "env_ok env" "deltaOk call" "inOrder (ce_now2 env) (map snd calls)"
    and pl: "shareable n n1" "list_all (\<lambda>c. shareable n (fst c)) calls"
    using Cons.prems(1,2) c by auto
  from pl(1) have n1: "trimColons n1 \<noteq> ''''" "n1 = n \<or> separate n n1" by (auto simp: shareable_def)
  obtain a m1 where a: "cacheDo mc_ops m env (nsCall (trimColons n1) call) = (a, m1)" by (cases "cacheDo mc_ops m env (nsCall (trimColons n1) call)")
  have d: "deltaOk (nsCall (trimColons n1) call)" using o(3) by simp
  show ?case
  proof (cases "n1 = n")
    case True
    obtain a' m1' where a': "cacheDo mc_ops m' env (nsCall (trimColons n1) call) = (a', m1')" by (cases "cacheDo mc_ops m' env (nsCall (trimColons n1) call)")
    have K: "callKeys (nsCall (trimColons n1) call) \<subseteq> range (ns_key (trimColons n))" using True by (auto simp: callKeys_nsCall)
    have L: "\<And>k. k \<in> range (ns_key (trimColons n)) \<Longrightarrow> mc_live m t k = mc_live m' t k" using Cons.prems(3) by auto
    note st = mem_cache.same_step[OF a a' o(2) d o(1) L K]
    have "answersOf n calls (fst (sharedRun m1 calls)) = fst (cacheRun (Namespace n mc_ops) m1' (callsOf n calls))"
      by (rule Cons.IH[OF o(4) pl(2)]) (rule st(2), auto)
    then show ?thesis using True st(1) a a' c n1(1)
      by (simp add: answersOf_def callsOf_def Namespace_named case_prod_unfold Let_def)
  next
    case False
    have "mc_live m1 (ce_now2 env) (ns_key (trimColons n) k) = mc_live m' (ce_now2 env) (ns_key (trimColons n) k)" for k
    proof -
      have "ns_key (trimColons n) k \<notin> callKeys (nsCall (trimColons n1) call)"
        using ns_keys_disjoint[of n n1 k] n1(2) False by (auto simp: callKeys_nsCall)
      from mem_cache.other_key[OF a o(2) d order_refl this]
      have "mc_live m1 (ce_now2 env) (ns_key (trimColons n) k) = mc_live m (ce_now2 env) (ns_key (trimColons n) k)" .
      moreover have "t \<le> ce_now2 env" using o(1,2) by (simp add: env_ok_def)
      ultimately show ?thesis using Cons.prems(3)[of k] mc_live_later[of t "ce_now2 env"] by simp
    qed
    then have "answersOf n calls (fst (sharedRun m1 calls)) = fst (cacheRun (Namespace n mc_ops) m' (callsOf n calls))"
      by (rule Cons.IH[OF o(4) pl(2)])
    then show ?thesis using False a c n1(1)
      by (simp add: answersOf_def callsOf_def Namespace_named case_prod_unfold Let_def)
  qed
qed (simp add: answersOf_def callsOf_def)

text \<open>
  C33: Namespaces are isolated. When several namespaces share one cache, and a namespace \<open>n\<close> is
  separate from every other of them (neither name with its colon begins the other, as with the
  default \<open>gombit:development\<close> and \<open>gombit:production\<close>), the answers \<open>n\<close> gets over a whole history
  of interleaved calls are exactly those it would get with only its own calls made: neither values,
  counters, deletions nor expiries of the others show.
\<close>

theorem namespaces_isolated:
  assumes "inOrder t (map snd calls)" "trimColons n \<noteq> ''''" "list_all (\<lambda>c. shareable n (fst c)) calls"
  shows "answersOf n calls (fst (sharedRun m calls)) = fst (cacheRun (Namespace n mc_ops) m (callsOf n calls))"
  by (rule shared_same[OF assms(1,3,2)]) simp

definition demoShared :: "(string \<times> int timedCall) list" where
  "demoShared = [(''gombit:development'', at 100, KIncrement ''n'' 5), (''gombit:production'', at 101, KIncrement ''n'' 1),
     (''gombit:development'', at 102, KDelete [''n'', ''gombit:production:n'']), (''gombit:production'', at 103, KIncrement ''n'' 1)]"

theorem namespaces_isolated_witness:
  "answersOf ''gombit:production'' demoShared (fst (sharedRun (NewMemory []) demoShared)) =
     fst (cacheRun (Namespace ''gombit:production'' mc_ops) (NewMemory []) (callsOf ''gombit:production'' demoShared)) \<and>
   answersOf ''gombit:production'' demoShared (fst (sharedRun (NewMemory []) demoShared)) = [ACount (Inr 1), ACount (Inr 2)]"
proof
  have o: "inOrder 100 (map snd demoShared)"
    by (simp add: demoShared_def at_def env_ok_def int64_defs)
  have n: "trimColons ''gombit:production'' \<noteq> ''''" "list_all (\<lambda>c. shareable ''gombit:production'' (fst c)) demoShared"
    by code_simp+
  show "answersOf ''gombit:production'' demoShared (fst (sharedRun (NewMemory []) demoShared)) =
     fst (cacheRun (Namespace ''gombit:production'' mc_ops) (NewMemory []) (callsOf ''gombit:production'' demoShared))"
    by (rule namespaces_isolated[OF o n])
  show "answersOf ''gombit:production'' demoShared (fst (sharedRun (NewMemory []) demoShared)) = [ACount (Inr 1), ACount (Inr 2)]"
    by code_simp
qed


subsection \<open>Reclaiming expired entries is never observed\<close>

text \<open>
  The steps of concurrent callers, one per critical section: a \<open>Get\<close> only reads in its first
  one, and its second one (\<open>SEvict\<close>) may come at any later moment, as may each batch of a
  janitor's sweep, whose reading of the clock is as old as the sweep. \<open>clockOk t\<close> says that a
  caller reads the clock no earlier than the readings of the evictions that came before.
\<close>

datatype 'v cache_step =
    SRead string "'v dst" gotime
  | SSet string encoded duration gotime
  | SDelete "string list"
  | SIncrement string int duration gotime gotime
  | SDecrement string int gotime
  | SEvict string gotime
  | SBatch gotime "string list"

fun evicts :: "'v cache_step \<Rightarrow> bool" where
  "evicts (SEvict _ _) = True"
| "evicts (SBatch _ _) = True"
| "evicts _ = False"

fun mc_step :: "Memory \<Rightarrow> 'v cache_step \<Rightarrow> 'v cache_answer list \<times> Memory" where
  "mc_step m (SRead key dst now) =
     (let r = getRead (map_of (mc_items m) key) dst now in ([AGet (fst r) (snd r)], m))"
| "mc_step m (SSet key v ttl now) = (let (r, m') = mc_Set m None key v ttl now in ([ADone r], m'))"
| "mc_step m (SDelete keys) = (let (r, m') = mc_Delete m None keys in ([ADone r], m'))"
| "mc_step m (SIncrement key d ttl now1 now2) =
     (let (r, m') = mc_increment m None key d ttl now1 now2 in ([ACount r], m'))"
| "mc_step m (SDecrement key d now) =
     (let (r, m') = mc_DecrementExisting m None key d now in ([AExisting (fst r) (snd r)], m'))"
| "mc_step m (SEvict key now) = ([], evictKey m key now)"
| "mc_step m (SBatch now keys) = ([], sweepBatch m now keys)"

fun mc_steps :: "Memory \<Rightarrow> 'v cache_step list \<Rightarrow> 'v cache_answer list \<times> Memory" where
  "mc_steps m [] = ([], m)"
| "mc_steps m (s # ss) = (let (a, m1) = mc_step m s; (as, m2) = mc_steps m1 ss in (a @ as, m2))"

fun clockOk :: "gotime \<Rightarrow> 'v cache_step list \<Rightarrow> bool" where
  "clockOk t [] \<longleftrightarrow> True"
| "clockOk t (SRead _ _ now # ss) \<longleftrightarrow> t \<le> now \<and> clockOk t ss"
| "clockOk t (SIncrement _ d _ now1 now2 # ss) \<longleftrightarrow> t \<le> now1 \<and> now1 \<le> now2 \<and> in_int64 d \<and> clockOk t ss"
| "clockOk t (SDecrement _ d now # ss) \<longleftrightarrow> t \<le> now \<and> in_int64 d \<and> clockOk t ss"
| "clockOk t (SEvict _ now # ss) \<longleftrightarrow> clockOk (max t now) ss"
| "clockOk t (SBatch now _ # ss) \<longleftrightarrow> clockOk (max t now) ss"
| "clockOk t (_ # ss) \<longleftrightarrow> clockOk t ss"

text \<open>\<open>Get\<close> is its read followed, when it found the entry expired, by its eviction.\<close>

lemma mc_Get_steps:
  "\<exists>ss. mc_Get m None key dst now1 now2 = (r, m') \<longrightarrow>
     mc_steps m (SRead key dst now1 # ss) = ([AGet (fst r) (snd r)], m') \<and> set ss \<subseteq> {SEvict key now2}"
proof (cases "case map_of (mc_items m) key of None \<Rightarrow> False | Some i \<Rightarrow> item_expired i now1")
  case True
  then show ?thesis
    by (intro exI[of _ "[SEvict key now2]"]) (auto simp: mc_Get_def Let_def split: option.splits)
next
  case False
  then show ?thesis by (intro exI[of _ "[]"]) (auto simp: mc_Get_def Let_def split: option.splits)
qed

lemma getRead_live: "getRead (map_of (mc_items m) key) dst now = spec_Get (mc_live m now) None key dst"
  by (auto simp: getRead_def spec_Get_def mc_live_def alive_def split: option.splits)

lemma step_same:
  assumes "\<not> evicts s" "clockOk t (s # ss)" "mc_live m t = mc_live m' t"
  shows "fst (mc_step m s) = fst (mc_step m' s)" "mc_live (snd (mc_step m s)) t = mc_live (snd (mc_step m' s)) t"
    "clockOk t ss"
proof -
  have l: "mc_live m now = mc_live m' now" if "t \<le> now" for now
    using mc_live_later[OF that, of m] mc_live_later[OF that, of m'] assms(3) by (simp add: fun_eq_iff)
  have "fst (mc_step m s) = fst (mc_step m' s) \<and> mc_live (snd (mc_step m s)) t = mc_live (snd (mc_step m' s)) t \<and> clockOk t ss"
  proof (cases s)
    case (SRead key dst now)
    with assms(2,3) l[of now] show ?thesis by (simp add: getRead_live Let_def)
  next
    case (SSet key v ttl now)
    with assms(2,3) show ?thesis
      using mc_Set_refines[OF prod.collapse[symmetric], of m None key v ttl now] mc_Set_refines[OF prod.collapse[symmetric], of m' None key v ttl now]
      by (simp add: case_prod_unfold Let_def)
  next
    case (SDelete keys)
    with assms(2,3) show ?thesis
      using mc_Delete_refines[OF prod.collapse[symmetric], of m None keys] mc_Delete_refines[OF prod.collapse[symmetric], of m' None keys]
      by (simp add: case_prod_unfold Let_def)
  next
    case (SIncrement key d ttl now1 now2)
    with assms(2) have o: "t \<le> now1" "now1 \<le> now2" "in_int64 d" "clockOk t ss" by auto
    show ?thesis unfolding SIncrement
      using mc_increment_refines[OF prod.collapse[symmetric] o(2,3), of m None key ttl]
        mc_increment_refines[OF prod.collapse[symmetric] o(2,3), of m' None key ttl] l[OF o(1)] assms(3) o(4)
      by (simp add: case_prod_unfold Let_def)
  next
    case (SDecrement key d now)
    with assms(2) have o: "t \<le> now" "in_int64 d" "clockOk t ss" by auto
    show ?thesis unfolding SDecrement
      using mc_DecrementExisting_refines[OF prod.collapse[symmetric] o(2), of m None key now]
        mc_DecrementExisting_refines[OF prod.collapse[symmetric] o(2), of m' None key now] l[OF o(1)] assms(3) o(3)
      by (simp add: case_prod_unfold Let_def)
  qed (use assms(1) in simp_all)
  then show "fst (mc_step m s) = fst (mc_step m' s)" "mc_live (snd (mc_step m s)) t = mc_live (snd (mc_step m' s)) t" "clockOk t ss"
    by auto
qed

lemma steps_same:
  assumes "clockOk t ss" "mc_live m t = mc_live m' t"
  shows "fst (mc_steps m ss) = fst (mc_steps m' (filter (\<lambda>s. \<not> evicts s) ss))"
  using assms
proof (induction ss arbitrary: t m m')
  case (Cons s ss)
  show ?case
  proof (cases "evicts s")
    case True
    then obtain now where s: "clockOk (max t now) ss" "fst (mc_step m s) = []"
      "mc_live (snd (mc_step m s)) (max t now) = mc_live m (max t now)"
      using Cons.prems(1) by (cases s) (auto simp: evictKey_live sweepBatch_live)
    have "mc_live m (max t now) = mc_live m' (max t now)"
      using mc_live_later[of t "max t now"] Cons.prems(2) by (simp add: fun_eq_iff)
    with Cons.IH[OF s(1), of "snd (mc_step m s)" m'] s(2,3) True show ?thesis by (simp add: case_prod_unfold Let_def)
  next
    case False
    note st = step_same[OF False Cons.prems]
    from Cons.IH[OF st(3,2)] st(1) False show ?thesis by (simp add: case_prod_unfold Let_def)
  qed
qed simp

text \<open>
  C32: Reclaiming expired entries is invisible. However the second half of a \<open>Get\<close> and the batches
  of the janitor's sweeps are interleaved with the other calls, and however stale their reading of
  the clock, every answer is the one the same calls give with no reclaiming at all: a live entry is
  never dropped, and a counter never starts over early. And a sweep nobody interleaves with leaves
  exactly the live entries.
\<close>

theorem evictions_unobserved:
  assumes "clockOk t ss" "0 < mc_sweepBatchSize m"
  shows "fst (mc_steps m ss) = fst (mc_steps m (filter (\<lambda>s. \<not> evicts s) ss)) \<and>
    map_of (mc_items (snd (sweepExpired m now))) = mc_live m now"
  using steps_same[OF assms(1)] sweepExpired_items[OF assms(2)] by (auto simp: fun_eq_iff)

definition demoSteps2 :: "int cache_step list" where
  "demoSteps2 = [SSet ''a'' (Inr ''1'') 10 100, SSet ''b'' (Inr ''2'') 50 100, SBatch 112 [''a''], SSet ''b'' (Inr ''3'') 5 112,
     SSet ''a'' (Inr ''4'') 10 113, SBatch 112 [''a'', ''b''], SIncrement ''a'' 1 0 115 116, SEvict ''b'' 130, SDecrement ''b'' 1 131]"

theorem evictions_unobserved_witness:
  "fst (mc_steps (NewMemory []) demoSteps2) = fst (mc_steps (NewMemory []) (filter (\<lambda>s. \<not> evicts s) demoSteps2)) \<and>
   ACount (Inr 5) \<in> set (fst (mc_steps (NewMemory []) demoSteps2))"
proof -
  have o: "clockOk 100 demoSteps2" "0 < mc_sweepBatchSize (NewMemory [])"
    by (simp_all add: demoSteps2_def int64_defs NewMemory_def memorySweepBatchSize_def)
  have "ACount (Inr 5) \<in> set (fst (mc_steps (NewMemory []) demoSteps2))" by code_simp
  with evictions_unobserved[OF o] show ?thesis by blast
qed

subsection \<open>Two promises the code does not keep\<close>

text \<open>
  \<open>Counter\<close> promises that a key that already expires keeps its deadline. \<open>increment\<close> reads
  the clock twice; when the deadline passes between the two readings, the old count is kept but its
  deadline is not: \<open>Increment\<close> turns the expired counter into one that never expires, and
  \<open>IncrementTTL\<close> carries the old window's count into a new one.
\<close>

theorem increment_straddles_deadline:
  assumes "map_of (mc_items m) key = Some \<lparr>mi_payload = FormatInt n, mi_expiresAt = T\<rparr>"
    and "in_int64 n" "in_int64 d" "in_int64 (n + d)" "T \<noteq> 0" "now1 < T" "T \<le> now2" "0 \<le> ttl"
  shows "\<exists>m'. mc_increment m None key d ttl now1 now2 = (Inr (n + d), m') \<and>
    map_of (mc_items m') key = Some \<lparr>mi_payload = FormatInt (n + d), mi_expiresAt = if ttl = 0 then 0 else now2 + ttl\<rparr>"
proof -
  have n: "now1 \<le> now2" using assms(6,7) by simp
  have l: "mc_live m now1 key = Some \<lparr>mi_payload = FormatInt n, mi_expiresAt = T\<rparr>"
    using assms(1,6) by (simp add: mc_live_def alive_def item_expired_def)
  then have "counterOf (mc_live m now1) key = Inr n" "deadlineOf (mc_live m now1) key now2 = 0"
    using assms(2,5,7) by (simp_all add: counterOf_def deadlineOf_def alive_def item_expired_def IsZero_def)
  then show ?thesis using assms(4,8) by (simp add: mc_increment_eq[OF n assms(3)] spec_increment_def)
qed

text \<open>
  \<open>IncrementTTL\<close> of a cache without a \<open>Counter\<close> promises never to leave a counter that lives
  forever. When the context ends between its increment and its second write, the counter has been
  created without an expiry, and no later call gives it one.
\<close>

definition plainCache :: "('v, Memory) cache_ops" where
  "plainCache = mc_ops\<lparr>co_counter := None\<rparr>"

theorem fallback_leaves_immortal_counter:
  "let env = (at 100)\<lparr>ce_ctx2 := Some (DriverErr ''context canceled'')\<rparr>;
       (r1, m1) = cache_IncrementTTL (plainCache :: (int, Memory) cache_ops) (NewMemory []) env ''k'' 1 60;
       (r2, m2) = cache_IncrementTTL (plainCache :: (int, Memory) cache_ops) m1 (at 110) ''k'' 1 60
   in r1 = Inl (DriverErr ''context canceled'') \<and> r2 = Inr 2 \<and>
      map_of (mc_items m2) ''k'' = Some \<lparr>mi_payload = ''2'', mi_expiresAt = 0\<rparr>"
  by code_simp

end
