(* ===== verification/Go_Strings.thy ===== *)
theory Go_Strings
  imports Go_Numbers
begin

section \<open>Go strings\<close>

text \<open>
  What the source uses of Go's \<open>strings\<close>, \<open>unicode/utf8\<close> and \<open>strconv\<close> packages: UTF-8
  decoding and encoding, \<open>utf8.RuneCountInString\<close>, \<open>strings.TrimSpace\<close>, \<open>strings.ToLower\<close>,
  \<open>strings.HasPrefix\<close> and \<open>strings.HasSuffix\<close>, and \<open>strconv.ParseUint\<close> in base ten.
\<close>

subsection \<open>UTF-8\<close>

definition contByte :: "int \<Rightarrow> bool" where
  "contByte c \<longleftrightarrow> 0x80 \<le> c \<and> c \<le> 0xBF"

definition lead3 :: "int \<Rightarrow> int \<Rightarrow> bool" where
  "lead3 b c \<longleftrightarrow> b = 0xE0 \<and> 0xA0 \<le> c \<and> c \<le> 0xBF \<or> b = 0xED \<and> 0x80 \<le> c \<and> c \<le> 0x9F \<or>
     (0xE1 \<le> b \<and> b \<le> 0xEC \<or> 0xEE \<le> b \<and> b \<le> 0xEF) \<and> contByte c"

definition lead4 :: "int \<Rightarrow> int \<Rightarrow> bool" where
  "lead4 b c \<longleftrightarrow> b = 0xF0 \<and> 0x90 \<le> c \<and> c \<le> 0xBF \<or> b = 0xF4 \<and> 0x80 \<le> c \<and> c \<le> 0x8F \<or>
     0xF1 \<le> b \<and> b \<le> 0xF3 \<and> contByte c"

text \<open>The first rune of an encoding and the bytes after it (\<open>utf8.DecodeRune\<close>); \<open>None\<close> when the
  bytes do not start with a valid one.\<close>

definition decodeRune :: "int list \<Rightarrow> (int \<times> int list) option" where
  "decodeRune bytes = (case bytes of [] \<Rightarrow> None | b # bs \<Rightarrow>
     if b < 0x80 then Some (b, bs)
     else (case bs of [] \<Rightarrow> None | c1 # bs1 \<Rightarrow>
       if 0xC2 \<le> b \<and> b \<le> 0xDF \<and> contByte c1
       then Some ((b - 0xC0) * 64 + (c1 - 0x80), bs1)
       else (case bs1 of [] \<Rightarrow> None | c2 # bs2 \<Rightarrow>
         if lead3 b c1 \<and> contByte c2
         then Some ((b - 0xE0) * 4096 + (c1 - 0x80) * 64 + (c2 - 0x80), bs2)
         else (case bs2 of [] \<Rightarrow> None | c3 # bs3 \<Rightarrow>
           if lead4 b c1 \<and> contByte c2 \<and> contByte c3
           then Some ((b - 0xF0) * 262144 + (c1 - 0x80) * 4096 + (c2 - 0x80) * 64 + (c3 - 0x80), bs3)
           else None))))"

lemma decodeRune_shorter: "decodeRune bytes = Some (r, rest) \<Longrightarrow> length rest < length bytes"
  by (auto simp: decodeRune_def split: list.splits if_splits)

lemma decodeRune_append: "decodeRune bytes = Some (r, rest) \<Longrightarrow> decodeRune (bytes @ more) = Some (r, rest @ more)"
  by (auto simp: decodeRune_def split: list.splits if_splits)

text \<open>The runes of a valid encoding; \<open>None\<close> when \<open>utf8.ValidString\<close> is false.\<close>

function utf8Runes :: "int list \<Rightarrow> int list option" where
  "utf8Runes bytes = (if bytes = [] then Some []
     else (case decodeRune bytes of None \<Rightarrow> None
       | Some (r, rest) \<Rightarrow> map_option ((#) r) (utf8Runes rest)))"
  by pat_completeness auto
termination
  by (relation "measure length") (auto dest: decodeRune_shorter)

declare utf8Runes.simps [simp del]

definition stringRunes :: "string \<Rightarrow> int list option" where
  "stringRunes s = utf8Runes (map of_char s)"

lemma utf8Runes_append:
  "utf8Runes as = Some rs \<Longrightarrow> utf8Runes (as @ bs) = map_option ((@) rs) (utf8Runes bs)"
proof (induction as arbitrary: rs rule: utf8Runes.induct)
  case (1 as)
  show ?case
  proof (cases "as = []")
    case True
    with 1(2) show ?thesis by (simp add: utf8Runes.simps[of "[]"] option.map_ident)
  next
    case False
    with 1(2) obtain r rest rs' where d: "decodeRune as = Some (r, rest)" "utf8Runes rest = Some rs'" "rs = r # rs'"
      by (auto simp: utf8Runes.simps[of as] split: option.splits)
    have "utf8Runes (rest @ bs) = map_option ((@) rs') (utf8Runes bs)" using 1(1)[OF False d(1) refl d(2)] .
    with d False show ?thesis
      by (simp add: utf8Runes.simps[of "as @ bs"] decodeRune_append option.map_comp comp_def)
  qed
qed

lemma decodeRune_ascii:
  assumes "decodeRune bytes = Some (r, rest)" "b \<in> set bytes" "b < 0x80"
  shows "b = r \<or> b \<in> set rest"
  using assms by (auto simp: decodeRune_def contByte_def lead3_def lead4_def split: list.splits if_splits)

text \<open>A byte below 128 of a valid string is one of its runes.\<close>

lemma utf8Runes_ascii: "utf8Runes bytes = Some rs \<Longrightarrow> b \<in> set bytes \<Longrightarrow> b < 0x80 \<Longrightarrow> b \<in> set rs"
proof (induction bytes arbitrary: rs rule: utf8Runes.induct)
  case (1 bytes)
  have ne: "bytes \<noteq> []" using 1(3) by auto
  with 1(2) obtain r rest rs' where d: "decodeRune bytes = Some (r, rest)" "utf8Runes rest = Some rs'" "rs = r # rs'"
    by (auto simp: utf8Runes.simps[of bytes] split: option.splits)
  from decodeRune_ascii[OF d(1) 1(3,4)] 1(1)[OF ne d(1) refl d(2)] 1(4) d(3) show ?case by auto
qed

definition encodeRune :: "int \<Rightarrow> int list" where
  "encodeRune r = (if r < 0x80 then [r]
     else if r < 0x800 then [0xC0 + r div 64, 0x80 + r mod 64]
     else if r < 0x10000 then [0xE0 + r div 4096, 0x80 + r div 64 mod 64, 0x80 + r mod 64]
     else [0xF0 + r div 262144, 0x80 + r div 4096 mod 64, 0x80 + r div 64 mod 64, 0x80 + r mod 64])"

definition RuneError :: int where "RuneError = 0xFFFD"

text \<open>A \<open>range\<close> loop over any string: a byte that starts no valid encoding is one \<open>RuneError\<close>.\<close>

function rangeRunes :: "int list \<Rightarrow> int list" where
  "rangeRunes bytes = (if bytes = [] then []
     else (case decodeRune bytes of None \<Rightarrow> RuneError # rangeRunes (tl bytes) | Some (r, rest) \<Rightarrow> r # rangeRunes rest))"
  by pat_completeness auto
termination
  by (relation "measure length") (auto dest: decodeRune_shorter)

declare rangeRunes.simps [simp del]

definition RuneCount :: "string \<Rightarrow> int" where
  "RuneCount s = int (length (rangeRunes (map of_char s)))"

text \<open>A rune count is at most the length in bytes, so a limit in characters never admits more
  characters than a limit in bytes of the same size.\<close>

lemma rangeRunes_length: "length (rangeRunes bytes) \<le> length bytes"
proof (induction bytes rule: rangeRunes.induct)
  case (1 bytes)
  show ?case
  proof (cases "bytes = []")
    case False
    then obtain b bs where b: "bytes = b # bs" by (cases bytes) auto
    show ?thesis
    proof (cases "decodeRune bytes")
      case None
      with 1(1)[OF False None] b show ?thesis by (subst rangeRunes.simps) simp
    next
      case (Some x)
      then obtain r rest where x: "decodeRune bytes = Some (r, rest)" by (cases x) auto
      from 1(2)[OF False Some, of r rest] decodeRune_shorter[OF x] x False Some show ?thesis
        by (subst rangeRunes.simps) simp
    qed
  qed (simp add: rangeRunes.simps)
qed

lemma RuneCount_le: "RuneCount s \<le> int (length s)"
  using rangeRunes_length[of "map of_char s"] by (simp add: RuneCount_def)

subsection \<open>Trimming and case\<close>

text \<open>The encodings of the runes of \<open>unicode.IsSpace\<close>.\<close>

definition spaceRunes :: "int list" where
  "spaceRunes = [0x09, 0x0A, 0x0B, 0x0C, 0x0D, 0x20, 0x85, 0xA0, 0x1680, 0x2000, 0x2001, 0x2002, 0x2003, 0x2004, 0x2005,
     0x2006, 0x2007, 0x2008, 0x2009, 0x200A, 0x2028, 0x2029, 0x202F, 0x205F, 0x3000]"

definition spaceEncodings :: "string list" where
  "spaceEncodings = map (\<lambda>r. map char_of (encodeRune r)) spaceRunes"

definition HasPrefix :: "string \<Rightarrow> string \<Rightarrow> bool" where
  "HasPrefix s p \<longleftrightarrow> take (length p) s = p"

definition HasSuffix :: "string \<Rightarrow> string \<Rightarrow> bool" where
  "HasSuffix s p \<longleftrightarrow> HasPrefix (rev s) (rev p)"

definition startsWithOne :: "string list \<Rightarrow> string \<Rightarrow> string option" where
  "startsWithOne ps s = find (\<lambda>p. p \<noteq> [] \<and> HasPrefix s p) ps"

lemma HasPrefix_drop: "HasPrefix s p \<Longrightarrow> p \<noteq> [] \<Longrightarrow> length (drop (length p) s) < length s"
  by (cases s; cases p) (auto simp: HasPrefix_def)

lemma startsWithOne_Some: "startsWithOne ps s = Some p \<Longrightarrow> p \<in> set ps \<and> p \<noteq> [] \<and> HasPrefix s p"
  by (auto simp: startsWithOne_def find_Some_iff)

function trimLeftOf :: "string list \<Rightarrow> string \<Rightarrow> string" where
  "trimLeftOf ps s = (case startsWithOne ps s of None \<Rightarrow> s | Some p \<Rightarrow> trimLeftOf ps (drop (length p) s))"
  by pat_completeness auto

termination
  by (relation "measure (\<lambda>(ps, s). length s)")
    (auto simp del: length_drop dest!: startsWithOne_Some intro: HasPrefix_drop)

declare trimLeftOf.simps [simp del]

definition TrimSpace :: "string \<Rightarrow> string" where
  "TrimSpace s = rev (trimLeftOf (map rev spaceEncodings) (rev (trimLeftOf spaceEncodings s)))"

text \<open>\<open>strings.ToLower\<close>: bytes for an ASCII string, runes otherwise. \<open>lower\<close> is \<open>unicode.ToLower\<close>
  beyond ASCII (Unicode's case table).\<close>

definition asciiLower :: "int \<Rightarrow> int" where
  "asciiLower b = (if 0x41 \<le> b \<and> b \<le> 0x5A then b + 0x20 else b)"

definition ToLower :: "(int \<Rightarrow> int) \<Rightarrow> string \<Rightarrow> string" where
  "ToLower lower s = (let bytes = map of_char s in
     if list_all (\<lambda>b. b < 0x80) bytes then map char_of (map asciiLower bytes)
     else map char_of (concat (map (\<lambda>r. encodeRune (if r < 0x80 then asciiLower r else lower r)) (rangeRunes bytes))))"

subsection \<open>Splitting\<close>

text \<open>\<open>strings.Split(s, sep)\<close> and \<open>strings.Cut(s, sep)\<close> for a separator of one byte, and
  \<open>strings.TrimPrefix\<close>.\<close>

fun SplitByte :: "char \<Rightarrow> string \<Rightarrow> string list" where
  "SplitByte sep [] = [[]]"
| "SplitByte sep (c # cs) =
     (if c = sep then [] # SplitByte sep cs
      else (case SplitByte sep cs of [] \<Rightarrow> [[c]] | t # ts \<Rightarrow> (c # t) # ts))"

definition CutByte :: "char \<Rightarrow> string \<Rightarrow> (string \<times> string) option" where
  "CutByte sep s = (if sep \<in> set s
     then Some (takeWhile (\<lambda>c. c \<noteq> sep) s, tl (dropWhile (\<lambda>c. c \<noteq> sep) s)) else None)"

definition TrimPrefix :: "string \<Rightarrow> string \<Rightarrow> string" where
  "TrimPrefix s p = (if HasPrefix s p then drop (length p) s else s)"

lemma SplitByte_none: "sep \<notin> set s \<Longrightarrow> SplitByte sep s = [s]"
  by (induction s) auto

lemma SplitByte_append: "sep \<notin> set s \<Longrightarrow> SplitByte sep (s @ sep # t) = s # SplitByte sep t"
  by (induction s) auto

lemma CutByte_append: "sep \<notin> set k \<Longrightarrow> CutByte sep (k @ sep # v) = Some (k, v)"
  by (induction k) (auto simp: CutByte_def)

lemma CutByte_SomeD:
  assumes "CutByte sep s = Some (k, v)"
  shows "s = k @ sep # v \<and> sep \<notin> set k"
proof -
  let ?d = "dropWhile (\<lambda>c. c \<noteq> sep) s"
  have kv: "sep \<in> set s" "k = takeWhile (\<lambda>c. c \<noteq> sep) s" "v = tl ?d"
    using assms by (simp_all add: CutByte_def split: if_splits)
  then have ne: "?d \<noteq> []" by (auto simp: dropWhile_eq_Nil_conv)
  then have "?d = sep # v" using hd_dropWhile [OF ne] kv(3) by (metis list.collapse)
  then have "s = k @ sep # v" using kv(2) by (metis takeWhile_dropWhile_id)
  moreover have "sep \<notin> set k" using kv(2) by (metis set_takeWhileD)
  ultimately show ?thesis by simp
qed

subsection \<open>Unsigned numbers\<close>

definition MaxUint64 :: nat where "MaxUint64 = 18446744073709551615"

definition ParseUint :: "string \<Rightarrow> nat option" where
  "ParseUint s = (if s = [] \<or> \<not> list_all isDigit s \<or> MaxUint64 < digitsVal s then None else Some (digitsVal s))"

lemma startsWithOne_trimmed: "startsWithOne ps (trimLeftOf ps s) = None"
proof (induction ps s rule: trimLeftOf.induct)
  case (1 ps s)
  then show ?case by (subst trimLeftOf.simps) (auto split: option.splits)
qed

lemma trimLeftOf_id: "startsWithOne ps s = None \<Longrightarrow> trimLeftOf ps s = s"
  by (subst trimLeftOf.simps) simp

text \<open>Numerals are left alone by trimming and read back.\<close>

lemma spaceEncodings_eval: "list_all (\<lambda>p. p \<noteq> [] \<and> \<not> isDigit (hd p) \<and> \<not> isDigit (last p)) spaceEncodings"
  by code_simp

lemma HasPrefix_hd: "HasPrefix s p \<Longrightarrow> p \<noteq> [] \<Longrightarrow> s \<noteq> [] \<and> hd s = hd p"
  by (cases s; cases p) (auto simp: HasPrefix_def)

lemma TrimSpace_digit_ends:
  assumes "s \<noteq> []" "isDigit (hd s)" "isDigit (last s)"
  shows "TrimSpace s = s"
proof -
  have "startsWithOne spaceEncodings s = None"
    using assms(2) spaceEncodings_eval by (auto simp: startsWithOne_def find_None_iff list_all_iff dest: HasPrefix_hd)
  moreover have "isDigit (hd (rev s))" using assms(1,3) by (simp add: hd_rev)
  then have "startsWithOne (map rev spaceEncodings) (rev s) = None"
    using spaceEncodings_eval by (auto simp: startsWithOne_def find_None_iff list_all_iff hd_rev dest: HasPrefix_hd)
  ultimately show ?thesis by (simp add: TrimSpace_def trimLeftOf_id)
qed

lemma TrimSpace_digits:
  assumes "list_all isDigit s"
  shows "TrimSpace s = s"
proof (cases "s = []")
  case False
  then show ?thesis using assms by (intro TrimSpace_digit_ends) (auto simp: list_all_iff)
qed (simp add: TrimSpace_def trimLeftOf_id startsWithOne_def find_None_iff HasPrefix_def)

lemma ParseUint_natDigits: "n \<le> MaxUint64 \<Longrightarrow> ParseUint (natDigits n) = Some n"
  by (simp add: ParseUint_def natDigits_digits digitsVal_natDigits)

end
