(* ===== verification/Storage_Key.thy ===== *)
theory Storage_Key
  imports Go_Strings
begin

section \<open>Object keys\<close>

text \<open>
  The rules for object keys and key prefixes of \<open>internal/storagekey/storagekey.go\<close>, which
  \<open>storage.ValidateKey\<close> and \<open>storage.ValidatePrefix\<close> expose, over the UTF-8 decoding of
  \<open>Go_Strings\<close> (\<open>utf8.ValidString\<close> and a \<open>range\<close> loop over a string). They are shown to accept exactly
  the keys the documentation describes, and a prefix in front of a key to keep the rules of both.
\<close>

subsection \<open>The key rules\<close>

definition MaxKeyBytes :: int where "MaxKeyBytes = 1024"
definition MaxSegmentBytes :: int where "MaxSegmentBytes = 255"

definition UnsafeRune :: "int \<Rightarrow> bool" where
  "UnsafeRune r \<longleftrightarrow>
     r < 0x20 \<or> 0x7F \<le> r \<and> r \<le> 0x9F                      \<comment> \<open>unicode.IsControl\<close>
   \<or> r = 0x2028 \<or> r = 0x2029                               \<comment> \<open>Zl, Zp\<close>
   \<or> r = 0x061C \<or> r = 0x200E \<or> r = 0x200F \<or> 0x202A \<le> r \<and> r \<le> 0x202E \<or> 0x2066 \<le> r \<and> r \<le> 0x2069"

datatype key_problem =
    KeyEmpty | KeyTooLong | KeyNotUTF8 | KeyStartsWithSlash | KeyEndsWithSlash | KeyBackslash
  | KeyControl int | KeyEmptySegment | KeyDotSegment string | KeySegmentEnd string | KeySegmentTooLong string
  | PrefixNoSlash | PrefixNoRoom

text \<open>\<open>strings.Split(key, "/")\<close>.\<close>

fun splitSlash :: "string \<Rightarrow> string list" where
  "splitSlash [] = [[]]"
| "splitSlash (c # cs) = (if c = CHR ''/'' then [] # splitSlash cs
     else (case splitSlash cs of [] \<Rightarrow> [[c]] | seg # segs \<Rightarrow> (c # seg) # segs))"

fun runeProblem :: "int list \<Rightarrow> key_problem option" where
  "runeProblem [] = None"
| "runeProblem (r # rs) = (if r = 0x5C then Some KeyBackslash
     else if UnsafeRune r then Some (KeyControl r) else runeProblem rs)"

definition segmentProblem :: "string \<Rightarrow> key_problem option" where
  "segmentProblem seg = (if seg = '''' then Some KeyEmptySegment
     else if seg = ''.'' \<or> seg = ''..'' then Some (KeyDotSegment seg)
     else if last seg = CHR ''.'' \<or> last seg = CHR '' '' then Some (KeySegmentEnd seg)
     else if MaxSegmentBytes < int (length seg) then Some (KeySegmentTooLong seg)
     else None)"

fun segmentsProblem :: "string list \<Rightarrow> key_problem option" where
  "segmentsProblem [] = None"
| "segmentsProblem (seg # segs) = (case segmentProblem seg of Some p \<Rightarrow> Some p | None \<Rightarrow> segmentsProblem segs)"

definition Problem :: "string \<Rightarrow> key_problem option" where
  "Problem key = (if key = '''' then Some KeyEmpty
     else if MaxKeyBytes < int (length key) then Some KeyTooLong
     else (case stringRunes key of None \<Rightarrow> Some KeyNotUTF8
     | Some rs \<Rightarrow>
       if hd key = CHR ''/'' then Some KeyStartsWithSlash
       else if last key = CHR ''/'' then Some KeyEndsWithSlash
       else (case runeProblem rs of Some p \<Rightarrow> Some p
         | None \<Rightarrow> segmentsProblem (splitSlash key))))"

definition PrefixProblem :: "string \<Rightarrow> key_problem option" where
  "PrefixProblem p = (if p = '''' then None
     else if last p \<noteq> CHR ''/'' then Some PrefixNoSlash
     else (case Problem (butlast p) of Some e \<Rightarrow> Some e
       | None \<Rightarrow> if MaxKeyBytes \<le> int (length p) then Some PrefixNoRoom else None))"

definition ValidateKey :: "string \<Rightarrow> bool" where
  "ValidateKey key \<longleftrightarrow> Problem key = None"

definition ValidatePrefix :: "string \<Rightarrow> bool" where
  "ValidatePrefix p \<longleftrightarrow> PrefixProblem p = None"

subsection \<open>Facts about the rules\<close>

lemma splitSlash_nonempty [simp]: "splitSlash s \<noteq> []"
  by (induction s) (auto split: list.splits)

lemma splitSlash_append: "splitSlash (a @ CHR ''/'' # b) = splitSlash a @ splitSlash b"
  by (induction a) (auto split: list.splits)

lemma runeProblem_append: "runeProblem (a @ b) = None \<longleftrightarrow> runeProblem a = None \<and> runeProblem b = None"
  by (induction a rule: runeProblem.induct) auto

lemma segmentsProblem_append: "segmentsProblem (a @ b) = None \<longleftrightarrow> segmentsProblem a = None \<and> segmentsProblem b = None"
  by (induction a) (auto split: option.splits)

lemma segmentsProblem_all: "segmentsProblem segs = None \<longleftrightarrow> list_all (\<lambda>s. segmentProblem s = None) segs"
  by (induction segs) (auto split: option.splits)

lemma Problem_None:
  "Problem key = None \<longleftrightarrow> key \<noteq> '''' \<and> int (length key) \<le> MaxKeyBytes \<and> hd key \<noteq> CHR ''/'' \<and> last key \<noteq> CHR ''/'' \<and>
     (\<exists>rs. stringRunes key = Some rs \<and> runeProblem rs = None) \<and> segmentsProblem (splitSlash key) = None"
  by (auto simp: Problem_def split: option.splits if_splits)

lemma stringRunes_append:
  "stringRunes a = Some ra \<Longrightarrow> stringRunes b = Some rb \<Longrightarrow> stringRunes (a @ b) = Some (ra @ rb)"
  by (simp add: stringRunes_def utf8Runes_append)

lemma stringRunes_slash: "stringRunes ''/'' = Some [0x2F]"
  by code_simp

lemma runeProblem_slash: "runeProblem [0x2F] = None"
  by code_simp

lemma runeProblem_safe: "runeProblem rs = None \<Longrightarrow> r \<in> set rs \<Longrightarrow> \<not> UnsafeRune r"
  by (induction rs rule: runeProblem.induct) (auto split: if_splits)

lemma valid_no_newline: "ValidateKey key \<Longrightarrow> CHR 0x0A \<notin> set key"
proof
  assume "ValidateKey key" and n: "CHR 0x0A \<in> set key"
  then obtain rs where r: "utf8Runes (map of_char key) = Some rs" "runeProblem rs = None"
    by (auto simp: ValidateKey_def Problem_None stringRunes_def)
  have "(10 :: int) \<in> set (map of_char key)" using imageI[OF n, of of_char] by simp
  from utf8Runes_ascii[OF r(1) this] have "10 \<in> set rs" by simp
  from runeProblem_safe[OF r(2) this] show False by (simp add: UnsafeRune_def)
qed

text \<open>A prefix in front of a key.\<close>

lemma valid_join:
  assumes "Problem a = None" "Problem b = None" "int (length a) + 1 + int (length b) \<le> MaxKeyBytes"
  shows "Problem (a @ CHR ''/'' # b) = None"
proof -
  from assms(1,2) obtain ra rb where r: "stringRunes a = Some ra" "stringRunes b = Some rb"
    "runeProblem ra = None" "runeProblem rb = None" by (auto simp: Problem_None)
  have "stringRunes (a @ ''/'' @ b) = Some (ra @ [0x2F] @ rb)"
    by (intro stringRunes_append r stringRunes_slash)
  moreover have "runeProblem (ra @ [0x2F] @ rb) = None"
    unfolding runeProblem_append using r(3,4) runeProblem_slash by blast
  ultimately show ?thesis using assms unfolding Problem_None
    by (simp add: splitSlash_append segmentsProblem_append)
qed

text \<open>Segments and the path they make.\<close>

fun joinSlash :: "string list \<Rightarrow> string" where
  "joinSlash [] = []"
| "joinSlash [s] = s"
| "joinSlash (s # ss) = s @ ''/'' @ joinSlash ss"

lemma join_split: "joinSlash (splitSlash s) = s"
proof (induction s)
  case (Cons c s)
  obtain seg segs where s: "splitSlash s = seg # segs" by (cases "splitSlash s") auto
  with Cons show ?case by (cases segs) auto
qed simp

lemma splitSlash_plain: "CHR ''/'' \<notin> set s \<Longrightarrow> splitSlash s = [s]"
  by (induction s) auto

lemma splitSlash_segments: "seg \<in> set (splitSlash s) \<Longrightarrow> CHR ''/'' \<notin> set seg"
  by (induction s arbitrary: seg) (auto split: if_splits list.splits)

lemma split_join: "segs \<noteq> [] \<Longrightarrow> list_all (\<lambda>s. CHR ''/'' \<notin> set s) segs \<Longrightarrow> splitSlash (joinSlash segs) = segs"
  by (induction segs rule: joinSlash.induct) (simp_all add: splitSlash_plain splitSlash_append)

text \<open>A key that starts or ends with a slash has an empty segment.\<close>

lemma splitSlash_ends:
  assumes "s \<noteq> ''''" "'''' \<notin> set (splitSlash s)"
  shows "hd s \<noteq> CHR ''/''" "last s \<noteq> CHR ''/''"
proof -
  from assms show "hd s \<noteq> CHR ''/''" by (cases s) auto
  show "last s \<noteq> CHR ''/''"
  proof
    assume "last s = CHR ''/''"
    then have "s = butlast s @ CHR ''/'' # []" using assms(1) by (metis append_butlast_last_id)
    then have "splitSlash s = splitSlash (butlast s) @ [[]]" by (metis splitSlash_append splitSlash.simps(1))
    with assms(2) show False by simp
  qed
qed

definition plainSegment :: "string \<Rightarrow> bool" where
  "plainSegment seg \<longleftrightarrow> seg \<noteq> '''' \<and> CHR ''/'' \<notin> set seg \<and> seg \<noteq> ''.'' \<and> seg \<noteq> ''..'' \<and>
     last seg \<noteq> CHR ''.'' \<and> last seg \<noteq> CHR '' '' \<and> length seg \<le> 255"

lemma segment_plain: "plainSegment seg \<longleftrightarrow> segmentProblem seg = None \<and> CHR ''/'' \<notin> set seg"
  unfolding plainSegment_def segmentProblem_def MaxSegmentBytes_def by simp

lemma segments_plain:
  "segmentsProblem (splitSlash key) = None \<longleftrightarrow>
   (\<exists>segs. segs \<noteq> [] \<and> key = joinSlash segs \<and> list_all plainSegment segs)"
proof
  assume "segmentsProblem (splitSlash key) = None"
  then have "list_all plainSegment (splitSlash key)"
    using splitSlash_segments unfolding segmentsProblem_all list_all_iff segment_plain by blast
  then show "\<exists>segs. segs \<noteq> [] \<and> key = joinSlash segs \<and> list_all plainSegment segs"
    by (intro exI[of _ "splitSlash key"]) (simp add: join_split)
next
  assume "\<exists>segs. segs \<noteq> [] \<and> key = joinSlash segs \<and> list_all plainSegment segs"
  then obtain segs where segs: "segs \<noteq> []" "key = joinSlash segs" "list_all plainSegment segs" by blast
  then have "splitSlash key = segs"
    using split_join[OF segs(1)] unfolding list_all_iff segment_plain by blast
  with segs(3) show "segmentsProblem (splitSlash key) = None"
    unfolding segmentsProblem_all list_all_iff segment_plain by blast
qed

lemma runeProblem_all: "runeProblem rs = None \<longleftrightarrow> (\<forall>r \<in> set rs. r \<noteq> 0x5C \<and> \<not> UnsafeRune r)"
  by (induction rs rule: runeProblem.induct) auto

lemma Problem_plain:
  "Problem key = None \<longleftrightarrow> length key \<le> 1024 \<and> (\<exists>rs. stringRunes key = Some rs \<and> runeProblem rs = None) \<and>
     segmentsProblem (splitSlash key) = None"
proof -
  have "key \<noteq> '''' \<and> hd key \<noteq> CHR ''/'' \<and> last key \<noteq> CHR ''/''" if "segmentsProblem (splitSlash key) = None"
  proof -
    have e: "'''' \<notin> set (splitSlash key)"
      using that by (auto simp: segmentsProblem_all list_all_iff segmentProblem_def)
    then have "key \<noteq> ''''" by auto
    with splitSlash_ends[OF this e] show ?thesis by simp
  qed
  then show ?thesis unfolding Problem_None by (auto simp: MaxKeyBytes_def)
qed

lemma join_valid:
  assumes "Problem a = None" "Problem (a @ CHR ''/'' # b) = None"
  shows "Problem b = None"
proof -
  from assms(1) obtain ra where ra: "stringRunes a = Some ra" by (auto simp: Problem_plain)
  from assms(2) obtain rs where rs: "stringRunes (a @ CHR ''/'' # b) = Some rs" "runeProblem rs = None"
    by (auto simp: Problem_plain)
  have "stringRunes (a @ CHR ''/'' # b) = map_option ((@) ra) (map_option ((@) [0x2F]) (stringRunes b))"
    using ra stringRunes_slash utf8Runes_append[of "map of_char a" ra "map of_char (''/'' @ b)"]
      utf8Runes_append[of "map of_char ''/''" "[0x2F]" "map of_char b"]
    by (simp add: stringRunes_def)
  with rs obtain rb where "stringRunes b = Some rb" "rs = ra @ [0x2F] @ rb" by auto
  moreover from this rs(2) have "runeProblem rb = None" by (simp only: runeProblem_append)
  ultimately show ?thesis using assms(2) by (simp add: Problem_plain splitSlash_append segmentsProblem_append)
qed

text \<open>
  C28: The key rules are exactly the documented ones, and a prefix keeps them. A key is valid exactly
  when it is at most 1024 bytes of valid UTF-8 without a backslash, a control character, a line or
  paragraph separator or a bidirectional control, and is a path of one or more segments joined by
  slashes, each of 1 to 255 bytes, neither a dot nor a double dot, and not ending with a dot or a
  space. (So it starts and ends with no slash and has no empty segment.) Its segments are determined by
  the key, and no byte of it is a backslash or an ASCII control character. Behind a valid prefix, a key
  is valid exactly when it is valid by itself and fits.
\<close>

theorem valid_key_rules:
  "(ValidateKey key \<longleftrightarrow> length key \<le> 1024 \<and>
      (\<exists>rs. stringRunes key = Some rs \<and>
         (\<forall>r \<in> set rs. r \<noteq> 0x5C \<and> 0x20 \<le> r \<and> \<not> (0x7F \<le> r \<and> r \<le> 0x9F) \<and>
            r \<notin> {0x2028, 0x2029, 0x061C, 0x200E, 0x200F} \<union> {0x202A..0x202E} \<union> {0x2066..0x2069})) \<and>
      (\<exists>!segs. segs \<noteq> [] \<and> key = joinSlash segs \<and> list_all (\<lambda>seg. seg \<noteq> '''' \<and> CHR ''/'' \<notin> set seg \<and>
         seg \<noteq> ''.'' \<and> seg \<noteq> ''..'' \<and> last seg \<noteq> CHR ''.'' \<and> last seg \<noteq> CHR '' '' \<and> length seg \<le> 255) segs)) \<and>
   (ValidateKey key \<longrightarrow> (\<forall>c \<in> set key. c \<noteq> CHR 0x5C \<and> (0x20 :: int) \<le> of_char c)) \<and>
   (ValidatePrefix pre \<longrightarrow> (ValidateKey (pre @ key) \<longleftrightarrow> ValidateKey key \<and> length pre + length key \<le> 1024))"
proof -
  have safe: "runeProblem rs = None \<longleftrightarrow> (\<forall>r \<in> set rs. r \<noteq> 0x5C \<and> 0x20 \<le> r \<and> \<not> (0x7F \<le> r \<and> r \<le> 0x9F) \<and>
            r \<notin> {0x2028, 0x2029, 0x061C, 0x200E, 0x200F} \<union> {0x202A..0x202E} \<union> {0x2066..0x2069})" for rs
    unfolding runeProblem_all UnsafeRune_def by (intro ball_cong refl) auto
  have one: "(\<exists>segs. segs \<noteq> [] \<and> key = joinSlash segs \<and> list_all plainSegment segs) \<longleftrightarrow>
      (\<exists>!segs. segs \<noteq> [] \<and> key = joinSlash segs \<and> list_all plainSegment segs)"
  proof -
    have "segs = splitSlash key" if "segs \<noteq> []" "key = joinSlash segs" "list_all plainSegment segs" for segs
      using split_join[OF that(1)] that(2,3) unfolding list_all_iff segment_plain by metis
    then show ?thesis by blast
  qed
  have iff: "ValidateKey key \<longleftrightarrow> length key \<le> 1024 \<and> (\<exists>rs. stringRunes key = Some rs \<and> runeProblem rs = None) \<and>
      (\<exists>!segs. segs \<noteq> [] \<and> key = joinSlash segs \<and> list_all plainSegment segs)"
    unfolding ValidateKey_def Problem_plain segments_plain one ..
  have bytes: "c \<noteq> CHR 0x5C \<and> (0x20 :: int) \<le> of_char c" if v: "ValidateKey key" and c: "c \<in> set key" for c
  proof -
    from v obtain rs where r: "utf8Runes (map of_char key) = Some rs" "runeProblem rs = None"
      by (auto simp: ValidateKey_def Problem_None stringRunes_def)
    have m: "(of_char c :: int) \<in> set (map of_char key)" using c by simp
    define n :: int where "n = of_char c"
    have in_rs: "n \<in> set rs" if "n < 0x80" unfolding n_def by (rule utf8Runes_ascii[OF r(1) m that[unfolded n_def]])
    from r(2)[unfolded safe] have ok: "n \<noteq> 0x5C \<and> 0x20 \<le> n" if "n \<in> set rs" using that by blast
    have n: "n \<noteq> 0x5C" "0x20 \<le> n"
      using ok in_rs by (cases "n < 0x80"; linarith)+
    have "n = 0x5C" if "c = CHR 0x5C" unfolding n_def that by simp
    with n show ?thesis unfolding n_def by blast
  qed
  have pre: "ValidateKey (pre @ key) \<longleftrightarrow> ValidateKey key \<and> length pre + length key \<le> 1024" if pv: "ValidatePrefix pre"
  proof (cases "pre = ''''")
    case True
    then show ?thesis by (auto simp: ValidateKey_def Problem_plain)
  next
    case False
    then obtain p where p: "pre = p @ ''/''" "Problem p = None"
      using pv by (cases pre rule: rev_cases) (auto simp: ValidatePrefix_def PrefixProblem_def split: if_splits option.splits)
    have "length (p @ CHR ''/'' # key) \<le> 1024" if "Problem (p @ CHR ''/'' # key) = None"
      using that by (simp only: Problem_plain)
    with valid_join[OF p(2), of key] join_valid[OF p(2), of key] show ?thesis
      unfolding p(1) ValidateKey_def by (auto simp: MaxKeyBytes_def)
  qed
  show ?thesis
  proof (intro conjI impI)
    show "ValidateKey key \<longleftrightarrow> length key \<le> 1024 \<and>
      (\<exists>rs. stringRunes key = Some rs \<and>
         (\<forall>r \<in> set rs. r \<noteq> 0x5C \<and> 0x20 \<le> r \<and> \<not> (0x7F \<le> r \<and> r \<le> 0x9F) \<and>
            r \<notin> {0x2028, 0x2029, 0x061C, 0x200E, 0x200F} \<union> {0x202A..0x202E} \<union> {0x2066..0x2069})) \<and>
      (\<exists>!segs. segs \<noteq> [] \<and> key = joinSlash segs \<and> list_all (\<lambda>seg. seg \<noteq> '''' \<and> CHR ''/'' \<notin> set seg \<and>
         seg \<noteq> ''.'' \<and> seg \<noteq> ''..'' \<and> last seg \<noteq> CHR ''.'' \<and> last seg \<noteq> CHR '' '' \<and> length seg \<le> 255) segs)"
      using iff unfolding safe plainSegment_def[abs_def] .
  qed (use bytes pre in blast)+
qed

theorem valid_key_rules_witness:
  "ValidateKey ''a/b c/..d'' \<and> ValidateKey (''app/'' @ ''a/b c/..d'') \<and> \<not> ValidateKey (''app/'' @ ''a.'') \<and> CHR 0x5C \<notin> set ''a/b c/..d''"
proof -
  have v: "ValidateKey ''a/b c/..d''" "ValidatePrefix ''app/''" "\<not> ValidateKey ''a.''" by code_simp+
  have l: "length ''app/'' + length ''a/b c/..d'' \<le> 1024" by simp
  note a = valid_key_rules[of "''a/b c/..d''" "''app/''", THEN conjunct2]
  note b = valid_key_rules[of "''a.''" "''app/''", THEN conjunct2, THEN conjunct2, rule_format, OF v(2)]
  from a[THEN conjunct1, rule_format, OF v(1)] have "CHR 0x5C \<notin> set ''a/b c/..d''" by blast
  with a[THEN conjunct2, rule_format, OF v(2)] b v l show ?thesis by blast
qed

end
