(* ===== verification/Claims_Model.thy ===== *)
theory Claims_Model
  imports Storage_Key Go_Numbers
begin

section \<open>Ownership of stored files: the shared world\<close>

text \<open>
  The ownership protocol of \<open>storage/claims/claims.go\<close> runs in many processes over one database
  table and one object store. This theory has what they share: the \<open>storage_claims\<close> table, the
  objects, the records of the application that refer to files, and the copies a remote store was
  asked to make; and the statements and store calls that act on it, each of them atomic. A method is
  a program of such actions (\<open>proc\<close>), and its Go control flow is in the continuations, so that
  the actions of different processes can interleave and each can fail, with its effect done, not done
  or (for a remote copy) still to come.

  \<^item> \<open>cw_table\<close> is the table by key, \<open>cw_objects\<close> the keys that hold an object.
  \<^item> \<open>cw_refs\<close> are the keys the application's records refer to. They change only in the
    transaction of \<open>Update\<close>, whose \<open>fn\<close> writes the record: its outcome is an argument.
  \<^item> \<open>cw_copies\<close> are the copies a \<open>storage.Publisher\<close> prepared, by token, and \<open>cw_fenced\<close> the
    tokens it fenced.
  \<^item> \<open>cw_used\<close> (the keys ever claimed) and \<open>cw_owner\<close> (the process whose \<open>Promote\<close> of a key
    succeeded last) are history the code does not store; no answer depends on them.
\<close>

datatype claim_state = Pending | Promoting | Held | Deleting

record Claim =
  cl_State :: claim_state
  cl_CreatedAt :: gotime
  cl_LeaseUntil :: gotime
  cl_Staged :: bool
  cl_Scope :: string
  cl_Publication :: string
  cl_UpdatedAt :: gotime

definition LeaseMargin :: duration where "LeaseMargin = 5 * Minute"
definition MaxKeyLen :: int where "MaxKeyLen = 512"
definition MaxScopeLen :: int where "MaxScopeLen = 255"
definition MaxPublicationToken :: int where "MaxPublicationToken = 60000"
definition StagingPrefix :: string where "StagingPrefix = ''_staging/''"
definition StagingKey :: "string \<Rightarrow> string" where "StagingKey key = StagingPrefix @ key"

datatype store_kind = Publisher | BoundedWriter | OtherStore

datatype claim_error =
    DbErr | StoreErr | FnErr string | CtxErr
  | ErrClaimed | ErrNotPending string | ErrNotHeld string | ErrNotPromoting string
  | ErrKeyTooLong | ScopeTooLong | TokenTooLong | ErrUnsupported
  | ErrUnknownOutcome | ErrExists | ErrInvalidKey | MalformedToken | UploadRefused string | ErrExpired | WrongScope

type_synonym claims_table = "(string \<times> Claim) list"

record copy =
  cp_dst :: string
  cp_requested :: bool

record claims_world =
  cw_table :: claims_table
  cw_objects :: "string list"
  cw_refs :: "string list"
  cw_now :: gotime
  cw_copies :: "(string \<times> copy) list"
  cw_fenced :: "string list"
  cw_used :: "string list"
  cw_owner :: "(string \<times> nat) list"

subsection \<open>Statements on the table\<close>

text \<open>A conditional \<open>UPDATE\<close> of one key: the rows affected and the new table.\<close>

definition updateWhere :: "claims_table \<Rightarrow> string \<Rightarrow> (Claim \<Rightarrow> bool) \<Rightarrow> (Claim \<Rightarrow> Claim) \<Rightarrow> nat \<times> claims_table" where
  "updateWhere tbl key P f = (case map_of tbl key of None \<Rightarrow> (0, tbl)
     | Some c \<Rightarrow> if P c then (1, AList.update key (f c) tbl) else (0, tbl))"

definition stmtInsert :: "claims_table \<Rightarrow> string \<Rightarrow> string \<Rightarrow> gotime \<Rightarrow> bool \<Rightarrow> gotime \<Rightarrow> nat \<times> claims_table" where
  "stmtInsert tbl key scope until staged now = (case map_of tbl key of Some _ \<Rightarrow> (0, tbl)
     | None \<Rightarrow> (1, AList.update key \<lparr>cl_State = Pending, cl_CreatedAt = now, cl_LeaseUntil = until, cl_Staged = staged,
          cl_Scope = scope, cl_Publication = '''', cl_UpdatedAt = now\<rparr> tbl))"

definition stmtPromote :: "claims_table \<Rightarrow> string \<Rightarrow> string \<Rightarrow> gotime \<Rightarrow> gotime \<Rightarrow> nat \<times> claims_table" where
  "stmtPromote tbl key scope until now = updateWhere tbl key
     (\<lambda>c. cl_State c = Pending \<and> cl_Staged c \<and> cl_Scope c = scope)
     (\<lambda>c. c\<lparr>cl_State := Promoting, cl_LeaseUntil := (if cl_LeaseUntil c < until then until else cl_LeaseUntil c),
            cl_UpdatedAt := now\<rparr>)"

definition stmtPublishing :: "claims_table \<Rightarrow> string \<Rightarrow> string \<Rightarrow> gotime \<Rightarrow> nat \<times> claims_table" where
  "stmtPublishing tbl key token now = updateWhere tbl key (\<lambda>c. cl_State c = Promoting)
     (\<lambda>c. c\<lparr>cl_Publication := token, cl_UpdatedAt := now\<rparr>)"

definition stmtUnpromote :: "claims_table \<Rightarrow> string \<Rightarrow> gotime \<Rightarrow> nat \<times> claims_table" where
  "stmtUnpromote tbl key now = updateWhere tbl key (\<lambda>c. cl_State c = Promoting)
     (\<lambda>c. c\<lparr>cl_State := Pending, cl_Publication := '''', cl_UpdatedAt := now\<rparr>)"

definition stmtTransition ::
  "claims_table \<Rightarrow> string \<Rightarrow> claim_state list \<Rightarrow> claim_state \<Rightarrow> bool \<Rightarrow> gotime \<Rightarrow> nat \<times> claims_table" where
  "stmtTransition tbl key from to unstaged now = updateWhere tbl key
     (\<lambda>c. cl_State c \<in> set from \<and> (unstaged \<longrightarrow> \<not> (cl_State c = Pending \<and> cl_Staged c)))
     (\<lambda>c. c\<lparr>cl_State := to, cl_UpdatedAt := now\<rparr>)"

definition stmtForget :: "claims_table \<Rightarrow> string \<Rightarrow> claims_table" where
  "stmtForget tbl key = (case map_of tbl key of None \<Rightarrow> tbl
     | Some c \<Rightarrow> if cl_State c = Deleting then AList.delete key tbl else tbl)"

definition findIn :: "claims_table \<Rightarrow> string \<Rightarrow> claim_state list \<Rightarrow> Claim list" where
  "findIn tbl key states = (case map_of tbl key of None \<Rightarrow> []
     | Some c \<Rightarrow> if cl_State c \<in> set states then [c] else [])"

text \<open>The conditions \<open>Sweep\<close> selects by, and one batch of keys in key order.\<close>

datatype claim_query = StaleQuery gotime gotime | DeletingQuery

fun matchesQuery :: "claim_query \<Rightarrow> Claim \<Rightarrow> bool" where
  "matchesQuery (StaleQuery cutoff now) c \<longleftrightarrow>
     cl_State c = Pending \<and> cl_CreatedAt c < cutoff \<or> cl_State c = Promoting \<and> cl_LeaseUntil c < now"
| "matchesQuery DeletingQuery c \<longleftrightarrow> cl_State c = Deleting"

definition pluckKeys :: "claims_table \<Rightarrow> claim_query \<Rightarrow> string \<Rightarrow> nat \<Rightarrow> string list" where
  "pluckKeys tbl q after limit =
     take limit (sort (map fst (filter (\<lambda>(k, c). matchesQuery q c \<and> after < k) tbl)))"

subsection \<open>The transaction of Update\<close>

definition txHold :: "claims_table \<Rightarrow> string \<Rightarrow> gotime \<Rightarrow> claim_error + claims_table" where
  "txHold tbl key now = (let (n, tbl') = stmtTransition tbl key [Pending, Promoting] Held True now in
     if n = 1 then Inr tbl' else Inl (ErrNotPending key))"

fun txHolds :: "claims_table \<Rightarrow> string list \<Rightarrow> gotime \<Rightarrow> claim_error + claims_table" where
  "txHolds tbl [] now = Inr tbl"
| "txHolds tbl (key # keys) now = (case txHold tbl key now of Inl e \<Rightarrow> Inl e | Inr tbl' \<Rightarrow> txHolds tbl' keys now)"

text \<open>\<open>release\<close>: a key with no claim at all is outside the protocol.\<close>

definition txRelease :: "claims_table \<Rightarrow> string \<Rightarrow> gotime \<Rightarrow> claim_error + bool \<times> claims_table" where
  "txRelease tbl key now = (let (n, tbl') = stmtTransition tbl key [Held] Deleting False now in
     if n = 1 then Inr (True, tbl')
     else (case map_of tbl key of Some _ \<Rightarrow> Inl (ErrNotHeld key) | None \<Rightarrow> Inr (False, tbl)))"

fun txReleases :: "claims_table \<Rightarrow> string list \<Rightarrow> gotime \<Rightarrow> claim_error + string list \<times> claims_table" where
  "txReleases tbl [] now = Inr ([], tbl)"
| "txReleases tbl (key # keys) now = (case txRelease tbl key now of Inl e \<Rightarrow> Inl e
     | Inr (claimed, tbl') \<Rightarrow> (case txReleases tbl' keys now of Inl e \<Rightarrow> Inl e
         | Inr (released, tbl'') \<Rightarrow> Inr (if claimed then key # released else released, tbl'')))"

definition txUpdate ::
  "claims_table \<Rightarrow> string list \<Rightarrow> string list \<Rightarrow> string option \<Rightarrow> gotime \<Rightarrow> claim_error + string list \<times> claims_table" where
  "txUpdate tbl hold release fnErr now = (case txHolds tbl hold now of Inl e \<Rightarrow> Inl e
     | Inr tbl' \<Rightarrow> (case fnErr of Some e \<Rightarrow> Inl (FnErr e) | None \<Rightarrow> txReleases tbl' release now))"

subsection \<open>Actions\<close>

datatype claim_act =
    AInsert string string gotime bool
  | APromote string string gotime
  | ALookup string
  | APublishing string string
  | AUnpromote string
  | ATransition string "claim_state list" claim_state bool
  | ATx "string list" "string list" "string option"
  | AFindDeleting string
  | AForget string
  | APluck claim_query string nat
  | ATake string
  | ACtx
  | ANow
  | ADelete string
  | AFence string
  | AListStaging
  | APrepare string string
  | APublish string
  | APut string gotime bool
  | AOpen string

datatype claim_ans =
    AnsErr | AnsUnknown | AnsExists | AnsErrToken string
  | AnsOk | AnsRows nat | AnsClaims "Claim list" | AnsKeys "string list" | AnsTime gotime | AnsToken string
  | AnsTx "claim_error + string list"

datatype 'a proc = Return 'a | Act claim_act "claim_ans \<Rightarrow> 'a proc"

primrec bindP :: "'a proc \<Rightarrow> ('a \<Rightarrow> 'b proc) \<Rightarrow> 'b proc" where
  "bindP (Return x) f = f x"
| "bindP (Act a k) f = Act a (\<lambda>r. bindP (k r) f)"

text \<open>A token no copy has or had: longer than all of them.\<close>

definition freshToken :: "claims_world \<Rightarrow> string" where
  "freshToken w = replicate (Suc (sum_list (map length (map fst (cw_copies w) @ cw_fenced w)))) (CHR ''t'')"

definition addObject :: "string \<Rightarrow> claims_world \<Rightarrow> claims_world" where
  "addObject key w = w\<lparr>cw_objects := List.insert key (cw_objects w)\<rparr>"

text \<open>What a remote store does when asked to publish a copy: it is requested, and unless it was
  fenced it may be published from then on.\<close>

definition requestCopy :: "string \<Rightarrow> claims_world \<Rightarrow> claims_world" where
  "requestCopy token w = (case map_of (cw_copies w) token of None \<Rightarrow> w
     | Some cp \<Rightarrow> w\<lparr>cw_copies := AList.update token (cp\<lparr>cp_requested := True\<rparr>) (cw_copies w)\<rparr>)"

definition publishCopy :: "string \<Rightarrow> claims_world \<Rightarrow> claims_world" where
  "publishCopy token w = (case map_of (cw_copies w) token of None \<Rightarrow> w
     | Some cp \<Rightarrow> if cp_requested cp \<and> token \<notin> set (cw_fenced w) then addObject (cp_dst cp) w else w)"

definition fenceCopy :: "string \<Rightarrow> claims_world \<Rightarrow> claims_world" where
  "fenceCopy token w = w\<lparr>cw_fenced := List.insert token (cw_fenced w)\<rparr>"

definition rowsAns :: "nat \<times> claims_table \<Rightarrow> claims_world \<Rightarrow> claim_ans \<times> claims_world" where
  "rowsAns r w = (AnsRows (fst r), w\<lparr>cw_table := snd r\<rparr>)"

text \<open>An action that succeeds, by process \<open>i\<close>.\<close>

fun perform :: "nat \<Rightarrow> claims_world \<Rightarrow> claim_act \<Rightarrow> claim_ans \<times> claims_world" where
  "perform i w (AInsert key scope until staged) =
     rowsAns (stmtInsert (cw_table w) key scope until staged (cw_now w)) (w\<lparr>cw_used := List.insert key (cw_used w)\<rparr>)"
| "perform i w (APromote key scope until) =
     (let r = stmtPromote (cw_table w) key scope until (cw_now w) in
      rowsAns r (if fst r = 1 then w\<lparr>cw_owner := AList.update key i (cw_owner w)\<rparr> else w))"
| "perform i w (ALookup key) = (AnsClaims (findIn (cw_table w) key [Pending, Promoting, Held]), w)"
| "perform i w (APublishing key token) = rowsAns (stmtPublishing (cw_table w) key token (cw_now w)) w"
| "perform i w (AUnpromote key) = rowsAns (stmtUnpromote (cw_table w) key (cw_now w)) w"
| "perform i w (ATransition key from to unstaged) =
     rowsAns (stmtTransition (cw_table w) key from to unstaged (cw_now w)) w"
| "perform i w (ATx hold release fnErr) = (case txUpdate (cw_table w) hold release fnErr (cw_now w) of
       Inl e \<Rightarrow> (AnsTx (Inl e), w)
     | Inr (released, tbl) \<Rightarrow> (AnsTx (Inr released),
         w\<lparr>cw_table := tbl, cw_refs := hold @ filter (\<lambda>k. k \<notin> set release) (cw_refs w)\<rparr>))"
| "perform i w (AFindDeleting key) = (AnsClaims (findIn (cw_table w) key [Deleting]), w)"
| "perform i w (AForget key) = (AnsOk, w\<lparr>cw_table := stmtForget (cw_table w) key\<rparr>)"
| "perform i w (APluck q after limit) = (AnsKeys (pluckKeys (cw_table w) q after limit), w)"
| "perform i w (ATake key) = (AnsClaims (findIn (cw_table w) key [Pending, Promoting, Held, Deleting]), w)"
| "perform i w ACtx = (AnsOk, w)"
| "perform i w ANow = (AnsTime (cw_now w), w)"
| "perform i w (ADelete key) = (AnsOk, w\<lparr>cw_objects := removeAll key (cw_objects w)\<rparr>)"
| "perform i w (AFence token) = (AnsOk, fenceCopy token w)"
| "perform i w AListStaging = (AnsKeys (filter (\<lambda>k. take (length StagingPrefix) k = StagingPrefix) (cw_objects w)), w)"
| "perform i w (APrepare src dst) = (if src \<in> set (cw_objects w)
     then (let token = freshToken w in
       (AnsToken token, w\<lparr>cw_copies := AList.update token \<lparr>cp_dst = dst, cp_requested = False\<rparr> (cw_copies w)\<rparr>))
     else (AnsErr, w))"
| "perform i w (APublish token) = (AnsOk, publishCopy token (requestCopy token w))"
| "perform i w (APut key deadline ifAbsent) =
     (if \<not> cw_now w < deadline then (AnsErr, w)
      else if ifAbsent \<and> key \<in> set (cw_objects w) then (AnsExists, w)
      else (AnsOk, addObject key w))"
| "perform i w (AOpen key) = (if key \<in> set (cw_objects w) then AnsOk else AnsErr, w)"

end
