(* ===== verification/Claims_Protocol.thy ===== *)
theory Claims_Protocol
  imports Claims_Model
begin

section \<open>Ownership of stored files: the methods\<close>

text \<open>
  The methods of \<open>claims.Claims\<close>, the two-step publication of \<open>storage/lifecycle.go\<close> and the
  promotion of a staged upload of \<open>storage/upload/direct.go\<close>, as programs of the actions of
  \<open>Claims_Model\<close>. What a method returns is the value of its program: an error beside a result
  where the Go method returns both. Contexts are left to the actions, each of which may fail.
  \<open>kind\<close> is what the store is (the type switches on \<open>storage.Publisher\<close> and
  \<open>storage.BoundedWriter\<close>).
\<close>

subsection \<open>Publishing a copy (storage/lifecycle.go)\<close>

definition CheckOwnable :: "store_kind \<Rightarrow> claim_error option" where
  "CheckOwnable kind = (if kind = OtherStore then Some ErrUnsupported else None)"

definition newline :: char where "newline = CHR 0x0A"

definition fallbackToken :: string where "fallbackToken = ''copy'' @ [newline]"

text \<open>The result of \<open>PreparePublish\<close> is its token, beside its error if any.\<close>

definition PreparePublish :: "store_kind \<Rightarrow> string \<Rightarrow> string \<Rightarrow> (string \<times> claim_error option) proc" where
  "PreparePublish kind src dst = (if kind = Publisher
     then Act (APrepare src dst) (\<lambda>r. Return (case r of AnsToken t \<Rightarrow> (t, None) | AnsErrToken t \<Rightarrow> (t, Some StoreErr)
        | _ \<Rightarrow> ('''', Some StoreErr)))
     else (case CheckOwnable kind of Some e \<Rightarrow> Return ('''', Some e)
     | None \<Rightarrow> if \<not> ValidateKey src \<or> \<not> ValidateKey dst then Return ('''', Some ErrInvalidKey)
        else Return (fallbackToken @ src @ newline # dst, None)))"

definition cutNewline :: "string \<Rightarrow> (string \<times> string) option" where
  "cutNewline s = (if newline \<in> set s
     then Some (takeWhile (\<lambda>c. c \<noteq> newline) s, tl (dropWhile (\<lambda>c. c \<noteq> newline) s)) else None)"

definition parseFallback :: "string \<Rightarrow> (string \<times> string) option" where
  "parseFallback token = (if take (length fallbackToken) token = fallbackToken
     then cutNewline (drop (length fallbackToken) token) else None)"

definition storagePublish :: "store_kind \<Rightarrow> string \<Rightarrow> gotime \<Rightarrow> claim_error option proc" where
  "storagePublish kind token deadline = (if kind = Publisher
     then Act (APublish token) (\<lambda>r. Return (case r of AnsOk \<Rightarrow> None | AnsUnknown \<Rightarrow> Some ErrUnknownOutcome
        | AnsExists \<Rightarrow> Some ErrExists | _ \<Rightarrow> Some StoreErr))
     else (case CheckOwnable kind of Some e \<Rightarrow> Return (Some e)
     | None \<Rightarrow> (case parseFallback token of None \<Rightarrow> Return (Some MalformedToken)
     | Some (src, dst) \<Rightarrow> Act (AOpen src) (\<lambda>r. case r of
           AnsOk \<Rightarrow> Act (APut dst deadline True) (\<lambda>r. Return (case r of AnsOk \<Rightarrow> None
             | AnsExists \<Rightarrow> Some ErrExists | AnsUnknown \<Rightarrow> Some ErrUnknownOutcome | _ \<Rightarrow> Some StoreErr))
         | _ \<Rightarrow> Return (Some StoreErr)))))"

definition storageFence :: "store_kind \<Rightarrow> string \<Rightarrow> claim_error option proc" where
  "storageFence kind token = (if kind = Publisher
     then Act (AFence token) (\<lambda>r. Return (case r of AnsOk \<Rightarrow> None | _ \<Rightarrow> Some StoreErr))
     else Return (CheckOwnable kind))"

subsection \<open>The transitions (storage/claims/claims.go)\<close>

definition claims_insert :: "store_kind \<Rightarrow> string \<Rightarrow> string \<Rightarrow> gotime \<Rightarrow> bool \<Rightarrow> claim_error option proc" where
  "claims_insert kind key scope until staged = (case CheckOwnable kind of Some e \<Rightarrow> Return (Some e)
     | None \<Rightarrow> if MaxKeyLen < int (length key) then Return (Some ErrKeyTooLong)
       else if MaxScopeLen < int (length scope) then Return (Some ScopeTooLong)
       else Act (AInsert key scope until staged) (\<lambda>r. Return (case r of
           AnsRows n \<Rightarrow> if n = 0 then Some ErrClaimed else None | _ \<Rightarrow> Some DbErr)))"

definition claims_Pending :: "store_kind \<Rightarrow> string \<Rightarrow> string \<Rightarrow> gotime \<Rightarrow> claim_error option proc" where
  "claims_Pending kind key scope until = claims_insert kind key scope until False"

definition claims_Stage :: "store_kind \<Rightarrow> string \<Rightarrow> string \<Rightarrow> gotime \<Rightarrow> claim_error option proc" where
  "claims_Stage kind key scope until = claims_insert kind key scope until True"

definition claims_Promote :: "string \<Rightarrow> string \<Rightarrow> gotime \<Rightarrow> (claim_error + bool) proc" where
  "claims_Promote key scope until = Act (APromote key scope until) (\<lambda>r. Return (case r of
     AnsRows n \<Rightarrow> Inr (n = 1) | _ \<Rightarrow> Inl DbErr))"

definition claims_Lookup :: "string \<Rightarrow> (claim_error + string \<times> bool) proc" where
  "claims_Lookup key = Act (ALookup key) (\<lambda>r. Return (case r of
     AnsClaims [] \<Rightarrow> Inr ('''', False) | AnsClaims (c # _) \<Rightarrow> Inr (cl_Scope c, True) | _ \<Rightarrow> Inl DbErr))"

definition claims_Publishing :: "string \<Rightarrow> string \<Rightarrow> claim_error option proc" where
  "claims_Publishing key token = (if MaxPublicationToken < int (length token) then Return (Some TokenTooLong)
     else Act (APublishing key token) (\<lambda>r. Return (case r of
       AnsRows n \<Rightarrow> if n \<noteq> 1 then Some (ErrNotPromoting key) else None | _ \<Rightarrow> Some DbErr)))"

definition claims_Unpromote :: "string \<Rightarrow> claim_error option proc" where
  "claims_Unpromote key = Act (AUnpromote key) (\<lambda>r. Return (case r of AnsRows _ \<Rightarrow> None | _ \<Rightarrow> Some DbErr))"

definition transition :: "string \<Rightarrow> claim_state list \<Rightarrow> claim_state \<Rightarrow> claim_error \<Rightarrow> bool \<Rightarrow> claim_error option proc" where
  "transition key from to notFrom unstaged = Act (ATransition key from to unstaged) (\<lambda>r. Return (case r of
     AnsRows n \<Rightarrow> if n \<noteq> 1 then Some notFrom else None | _ \<Rightarrow> Some DbErr))"

text \<open>\<open>Finish\<close>: whether the claim is gone, and its error. The clock is read before anything is
  deleted.\<close>

definition finishForget :: "string \<Rightarrow> bool \<Rightarrow> (bool \<times> claim_error option) proc" where
  "finishForget key ended = (if \<not> ended then Return (False, None)
     else Act (AForget key) (\<lambda>r. Return (case r of AnsOk \<Rightarrow> (True, None) | _ \<Rightarrow> (False, Some DbErr))))"

definition finishDelete :: "string \<Rightarrow> Claim \<Rightarrow> bool \<Rightarrow> (bool \<times> claim_error option) proc" where
  "finishDelete key claim ended = Act (ADelete key) (\<lambda>r. case r of
       AnsOk \<Rightarrow> if cl_Staged claim
         then Act (ADelete (StagingKey key)) (\<lambda>r. case r of AnsOk \<Rightarrow> finishForget key ended
           | _ \<Rightarrow> Return (False, Some StoreErr))
         else finishForget key ended
     | _ \<Rightarrow> Return (False, Some StoreErr))"

definition Finish :: "store_kind \<Rightarrow> string \<Rightarrow> (bool \<times> claim_error option) proc" where
  "Finish kind key = Act (AFindDeleting key) (\<lambda>r. case r of
       AnsClaims [] \<Rightarrow> Return (True, None)
     | AnsClaims (claim # _) \<Rightarrow> Act ANow (\<lambda>r. case r of
           AnsTime now \<Rightarrow>
             (let ended = (\<not> now < cl_LeaseUntil claim + LeaseMargin) in
              if cl_Publication claim \<noteq> ''''
              then bindP (storageFence kind (cl_Publication claim)) (\<lambda>e. case e of
                  Some e \<Rightarrow> Return (False, Some e) | None \<Rightarrow> finishDelete key claim ended)
              else finishDelete key claim ended)
         | _ \<Rightarrow> Return (False, Some CtxErr))
     | _ \<Rightarrow> Return (False, Some DbErr))"

definition Abandon :: "store_kind \<Rightarrow> string \<Rightarrow> (bool \<times> claim_error option) proc" where
  "Abandon kind key = bindP (transition key [Pending, Promoting] Deleting (ErrNotPending key) False) (\<lambda>e. case e of
       Some (ErrNotPending _) \<Rightarrow> Return (False, None)
     | Some e \<Rightarrow> Return (False, Some e)
     | None \<Rightarrow> bindP (Finish kind key) (\<lambda>(_, e). Return (True, e)))"

subsection \<open>Changing a record's files\<close>

fun pickKeys :: "string list \<Rightarrow> string list \<Rightarrow> string list \<Rightarrow> string list" where
  "pickKeys [] other seen = []"
| "pickKeys (k # keys) other seen = (if k \<notin> set seen \<and> k \<notin> set other then k # pickKeys keys other (k # seen)
     else pickKeys keys other (k # seen))"

definition changed :: "string list \<Rightarrow> string list \<Rightarrow> string list \<times> string list" where
  "changed hold release = (pickKeys hold release [''''], pickKeys release hold [''''])"

fun abandonAll :: "store_kind \<Rightarrow> string list \<Rightarrow> claim_error list proc" where
  "abandonAll kind [] = Return []"
| "abandonAll kind (key # keys) = bindP (Abandon kind key) (\<lambda>(_, e). bindP (abandonAll kind keys) (\<lambda>es.
     Return (case e of None \<Rightarrow> es | Some e \<Rightarrow> e # es)))"

fun finishAll :: "store_kind \<Rightarrow> string list \<Rightarrow> claim_error list proc" where
  "finishAll kind [] = Return []"
| "finishAll kind (key # keys) = bindP (Finish kind key) (\<lambda>(_, e). bindP (finishAll kind keys) (\<lambda>es.
     Return (case e of None \<Rightarrow> es | Some e \<Rightarrow> e # es)))"

text \<open>\<open>Update\<close> returns the joined errors, none when the transaction committed; the errors of
  finishing the released files only go to the warning hook.\<close>

definition claims_Update :: "store_kind \<Rightarrow> string list \<Rightarrow> string list \<Rightarrow> string option \<Rightarrow> claim_error list proc" where
  "claims_Update kind hold0 release0 fnErr = (let (hold, release) = changed hold0 release0 in
     Act (ATx hold release fnErr) (\<lambda>r.
       (let failed = (\<lambda>e. bindP (abandonAll kind hold) (\<lambda>es. Return (e # es))) in
        case r of
          AnsTx (Inr released) \<Rightarrow> bindP (finishAll kind released) (\<lambda>_. Return [])
        | AnsTx (Inl e) \<Rightarrow> failed e
        | _ \<Rightarrow> failed DbErr)))"

definition CreateWith :: "store_kind \<Rightarrow> string list \<Rightarrow> string option \<Rightarrow> claim_error list proc" where
  "CreateWith kind keys fnErr = claims_Update kind keys [] fnErr"

definition DeleteWith :: "store_kind \<Rightarrow> string list \<Rightarrow> string option \<Rightarrow> claim_error list proc" where
  "DeleteWith kind keys fnErr = claims_Update kind [] keys fnErr"

subsection \<open>Sweeping\<close>

record SweepResult =
  sw_Abandoned :: int
  sw_Finished :: int
  sw_Waiting :: int
  sw_Failed :: int

definition claimsSweepBatch :: nat where "claimsSweepBatch = 500"

fun forKeys :: "(string \<Rightarrow> 's \<Rightarrow> 's proc) \<Rightarrow> string list \<Rightarrow> 's \<Rightarrow> 's proc" where
  "forKeys body [] s = Return s"
| "forKeys body (key # keys) s = bindP (body key s) (forKeys body keys)"

text \<open>\<open>eachKey\<close> visits the keys batch by batch; the first argument bounds the batches, and a run
  that needs more returns \<open>None\<close>.\<close>

fun eachKey :: "nat \<Rightarrow> nat \<Rightarrow> claim_query \<Rightarrow> string \<Rightarrow> (string \<Rightarrow> 's \<Rightarrow> 's proc) \<Rightarrow> 's \<Rightarrow> (claim_error option \<times> 's) option proc" where
  "eachKey 0 batch q after body s = Return None"
| "eachKey (Suc n) batch q after body s = Act ACtx (\<lambda>r. case r of
       AnsOk \<Rightarrow> Act (APluck q after batch) (\<lambda>r. case r of
           AnsKeys keys \<Rightarrow> bindP (forKeys body keys s) (\<lambda>s'.
             if length keys < batch then Return (Some (None, s'))
             else eachKey n batch q (last keys) body s')
         | _ \<Rightarrow> Return (Some (Some DbErr, s)))
     | _ \<Rightarrow> Return (Some (Some CtxErr, s)))"

definition sweepAbandon :: "store_kind \<Rightarrow> string \<Rightarrow> SweepResult \<times> claim_error list \<Rightarrow> (SweepResult \<times> claim_error list) proc" where
  "sweepAbandon kind key s = bindP (Abandon kind key) (\<lambda>(deleted, e). Return (case (s, e) of
       ((res, es), Some e) \<Rightarrow> (res\<lparr>sw_Failed := sw_Failed res + 1\<rparr>, es @ [e])
     | ((res, es), None) \<Rightarrow> if deleted then (res\<lparr>sw_Abandoned := sw_Abandoned res + 1\<rparr>, es) else (res, es)))"

definition sweepFinish :: "store_kind \<Rightarrow> string \<Rightarrow> SweepResult \<times> claim_error list \<Rightarrow> (SweepResult \<times> claim_error list) proc" where
  "sweepFinish kind key s = bindP (Finish kind key) (\<lambda>(finished, e). Return (case (s, e) of
       ((res, es), Some e) \<Rightarrow> (res\<lparr>sw_Failed := sw_Failed res + 1\<rparr>, es @ [e])
     | ((res, es), None) \<Rightarrow> if finished then (res\<lparr>sw_Finished := sw_Finished res + 1\<rparr>, es)
         else (res\<lparr>sw_Waiting := sw_Waiting res + 1\<rparr>, es)))"

definition noResult :: SweepResult where
  "noResult = \<lparr>sw_Abandoned = 0, sw_Finished = 0, sw_Waiting = 0, sw_Failed = 0\<rparr>"

definition Sweep :: "nat \<Rightarrow> store_kind \<Rightarrow> duration \<Rightarrow> (SweepResult \<times> claim_error list) option proc" where
  "Sweep n kind grace = Act ANow (\<lambda>r. case r of
       AnsTime t1 \<Rightarrow> Act ANow (\<lambda>r. case r of
           AnsTime t2 \<Rightarrow>
             bindP (eachKey n claimsSweepBatch (StaleQuery (t1 - grace) t2) '''' (sweepAbandon kind) (noResult, [])) (\<lambda>o1. case o1 of
                 None \<Rightarrow> Return None
               | Some (Some e, (res, es)) \<Rightarrow> Return (Some (res, es @ [e]))
               | Some (None, s) \<Rightarrow>
                   bindP (eachKey n claimsSweepBatch DeletingQuery '''' (sweepFinish kind) s) (\<lambda>o2. Return (case o2 of
                       None \<Rightarrow> None
                     | Some (Some e, (res, es)) \<Rightarrow> Some (res, es @ [e])
                     | Some (None, s) \<Rightarrow> Some s)))
         | _ \<Rightarrow> Return None)
     | _ \<Rightarrow> Return None)"

fun sweepStagingKeys :: "string list \<Rightarrow> int \<Rightarrow> claim_error list \<Rightarrow> (int \<times> claim_error list) proc" where
  "sweepStagingKeys [] deleted es = Return (deleted, es)"
| "sweepStagingKeys (key # keys) deleted es = Act (ATake (drop (length StagingPrefix) key)) (\<lambda>r.
     (let drop = Act (ADelete key) (\<lambda>r. case r of
            AnsOk \<Rightarrow> sweepStagingKeys keys (deleted + 1) es
          | _ \<Rightarrow> sweepStagingKeys keys deleted (es @ [StoreErr])) in
      case r of
        AnsClaims [] \<Rightarrow> drop
      | AnsClaims (c # _) \<Rightarrow> if cl_State c = Held then drop else sweepStagingKeys keys deleted es
      | _ \<Rightarrow> sweepStagingKeys keys deleted (es @ [DbErr])))"

definition SweepStaging :: "(int \<times> claim_error list) proc" where
  "SweepStaging = Act AListStaging (\<lambda>r. case r of
       AnsKeys keys \<Rightarrow> sweepStagingKeys keys 0 []
     | _ \<Rightarrow> Return (0, [StoreErr]))"

subsection \<open>Promoting a staged upload (storage/upload/direct.go)\<close>

definition upload_fence :: "store_kind \<Rightarrow> string \<Rightarrow> bool proc" where
  "upload_fence kind token = bindP (storageFence kind token) (\<lambda>e. Return (e = None))"

definition upload_unpromote :: "string \<Rightarrow> claim_error list \<Rightarrow> claim_error list proc" where
  "upload_unpromote key es = bindP (claims_Unpromote key) (\<lambda>u. Return (case u of None \<Rightarrow> es | Some e \<Rightarrow> es @ [e]))"

text \<open>\<open>promote\<close> returns the joined errors, none when the copy was published.\<close>

definition upload_promote :: "store_kind \<Rightarrow> string \<Rightarrow> gotime \<Rightarrow> claim_error list proc" where
  "upload_promote kind key deadline = bindP (PreparePublish kind (StagingKey key) key) (\<lambda>(token, e). case e of
       Some e \<Rightarrow> if token = '''' then upload_unpromote key [e]
         else bindP (claims_Publishing key token) (\<lambda>p. case p of
             Some p \<Rightarrow> bindP (upload_fence kind token) (\<lambda>_. Return [e, p])
           | None \<Rightarrow> Return [e])
     | None \<Rightarrow> bindP (claims_Publishing key token) (\<lambda>p. case p of
           Some p \<Rightarrow> bindP (upload_fence kind token) (\<lambda>_. Return [p])
         | None \<Rightarrow> bindP (storagePublish kind token deadline) (\<lambda>e. case e of
               Some e \<Rightarrow> if e \<in> {ErrUnknownOutcome, ErrExists} then Return [e]
                 else bindP (upload_fence kind token) (\<lambda>ok. if ok then upload_unpromote key [e] else Return [e])
             | None \<Rightarrow> Act (ADelete (StagingKey key)) (\<lambda>_. Return []))))"

text \<open>\<open>discard\<close> and \<open>unclaim\<close> under claims.\<close>

definition upload_discard :: "store_kind \<Rightarrow> string \<Rightarrow> claim_error option proc" where
  "upload_discard kind key = bindP (Abandon kind key) (\<lambda>(_, e). Return e)"

definition unclaim :: "store_kind \<Rightarrow> string \<Rightarrow> unit proc" where
  "unclaim kind key = bindP (upload_discard kind key) (\<lambda>_. Return ())"

text \<open>\<open>check\<close>: what it finds in the object's size, type and bytes is an argument (\<open>chk\<close>), by the key
  it opens. A refused object is deleted where the caller asked for it.\<close>

datatype check_verdict = CheckPassed | CheckRefused string | CheckFailed

definition upload_check :: "string \<Rightarrow> (string \<Rightarrow> check_verdict) \<Rightarrow> bool \<Rightarrow> claim_error list proc" where
  "upload_check objKey chk discards = Act (AOpen objKey) (\<lambda>r. case r of
       AnsOk \<Rightarrow> (case chk objKey of
           CheckPassed \<Rightarrow> Return []
         | CheckFailed \<Rightarrow> Return [StoreErr]
         | CheckRefused e \<Rightarrow> if \<not> discards then Return [UploadRefused e]
             else Act (ADelete objKey) (\<lambda>r. Return (case r of AnsOk \<Rightarrow> [UploadRefused e] | _ \<Rightarrow> [UploadRefused e, StoreErr])))
     | _ \<Rightarrow> Return [StoreErr])"

text \<open>\<open>Confirm\<close> under claims, for a key that passed its checks. \<open>now\<close> is its reading of the clock.\<close>

definition Confirm :: "store_kind \<Rightarrow> string \<Rightarrow> string \<Rightarrow> duration \<Rightarrow> gotime \<Rightarrow> (string \<Rightarrow> check_verdict) \<Rightarrow> claim_error list proc" where
  "Confirm kind key scope timeout now chk = (let deadline = now + timeout in
     bindP (claims_Promote key scope deadline) (\<lambda>r. case r of
       Inl e \<Rightarrow> Return [e]
     | Inr False \<Rightarrow> bindP (claims_Lookup key) (\<lambda>r. case r of
           Inl e \<Rightarrow> Return [e]
         | Inr (sc, live) \<Rightarrow> if \<not> live then Return [ErrExpired] else if sc \<noteq> scope then Return [WrongScope]
             else upload_check key chk False)
     | Inr True \<Rightarrow> bindP (upload_check (StagingKey key) chk True) (\<lambda>es. if es \<noteq> [] then upload_unpromote key es
         else upload_promote kind key deadline)))"

text \<open>\<open>Authorize\<close> under claims, for a policy that accepts the upload. \<open>urlErr\<close> is the error of making
  the upload URL, if any.\<close>

definition SignedUploadTimeout :: duration where "SignedUploadTimeout = 60 * Minute"

definition Authorize :: "store_kind \<Rightarrow> string \<Rightarrow> string \<Rightarrow> duration \<Rightarrow> gotime \<Rightarrow> string option \<Rightarrow> claim_error option proc" where
  "Authorize kind key scope ttl now urlErr = (case CheckOwnable kind of Some e \<Rightarrow> Return (Some e)
     | None \<Rightarrow> bindP (claims_Stage kind key scope (now + (ttl + SignedUploadTimeout))) (\<lambda>e. case e of
         Some e \<Rightarrow> Return (Some e)
       | None \<Rightarrow> (case urlErr of None \<Rightarrow> Return None
           | Some _ \<Rightarrow> bindP (unclaim kind key) (\<lambda>_. Return (Some StoreErr)))))"

text \<open>The part of \<open>save\<close> that writes a claimed key: \<open>key\<close> is the generated key, \<open>now\<close> the reading
  its deadline is counted from.\<close>

definition save :: "store_kind \<Rightarrow> string \<Rightarrow> string \<Rightarrow> duration \<Rightarrow> gotime \<Rightarrow> claim_error list proc" where
  "save kind key scope timeout now = (let deadline = now + timeout; staged = (kind = Publisher) in
     case CheckOwnable kind of Some e \<Rightarrow> Return [e]
     | None \<Rightarrow> bindP (if staged then claims_Stage kind key scope deadline else claims_Pending kind key scope deadline) (\<lambda>e. case e of
         Some e \<Rightarrow> Return [e]
       | None \<Rightarrow> Act (APut (if staged then StagingKey key else key) deadline False) (\<lambda>r. case r of
           AnsOk \<Rightarrow> if \<not> staged then Return []
             else bindP (claims_Promote key scope deadline) (\<lambda>p. case p of
                 Inr True \<Rightarrow> upload_promote kind key deadline
               | Inr False \<Rightarrow> bindP (unclaim kind key) (\<lambda>_. Return [StoreErr])
               | Inl e \<Rightarrow> bindP (unclaim kind key) (\<lambda>_. Return [e]))
         | AnsUnknown \<Rightarrow> bindP (upload_discard kind key) (\<lambda>e. Return (case e of Some d \<Rightarrow> [StoreErr, d] | None \<Rightarrow> [StoreErr]))
         | _ \<Rightarrow> bindP (unclaim kind key) (\<lambda>_. Return [StoreErr]))))"

end
