(* ===== verification/Claims_Safety.thy ===== *)
theory Claims_Safety
  imports Claims_Protocol
begin

section \<open>Ownership of stored files: what no interleaving can break\<close>

text \<open>
  Any number of processes run the methods of the protocol at once. A step of the system is one action
  of one of them, a new call, the clock moving on, or something the application does not control: a
  remote copy that was requested and not fenced publishes late, a client's upload lands in the
  staging area, an object outside the protocol appears. Any action may fail, with its effect done or
  not.

  The proof follows each process through what it has learned: a set of facts that other processes
  cannot invalidate (\<open>holds\<close>). \<open>safeQ\<close> checks a program against the facts each
  action needs and gives, the way a type system checks a program; every method passes from the empty
  set, so that every reachable configuration satisfies the invariant \<open>world_ok\<close>.
\<close>

subsection \<open>The system\<close>

definition staging :: "string \<Rightarrow> bool" where
  "staging key \<longleftrightarrow> take (length StagingPrefix) key = StagingPrefix"

text \<open>Keys are generated from 128 random bits under a prefix outside the staging area, so a key that
  is claimed (\<open>INSERT\<close> finds no row) was never claimed before and no record refers to it.\<close>

definition freshKeys :: "claims_world \<Rightarrow> claim_act \<Rightarrow> bool" where
  "freshKeys w a = (case a of AInsert key _ _ _ \<Rightarrow>
       map_of (cw_table w) key = None \<longrightarrow>
         key \<notin> set (cw_used w) \<and> key \<notin> set (cw_refs w) \<and> key \<notin> set (cw_objects w) \<and> \<not> staging key
     | _ \<Rightarrow> True)"

inductive acts :: "nat \<Rightarrow> claims_world \<Rightarrow> claim_act \<Rightarrow> claim_ans \<Rightarrow> claims_world \<Rightarrow> bool" where
  succeeds: "freshKeys w a \<Longrightarrow> perform i w a = (r, w') \<Longrightarrow> acts i w a r w'"
| fails: "a \<noteq> ANow \<Longrightarrow> r \<in> {AnsErr, AnsUnknown} \<Longrightarrow> acts i w a r w"
| answer_lost: "freshKeys w a \<Longrightarrow> perform i w a = (r', w') \<Longrightarrow> a \<noteq> ANow \<Longrightarrow> r \<in> {AnsErr, AnsUnknown} \<Longrightarrow> acts i w a r w'"
| prepared_with_error: "perform i w (APrepare src dst) = (AnsToken t, w') \<Longrightarrow> acts i w (APrepare src dst) (AnsErrToken t) w'"
| publish_later: "r \<in> {AnsErr, AnsUnknown} \<Longrightarrow> acts i w (APublish t) r (requestCopy t w)"

text \<open>
  The calls a program makes: \<open>Pending\<close>, \<open>Stage\<close>, \<open>Lookup\<close>, \<open>Update\<close>, \<open>Abandon\<close>, \<open>Finish\<close> and the
  two sweeps of the claims, and the upload flows. The other exported methods are steps of these:
  \<open>Promote\<close>, \<open>Publishing\<close> and \<open>Unpromote\<close> are made by \<open>save\<close> and \<open>Confirm\<close>, in whose order alone they
  keep the protocol, and \<open>Hold\<close> and \<open>Release\<close> by \<open>Update\<close> inside its transaction. All processes read
  one clock.
\<close>

inductive_set calls :: "store_kind \<Rightarrow> unit proc set" for kind where
  call_pending: "bindP (claims_Pending kind key scope until) (\<lambda>_. Return ()) \<in> calls kind"
| call_stage: "bindP (claims_Stage kind key scope until) (\<lambda>_. Return ()) \<in> calls kind"
| call_lookup: "bindP (claims_Lookup key) (\<lambda>_. Return ()) \<in> calls kind"
| call_update: "bindP (claims_Update kind hold release fnErr) (\<lambda>_. Return ()) \<in> calls kind"
| call_abandon: "bindP (Abandon kind key) (\<lambda>_. Return ()) \<in> calls kind"
| call_finish: "bindP (Finish kind key) (\<lambda>_. Return ()) \<in> calls kind"
| call_sweep: "bindP (Sweep n kind grace) (\<lambda>_. Return ()) \<in> calls kind"
| call_sweep_staging: "bindP SweepStaging (\<lambda>_. Return ()) \<in> calls kind"
| call_authorize: "bindP (Authorize kind key scope ttl now urlErr) (\<lambda>_. Return ()) \<in> calls kind"
| call_confirm: "bindP (Confirm kind key scope timeout now chk) (\<lambda>_. Return ()) \<in> calls kind"
| call_save: "bindP (save kind key scope timeout now) (\<lambda>_. Return ()) \<in> calls kind"

inductive sys_step :: "store_kind \<Rightarrow> claims_world \<times> unit proc list \<Rightarrow> claims_world \<times> unit proc list \<Rightarrow> bool" for kind where
  action: "i < length ps \<Longrightarrow> ps ! i = Act a k \<Longrightarrow> acts i w a r w' \<Longrightarrow> sys_step kind (w, ps) (w', ps[i := k r])"
| call: "p \<in> calls kind \<Longrightarrow> sys_step kind (w, ps) (w, ps @ [p])"
| clock: "cw_now w \<le> t \<Longrightarrow> sys_step kind (w, ps) (w\<lparr>cw_now := t\<rparr>, ps)"
| late_copy: "sys_step kind (w, ps) (publishCopy t w, ps)"
| staged_put: "staging key \<Longrightarrow> sys_step kind (w, ps) (addObject key w, ps)"
| other_object: "key \<notin> set (cw_used w) \<Longrightarrow> sys_step kind (w, ps) (addObject key w, ps)"

text \<open>The protocol starts on an empty table, beside whatever the application stored before.\<close>

inductive sys_reachable :: "store_kind \<Rightarrow> claims_world \<times> unit proc list \<Rightarrow> bool" for kind where
  start: "list_all (\<lambda>k. \<not> staging k) refs \<Longrightarrow>
    sys_reachable kind (\<lparr>cw_table = [], cw_objects = objs, cw_refs = refs, cw_now = now, cw_copies = [], cw_fenced = [],
      cw_used = [], cw_owner = []\<rparr>, [])"
| step: "sys_reachable kind c \<Longrightarrow> sys_step kind c c' \<Longrightarrow> sys_reachable kind c'"

subsection \<open>What a process knows\<close>

datatype fact =
    Tomb string Claim          \<comment> \<open>the claim was being deleted, as it is in the row as long as there is one\<close>
  | Past gotime                \<comment> \<open>the clock has reached it\<close>
  | Fenced string              \<comment> \<open>no copy of this token publishes any more\<close>
  | Clean string               \<comment> \<open>nothing is stored under the key, nor ever will be\<close>
  | Leased string gotime       \<comment> \<open>the key's claim outlives a write with this deadline\<close>
  | Flow string string         \<comment> \<open>this process promotes the key, with this publication recorded\<close>
  | CopyTo string string       \<comment> \<open>the copy of this token goes to this key\<close>

abbreviation row :: "claims_world \<Rightarrow> string \<Rightarrow> Claim option" where
  "row w key \<equiv> map_of (cw_table w) key"

definition doomed :: "claims_world \<Rightarrow> string \<Rightarrow> Claim \<Rightarrow> bool" where
  "doomed w key c \<longleftrightarrow> key \<in> set (cw_used w) \<and> cl_State c = Deleting \<and> (row w key = None \<or> row w key = Some c)"

abbreviation fencedToken :: "claims_world \<Rightarrow> string \<Rightarrow> bool" where
  "fencedToken w t \<equiv> t \<in> set (cw_fenced w)"

definition overLease :: "store_kind \<Rightarrow> claims_world \<Rightarrow> string \<Rightarrow> bool" where
  "overLease kind w key \<longleftrightarrow> (\<forall>c. row w key = Some c \<longrightarrow>
     cl_State c = Deleting \<and> cl_LeaseUntil c + LeaseMargin \<le> cw_now w \<and>
     (kind = Publisher \<longrightarrow> cl_Publication c = '''' \<or> fencedToken w (cl_Publication c)))"

fun holds :: "store_kind \<Rightarrow> claims_world \<Rightarrow> nat \<Rightarrow> fact \<Rightarrow> bool" where
  "holds kind w i (Tomb key c) \<longleftrightarrow> doomed w key c"
| "holds kind w i (Past t) \<longleftrightarrow> t \<le> cw_now w"
| "holds kind w i (Fenced t) \<longleftrightarrow> fencedToken w t"
| "holds kind w i (Clean key) \<longleftrightarrow> key \<in> set (cw_used w) \<and> overLease kind w key \<and> key \<notin> set (cw_objects w)"
| "holds kind w i (Leased key d) \<longleftrightarrow> key \<in> set (cw_used w) \<and>
     (case row w key of Some c \<Rightarrow> d \<le> cl_LeaseUntil c | None \<Rightarrow> d \<le> cw_now w)"
| "holds kind w i (Flow key p) \<longleftrightarrow> key \<in> set (cw_used w) \<and> map_of (cw_owner w) key = Some i \<and>
     (case row w key of Some c \<Rightarrow> cl_State c \<noteq> Pending \<and> cl_Publication c = p | None \<Rightarrow> kind = Publisher \<longrightarrow> p = '''' \<or> fencedToken w p)"
| "holds kind w i (CopyTo t key) \<longleftrightarrow> (\<exists>cp. map_of (cw_copies w) t = Some cp \<and> cp_dst cp = key)"

text \<open>What the world always satisfies.\<close>

definition liveCopy :: "claims_world \<Rightarrow> string \<Rightarrow> copy \<Rightarrow> bool" where
  "liveCopy w t cp \<longleftrightarrow> map_of (cw_copies w) t = Some cp \<and> cp_requested cp \<and> \<not> fencedToken w t"

definition world_ok :: "store_kind \<Rightarrow> claims_world \<Rightarrow> bool" where
  "world_ok kind w \<longleftrightarrow>
     (\<forall>key c. row w key = Some c \<longrightarrow> key \<in> set (cw_used w) \<and> (cl_State c = Pending \<longrightarrow> cl_Publication c = '''')) \<and>
     (\<forall>key \<in> set (cw_refs w). key \<in> set (cw_used w) \<longrightarrow> (\<exists>c. row w key = Some c \<and> cl_State c = Held)) \<and>
     (\<forall>key \<in> set (cw_used w). row w key = None \<longrightarrow> key \<notin> set (cw_objects w)) \<and>
     (\<forall>t cp. liveCopy w t cp \<longrightarrow> (\<exists>c. row w (cp_dst cp) = Some c \<and> cl_Publication c = t)) \<and>
     map_of (cw_copies w) '''' = None \<and>
     (kind \<noteq> Publisher \<longrightarrow> cw_copies w = []) \<and>
     list_all (\<lambda>k. \<not> staging k) (cw_used w) \<and> list_all (\<lambda>k. \<not> staging k) (cw_refs w)"

subsection \<open>What an action needs and gives\<close>

definition ready :: "store_kind \<Rightarrow> fact set \<Rightarrow> string \<Rightarrow> bool" where
  "ready kind F key \<longleftrightarrow> (\<exists>c t. Tomb key c \<in> F \<and> Past t \<in> F \<and> cl_LeaseUntil c + LeaseMargin \<le> t \<and>
     (kind = Publisher \<longrightarrow> cl_Publication c = '''' \<or> Fenced (cl_Publication c) \<in> F))"

definition needs :: "store_kind \<Rightarrow> fact set \<Rightarrow> claim_act \<Rightarrow> bool" where
  "needs kind F a = (case a of
       ATransition key from to unstaged \<Rightarrow> from = [Pending, Promoting] \<and> to = Deleting
     | ATx hold release fnErr \<Rightarrow> set hold \<inter> set release = {}
     | ADelete key \<Rightarrow> staging key \<or> (\<exists>c. Tomb key c \<in> F)
     | AForget key \<Rightarrow> Clean key \<in> F
     | APublishing key token \<Rightarrow> Flow key '''' \<in> F
     | AUnpromote key \<Rightarrow> Flow key '''' \<in> F \<or> (\<exists>p. Flow key p \<in> F \<and> (kind = Publisher \<longrightarrow> Fenced p \<in> F))
     | APublish t \<Rightarrow> (\<exists>key. Flow key t \<in> F \<and> CopyTo t key \<in> F \<and> t \<noteq> '''')
     | APrepare src dst \<Rightarrow> kind = Publisher
     | APut key d ifAbsent \<Rightarrow> staging key \<or> Leased key d \<in> F
     | _ \<Rightarrow> True)"

definition dropFlow :: "string \<Rightarrow> fact set \<Rightarrow> fact set" where
  "dropFlow key F = {f \<in> F. \<forall>p. f \<noteq> Flow key p}"

definition affected :: "claim_ans \<Rightarrow> bool" where
  "affected r \<longleftrightarrow> r = AnsRows 1"

definition gives :: "store_kind \<Rightarrow> fact set \<Rightarrow> claim_act \<Rightarrow> claim_ans \<Rightarrow> fact set" where
  "gives kind F a r = (case a of
       AInsert key scope until staged \<Rightarrow> if affected r then insert (Leased key until) F else F
     | APromote key scope until \<Rightarrow> if affected r then insert (Leased key until) (insert (Flow key '''') F) else F
     | AFindDeleting key \<Rightarrow> F \<union> {Tomb key c |c cs. r = AnsClaims cs \<and> c \<in> set cs}
     | ANow \<Rightarrow> F \<union> {Past t |t. r = AnsTime t}
     | AFence t \<Rightarrow> if r = AnsOk then insert (Fenced t) F else F
     | ADelete key \<Rightarrow> if r = AnsOk \<and> ready kind F key then insert (Clean key) F else F
     | APrepare src dst \<Rightarrow> F \<union> {CopyTo t dst |t. r = AnsToken t}
     | APublishing key token \<Rightarrow> if affected r then insert (Flow key token) (dropFlow key F) else dropFlow key F
     | AUnpromote key \<Rightarrow> dropFlow key F
     | _ \<Rightarrow> F)"

text \<open>Answers an action can have.\<close>

definition answers :: "claim_act \<Rightarrow> claim_ans \<Rightarrow> bool" where
  "answers a r = (case a of
       ANow \<Rightarrow> \<exists>t. r = AnsTime t
     | AInsert key scope until staged \<Rightarrow> \<forall>n. r = AnsRows n \<longrightarrow> n \<le> 1
     | AListStaging \<Rightarrow> \<forall>keys. r = AnsKeys keys \<longrightarrow> list_all staging keys
     | APrepare src dst \<Rightarrow> \<forall>t. r = AnsToken t \<or> r = AnsErrToken t \<longrightarrow> t \<noteq> ''''
     | _ \<Rightarrow> True)"

primrec safeQ :: "store_kind \<Rightarrow> ('a \<Rightarrow> fact set \<Rightarrow> bool) \<Rightarrow> 'a proc \<Rightarrow> fact set \<Rightarrow> bool" where
  "safeQ kind Q (Return x) F \<longleftrightarrow> Q x F"
| "safeQ kind Q (Act a k) F \<longleftrightarrow> needs kind F a \<and> (\<forall>r. answers a r \<longrightarrow> safeQ kind Q (k r) (gives kind F a r))"

lemma safeQ_bind [simp]: "safeQ kind Q (bindP p f) F = safeQ kind (\<lambda>x F'. safeQ kind Q (f x) F') p F"
  by (induction p arbitrary: F) simp_all

abbreviation safe :: "store_kind \<Rightarrow> fact set \<Rightarrow> 'a proc \<Rightarrow> bool" where
  "safe kind F p \<equiv> safeQ kind (\<lambda>_ _. True) p F"



subsection \<open>Every method is safe\<close>

lemma safeQ_mono: "safeQ kind Q p F \<Longrightarrow> (\<And>x F. Q x F \<Longrightarrow> Q' x F) \<Longrightarrow> safeQ kind Q' p F"
  by (induction p arbitrary: F) auto

text \<open>A program that is safe whatever is known.\<close>

definition harmless :: "store_kind \<Rightarrow> 'a proc \<Rightarrow> bool" where
  "harmless kind p \<longleftrightarrow> (\<forall>F. safe kind F p)"

lemma harmless_Return [simp]: "harmless kind (Return x)"
  by (simp add: harmless_def)

lemma harmless_bind:
  assumes "harmless kind p" "\<And>x. harmless kind (f x)"
  shows "harmless kind (bindP p f)"
  using assms by (auto simp: harmless_def intro: safeQ_mono)

lemma harmless_Act:
  "(\<And>F. needs kind F a) \<Longrightarrow> (\<And>r. answers a r \<Longrightarrow> harmless kind (k r)) \<Longrightarrow> harmless kind (Act a k)"
  by (simp add: harmless_def)

lemma harmlessD: "harmless kind p \<Longrightarrow> safe kind F p"
  by (simp add: harmless_def)

lemma harmless_safeQ: "harmless kind p \<Longrightarrow> (\<And>x F'. Q x F') \<Longrightarrow> safeQ kind Q p F"
  using harmlessD safeQ_mono by blast

lemmas act_rules = needs_def gives_def answers_def affected_def

lemma staging_StagingKey [simp]: "staging (StagingKey key)"
  by (simp add: staging_def StagingKey_def)

lemma claims_insert_harmless: "harmless kind (claims_insert kind key scope until staged)"
  by (auto simp: harmless_def claims_insert_def act_rules split: option.splits)

lemma claims_Lookup_harmless: "harmless kind (claims_Lookup key)"
  by (auto simp: harmless_def claims_Lookup_def act_rules)

lemma transition_harmless: "harmless kind (transition key [Pending, Promoting] Deleting e unstaged)"
  by (auto simp: harmless_def transition_def act_rules)

lemma finishForget_safe: "(ended \<Longrightarrow> Clean key \<in> F) \<Longrightarrow> safe kind F (finishForget key ended)"
  by (auto simp: finishForget_def act_rules)

lemma finishDelete_safe:
  assumes "Tomb key c \<in> F" "ended \<Longrightarrow> ready kind F key"
  shows "safe kind F (finishDelete key c ended)"
proof (cases ended)
  case True
  with assms show ?thesis by (auto simp: finishDelete_def finishForget_def act_rules split: claim_ans.split)
next
  case False
  with assms(1) show ?thesis by (auto simp: finishDelete_def finishForget_def act_rules split: claim_ans.split)
qed

lemma Finish_harmless: "harmless kind (Finish kind key)"
proof -
  have d: "safe kind F (finishDelete key c (\<not> now < cl_LeaseUntil c + LeaseMargin))"
    if "Tomb key c \<in> F" "Past now \<in> F" "kind = Publisher \<longrightarrow> cl_Publication c = '''' \<or> Fenced (cl_Publication c) \<in> F" for F c now
    using that by (intro finishDelete_safe) (auto simp: ready_def not_less intro!: exI[of _ c] exI[of _ now])
  have f: "safe kind F (bindP (storageFence kind (cl_Publication c)) (\<lambda>e. case e of
        Some e \<Rightarrow> Return (False, Some e) | None \<Rightarrow> finishDelete key c (\<not> now < cl_LeaseUntil c + LeaseMargin)))"
    if "Tomb key c \<in> F" "Past now \<in> F" for F c now
    using that d[of c F now] d[of c "insert (Fenced (cl_Publication c)) F" now]
    by (auto simp: storageFence_def act_rules split: option.split claim_ans.split)
  show ?thesis using d f
    by (auto simp: harmless_def Finish_def act_rules Let_def simp del: safeQ_bind split: claim_ans.split list.split)
qed

lemma Abandon_harmless: "harmless kind (Abandon kind key)"
  unfolding Abandon_def
  by (intro harmless_bind transition_harmless) (auto intro!: harmless_bind Finish_harmless split: option.split claim_error.split)

lemma abandonAll_harmless: "harmless kind (abandonAll kind keys)"
  by (induction keys) (auto intro!: harmless_bind Abandon_harmless)

lemma finishAll_harmless: "harmless kind (finishAll kind keys)"
  by (induction keys) (auto intro!: harmless_bind Finish_harmless)

lemma pickKeys_set: "set (pickKeys keys other seen) = set keys - set other - set seen"
  by (induction keys other seen rule: pickKeys.induct) auto

lemma changed_disjoint: "changed hold release = (h, r) \<Longrightarrow> set h \<inter> set r = {}"
  by (auto simp: changed_def pickKeys_set)

lemma claims_Update_harmless: "harmless kind (claims_Update kind hold release fnErr)"
proof -
  obtain h r where c: "changed hold release = (h, r)" by (cases "changed hold release")
  have "harmless kind (bindP (abandonAll kind h) (\<lambda>es. Return (e # es)))" for e
    by (intro harmless_bind abandonAll_harmless) simp
  moreover have "harmless kind (bindP (finishAll kind k) (\<lambda>_. Return []))" for k
    by (intro harmless_bind finishAll_harmless) simp
  ultimately show ?thesis using changed_disjoint[OF c]
    by (auto simp: claims_Update_def c Let_def needs_def intro!: harmless_Act split: claim_ans.split sum.split)
qed

lemma forKeys_harmless: "(\<And>k s. harmless kind (body k s)) \<Longrightarrow> harmless kind (forKeys body keys s)"
  by (induction keys arbitrary: s) (auto intro!: harmless_bind)

lemma eachKey_harmless: "(\<And>k s. harmless kind (body k s)) \<Longrightarrow> harmless kind (eachKey n batch q after body s)"
  by (induction n arbitrary: after s)
    (auto simp: needs_def intro!: harmless_Act harmless_bind forKeys_harmless split: claim_ans.split)

lemma Sweep_harmless: "harmless kind (Sweep n kind grace)"
proof -
  have "harmless kind (sweepAbandon kind k s)" "harmless kind (sweepFinish kind k s)" for k s
    by (auto simp: sweepAbandon_def sweepFinish_def intro!: harmless_bind Abandon_harmless Finish_harmless)
  then show ?thesis unfolding Sweep_def
    by (auto simp: needs_def intro!: harmless_Act harmless_bind eachKey_harmless split: claim_ans.split option.split)
qed

lemma sweepStagingKeys_harmless: "list_all staging keys \<Longrightarrow> harmless kind (sweepStagingKeys keys n es)"
  by (induction keys arbitrary: n es)
    (auto simp: needs_def Let_def intro!: harmless_Act split: claim_ans.split list.split)

lemma SweepStaging_harmless: "harmless kind SweepStaging"
  unfolding SweepStaging_def
  by (rule harmless_Act)
    (auto simp: needs_def answers_def intro: sweepStagingKeys_harmless split: claim_ans.split)



lemma parse_fallback:
  assumes "ValidateKey src"
  shows "parseFallback (fallbackToken @ src @ newline # dst) = Some (src, dst)"
proof -
  have n: "newline \<notin> set src" using valid_no_newline[OF assms] by (simp add: newline_def)
  then have "takeWhile (\<lambda>c. c \<noteq> newline) (src @ newline # dst) = src"
    "dropWhile (\<lambda>c. c \<noteq> newline) (src @ newline # dst) = newline # dst"
    by (simp_all add: takeWhile_append dropWhile_append)
  then show ?thesis by (simp add: parseFallback_def cutNewline_def)
qed

lemma upload_unpromote_safe: "needs kind F (AUnpromote key) \<Longrightarrow> safe kind F (upload_unpromote key es)"
  by (auto simp: upload_unpromote_def claims_Unpromote_def)

lemma fence_harmless: "harmless kind (upload_fence kind token)"
  by (auto simp: harmless_def upload_fence_def storageFence_def act_rules)

text \<open>From a recorded copy on.\<close>

definition publishRecorded :: "store_kind \<Rightarrow> string \<Rightarrow> string \<Rightarrow> gotime \<Rightarrow> claim_error list proc" where
  "publishRecorded kind key token deadline = bindP (storagePublish kind token deadline) (\<lambda>e. case e of
       Some e \<Rightarrow> if e \<in> {ErrUnknownOutcome, ErrExists} then Return [e]
         else bindP (upload_fence kind token) (\<lambda>ok. if ok then upload_unpromote key [e] else Return [e])
     | None \<Rightarrow> Act (ADelete (StagingKey key)) (\<lambda>_. Return []))"

lemma publishRecorded_safe:
  assumes "Flow key token \<in> F" "token \<noteq> ''''"
    and "kind = Publisher \<Longrightarrow> CopyTo token key \<in> F"
    and "kind \<noteq> Publisher \<Longrightarrow> Leased key deadline \<in> F \<and> (\<exists>src. parseFallback token = Some (src, key))"
  shows "safe kind F (publishRecorded kind key token deadline)"
proof -
  have u: "safe kind (insert (Fenced token) F') (upload_unpromote key es)" if "Flow key token \<in> F'" for F' es
    using that by (intro upload_unpromote_safe) (auto simp: needs_def)
  have v: "safe kind F' (upload_unpromote key es)" if "Flow key token \<in> F'" "kind \<noteq> Publisher" for F' es
    using that by (intro upload_unpromote_safe) (auto simp: needs_def)
  have f: "safe kind F' (bindP (upload_fence kind token) (\<lambda>ok. if ok then upload_unpromote key es else Return es))"
    if "Flow key token \<in> F'" for F' es
    using u[OF that] v[OF that] by (cases "kind = Publisher") (auto simp: upload_fence_def storageFence_def act_rules split: claim_ans.split)
  show ?thesis
  proof (cases "kind = Publisher")
    case True
    with assms(1-3) f[of F] show ?thesis
      by (auto simp: publishRecorded_def storagePublish_def act_rules simp del: safeQ_bind
          intro!: safeQ_bind[THEN iffD2] split: claim_ans.split option.split)
  next
    case False
    then obtain src where p: "parseFallback token = Some (src, key)" "Leased key deadline \<in> F" using assms(4) by blast
    with False assms(1) f[of F] show ?thesis
      by (auto simp: publishRecorded_def storagePublish_def act_rules split: claim_ans.split option.split)
  qed
qed

lemma Publishing_safe:
  assumes "Flow key '''' \<in> F" "Q None (insert (Flow key token) (dropFlow key F))"
    and "\<And>e F'. Q (Some e) F'"
  shows "safeQ kind Q (claims_Publishing key token) F"
  using assms by (auto simp: claims_Publishing_def act_rules split: claim_ans.split)

lemma dropFlow_other: "f \<in> F \<Longrightarrow> (\<And>p. f \<noteq> Flow key p) \<Longrightarrow> f \<in> dropFlow key F"
  by (simp add: dropFlow_def)

lemma fence_then: "safe kind F (bindP (upload_fence kind token) (\<lambda>_. Return es))"
  by (rule harmlessD) (auto intro!: harmless_bind fence_harmless)

lemma upload_promote_safe:
  assumes "Flow key '''' \<in> F" "Leased key deadline \<in> F"
  shows "safe kind F (upload_promote kind key deadline)"
proof -
  have un: "safe kind F' (upload_unpromote key es)" if "Flow key '''' \<in> F'" for F' es
    using that by (intro upload_unpromote_safe) (simp add: needs_def)
  have rec: "safeQ kind (\<lambda>p F'. safe kind F' (case p of
        Some p \<Rightarrow> bindP (upload_fence kind token) (\<lambda>_. Return [p])
      | None \<Rightarrow> publishRecorded kind key token deadline)) (claims_Publishing key token) F'"
    if "Flow key '''' \<in> F'" "Leased key deadline \<in> F'" "token \<noteq> ''''" "kind = Publisher \<Longrightarrow> CopyTo token key \<in> F'"
      "kind \<noteq> Publisher \<Longrightarrow> \<exists>src. parseFallback token = Some (src, key)" for F' token
  proof (rule Publishing_safe)
    show "safe kind (insert (Flow key token) (dropFlow key F')) (case None of
        Some p \<Rightarrow> bindP (upload_fence kind token) (\<lambda>_. Return [p])
      | None \<Rightarrow> publishRecorded kind key token deadline)"
      using that by (simp, intro publishRecorded_safe) (auto intro: dropFlow_other)
  qed (use that fence_then in \<open>auto simp del: safeQ_bind\<close>)
  have err: "safeQ kind (\<lambda>p F'. safe kind F' (case p of
        Some p \<Rightarrow> bindP (upload_fence kind token) (\<lambda>_. Return [e, p]) | None \<Rightarrow> Return [e])) (claims_Publishing key token) F'"
    if "Flow key '''' \<in> F'" for F' token e
    by (rule Publishing_safe[OF that]) (use fence_then in \<open>auto simp del: safeQ_bind\<close>)
  have tok: "fallbackToken @ s \<noteq> ''''" for s by (simp add: fallbackToken_def)
  note p = upload_promote_def[folded publishRecorded_def]
  show ?thesis
  proof (cases "kind = Publisher")
    case True
    then show ?thesis using assms un[of F] rec[of "insert (CopyTo t key) F" t for t] err
      by (auto simp: p PreparePublish_def act_rules split: claim_ans.split)
  next
    case False
    then show ?thesis using assms un[of F] rec[of F "fallbackToken @ StagingKey key @ newline # key"] parse_fallback tok
      by (auto simp: p PreparePublish_def CheckOwnable_def)
  qed
qed

lemma unclaim_harmless: "harmless kind (upload_discard kind key)" "harmless kind (unclaim kind key)"
  unfolding unclaim_def upload_discard_def by (auto intro!: harmless_bind Abandon_harmless)

lemma Confirm_harmless: "harmless kind (Confirm kind key scope timeout now chk)"
proof -
  let ?d = "now + timeout"
  have pr: "safe kind (insert (Leased key ?d) (insert (Flow key '''') F)) (upload_promote kind key ?d)" for F
    by (rule upload_promote_safe) simp_all
  have un: "safe kind F (upload_unpromote key es)" if "Flow key [] \<in> F" for F es
    using that by (intro upload_unpromote_safe) (simp add: needs_def)
  have ck: "safe kind F (upload_check key chk False)" for F
    by (auto simp: upload_check_def act_rules split: check_verdict.split claim_ans.split)
  have st: "safe kind F (bindP (upload_check (StagingKey key) chk True) (\<lambda>es. if es \<noteq> [] then upload_unpromote key es
      else upload_promote kind key ?d))" if "F = insert (Leased key ?d) (insert (Flow key '''') F')" for F F'
    using pr un that by (auto simp: upload_check_def act_rules split: check_verdict.split claim_ans.split)
  show ?thesis unfolding harmless_def Confirm_def Let_def using st ck
    by (auto simp: claims_Promote_def claims_Lookup_def act_rules simp del: safeQ_bind intro!: safeQ_bind[THEN iffD2]
        split: claim_ans.split list.split)
qed

lemma save_harmless: "harmless kind (save kind key scope timeout now)"
proof -
  let ?d = "now + timeout"
  have pr: "safe kind (insert (Leased key ?d) (insert (Flow key '''') F)) (upload_promote kind key ?d)" for F
    by (rule upload_promote_safe) simp_all
  have ab: "safe kind F (bindP (unclaim kind key) (\<lambda>_. Return es))" for F and es :: "claim_error list"
    by (rule harmlessD) (auto intro!: harmless_bind unclaim_harmless)
  have ab2: "safe kind F (bindP (upload_discard kind key) (\<lambda>e. Return (g e)))" for F and g :: "claim_error option \<Rightarrow> claim_error list"
    by (rule harmlessD) (auto intro!: harmless_bind unclaim_harmless)
  have prom: "safe kind F (bindP (claims_Promote key scope ?d) (\<lambda>p. case p of
         Inr True \<Rightarrow> upload_promote kind key ?d
       | Inr False \<Rightarrow> bindP (unclaim kind key) (\<lambda>_. Return [StoreErr])
       | Inl e \<Rightarrow> bindP (unclaim kind key) (\<lambda>_. Return [e])))" for F
    using pr ab by (auto simp: claims_Promote_def act_rules split: claim_ans.split)
  show ?thesis unfolding harmless_def save_def Let_def using prom ab ab2
    by (auto simp: claims_insert_def claims_Stage_def claims_Pending_def CheckOwnable_def act_rules split: claim_ans.split option.split)
qed

lemma Authorize_harmless: "harmless kind (Authorize kind key scope ttl now urlErr)"
  unfolding Authorize_def claims_Stage_def
  by (auto intro!: harmless_bind claims_insert_harmless unclaim_harmless split: option.split)

lemma calls_safe: "p \<in> calls kind \<Longrightarrow> safe kind {} p"
  by (rule harmlessD, erule calls.cases)
    (auto simp: claims_Pending_def claims_Stage_def intro!: harmless_bind claims_insert_harmless claims_Lookup_harmless
      claims_Update_harmless Abandon_harmless Finish_harmless Sweep_harmless SweepStaging_harmless Authorize_harmless
      Confirm_harmless save_harmless)

end
