(* ===== verification/Claims_Theorems.thy ===== *)
theory Claims_Theorems
  imports Claims_Safety
begin

section \<open>Ownership of stored files: the theorems\<close>

text \<open>
  Soundness of the facts: an action whose needs are met keeps the invariant of the world, keeps the
  facts of every process, and gives the facts it promises. Reachable configurations therefore satisfy
  \<open>cfg_ok\<close>, and the two guarantees of the protocol follow: no object a record refers to is ever
  deleted, and a key whose claim is gone holds nothing and never will.
\<close>

subsection \<open>Changes of the world\<close>

lemma world_okD:
  assumes "world_ok kind w"
  shows "row w key = Some c \<Longrightarrow> key \<in> set (cw_used w)"
    and "row w key = Some c \<Longrightarrow> cl_State c = Pending \<Longrightarrow> cl_Publication c = ''''"
    and "key \<in> set (cw_refs w) \<Longrightarrow> key \<in> set (cw_used w) \<Longrightarrow> \<exists>c. row w key = Some c \<and> cl_State c = Held"
    and "key \<in> set (cw_used w) \<Longrightarrow> row w key = None \<Longrightarrow> key \<notin> set (cw_objects w)"
    and "liveCopy w t cp \<Longrightarrow> \<exists>c. row w (cp_dst cp) = Some c \<and> cl_Publication c = t"
    and "map_of (cw_copies w) '''' = None"
    and "kind \<noteq> Publisher \<Longrightarrow> cw_copies w = []"
    and "key \<in> set (cw_used w) \<Longrightarrow> \<not> staging key"
    and "key \<in> set (cw_refs w) \<Longrightarrow> \<not> staging key"
  using assms by (auto simp: world_ok_def list_all_iff)

lemma live_nonempty: "world_ok kind w \<Longrightarrow> liveCopy w t cp \<Longrightarrow> t \<noteq> ''''"
  using world_okD(6) by (auto simp: liveCopy_def)

lemma live_publisher: "world_ok kind w \<Longrightarrow> liveCopy w t cp \<Longrightarrow> kind = Publisher"
  using world_okD(7) by (fastforce simp: liveCopy_def)

lemma liveCopy_table [simp]: "liveCopy (w\<lparr>cw_table := tbl\<rparr>) t cp = liveCopy w t cp"
  by (simp add: liveCopy_def)

text \<open>A row of a key changes.\<close>

lemma row_change_ok:
  assumes "world_ok kind w" "row w key = Some c"
    and "cl_State c' = Pending \<Longrightarrow> cl_Publication c' = ''''"
    and "key \<in> set (cw_refs w) \<Longrightarrow> cl_State c' = Held"
    and "\<And>t cp. liveCopy w t cp \<Longrightarrow> cp_dst cp = key \<Longrightarrow> cl_Publication c' = t"
  shows "world_ok kind (w\<lparr>cw_table := AList.update key c' (cw_table w)\<rparr>)"
  using assms unfolding world_ok_def by (auto 0 3)

lemma row_change_fact:
  assumes "row w key = Some c" "cl_State c \<noteq> Deleting" "cl_LeaseUntil c \<le> cl_LeaseUntil c'" "holds kind w j f"
    and "\<And>p. f = Flow key p \<Longrightarrow> cl_State c' \<noteq> Pending \<and> cl_Publication c' = cl_Publication c"
  shows "holds kind (w\<lparr>cw_table := AList.update key c' (cw_table w)\<rparr>) j f"
  using assms by (cases f) (auto simp: doomed_def overLease_def split: option.splits)

text \<open>A new row of a key never claimed before.\<close>

lemma new_row_ok:
  assumes "world_ok kind w" "row w key = None" "key \<notin> set (cw_used w)" "key \<notin> set (cw_refs w)" "\<not> staging key"
    and "cl_State c = Pending" "cl_Publication c = ''''"
  shows "world_ok kind (w\<lparr>cw_used := List.insert key (cw_used w), cw_table := AList.update key c (cw_table w)\<rparr>)"
proof -
  have "liveCopy w t cp \<Longrightarrow> cp_dst cp \<noteq> key" for t cp using world_okD(5)[OF assms(1)] assms(2) by fastforce
  moreover have "liveCopy (w\<lparr>cw_used := u, cw_table := tb\<rparr>) t cp = liveCopy w t cp" for u tb t cp by (simp add: liveCopy_def)
  ultimately show ?thesis using assms unfolding world_ok_def by (auto simp: list_all_iff)
qed

lemma new_row_fact:
  assumes "row w key = None" "key \<notin> set (cw_used w)" "holds kind w j f"
  shows "holds kind (w\<lparr>cw_used := List.insert key (cw_used w), cw_table := AList.update key c (cw_table w)\<rparr>) j f"
  using assms by (cases f) (auto simp: doomed_def overLease_def split: option.splits)

text \<open>A claim is forgotten.\<close>

lemma forget_ok:
  assumes "world_ok kind w" "holds kind w i (Clean key)"
  shows "world_ok kind (w\<lparr>cw_table := stmtForget (cw_table w) key\<rparr>)"
proof (cases "row w key")
  case (Some c)
  have o: "cl_State c = Deleting" "kind = Publisher \<Longrightarrow> cl_Publication c = '''' \<or> fencedToken w (cl_Publication c)" "key \<notin> set (cw_objects w)"
    using assms(2) Some by (auto simp: overLease_def)
  have n: "liveCopy w t cp \<Longrightarrow> cp_dst cp \<noteq> key" for t cp
    using world_okD(5)[OF assms(1)] live_nonempty[OF assms(1)] live_publisher[OF assms(1)] Some o(2) by (fastforce simp: liveCopy_def)
  have r: "key \<notin> set (cw_refs w)" using world_okD(3)[OF assms(1), of key] world_okD(1)[OF assms(1) Some] Some o(1) by auto
  show ?thesis using assms(1) o n r Some unfolding world_ok_def by (auto simp: stmtForget_def)
qed (use assms(1) in \<open>simp add: stmtForget_def\<close>)

lemma forget_fact:
  assumes "holds kind w i (Clean key)" "holds kind w j f"
  shows "holds kind (w\<lparr>cw_table := stmtForget (cw_table w) key\<rparr>) j f"
proof (cases "row w key")
  case (Some c)
  have o: "cl_State c = Deleting" "kind = Publisher \<Longrightarrow> cl_Publication c = '''' \<or> fencedToken w (cl_Publication c)"
    "cl_LeaseUntil c + LeaseMargin \<le> cw_now w"
    using assms(1) Some by (auto simp: overLease_def)
  then have "cl_LeaseUntil c \<le> cw_now w" by (simp add: LeaseMargin_def)
  with assms(2) o Some show ?thesis
    by (cases f) (auto simp: stmtForget_def doomed_def overLease_def split: option.splits)
qed (use assms(2) in \<open>simp add: stmtForget_def\<close>)

text \<open>Objects come and go.\<close>

lemma addObject_ok:
  assumes "world_ok kind w" "key \<in> set (cw_used w) \<Longrightarrow> row w key \<noteq> None"
  shows "world_ok kind (addObject key w)"
  using assms unfolding world_ok_def by (auto simp: addObject_def liveCopy_def)

lemma addObject_fact:
  assumes "key \<in> set (cw_used w) \<Longrightarrow> \<not> overLease kind w key" "holds kind w j f"
  shows "holds kind (addObject key w) j f"
  using assms by (cases f) (auto simp: addObject_def doomed_def overLease_def split: option.splits)

lemma dropObject_ok: "world_ok kind w \<Longrightarrow> world_ok kind (w\<lparr>cw_objects := removeAll key (cw_objects w)\<rparr>)"
  unfolding world_ok_def by (auto simp: liveCopy_def)

lemma dropObject_fact: "holds kind w j f \<Longrightarrow> holds kind (w\<lparr>cw_objects := removeAll key (cw_objects w)\<rparr>) j f"
  by (cases f) (auto simp: doomed_def overLease_def split: option.splits)

text \<open>Copies.\<close>

lemma publishCopy_step:
  assumes "world_ok kind w"
  shows "world_ok kind (publishCopy t w)" and "holds kind w j f \<Longrightarrow> holds kind (publishCopy t w) j f"
proof -
  have "world_ok kind (publishCopy t w) \<and> (holds kind w j f \<longrightarrow> holds kind (publishCopy t w) j f)"
  proof (cases "\<exists>cp. liveCopy w t cp")
    case True
    then obtain cp where cp: "liveCopy w t cp" by blast
    with world_okD(5)[OF assms] obtain c where c: "row w (cp_dst cp) = Some c" "cl_Publication c = t" by blast
    have e: "publishCopy t w = addObject (cp_dst cp) w" using cp by (simp add: publishCopy_def liveCopy_def)
    have "\<not> overLease kind w (cp_dst cp)" using c cp live_nonempty[OF assms cp] live_publisher[OF assms cp] by (auto simp: overLease_def liveCopy_def)
    then show ?thesis unfolding e using addObject_ok[OF assms] addObject_fact c(1) by simp
  next
    case False
    then have "publishCopy t w = w" by (auto simp: publishCopy_def liveCopy_def split: option.split)
    with assms show ?thesis by simp
  qed
  then show "world_ok kind (publishCopy t w)" and "holds kind w j f \<Longrightarrow> holds kind (publishCopy t w) j f" by auto
qed

lemma requestCopy_ok:
  assumes "world_ok kind w" "holds kind w i (Flow key t)" "holds kind w i (CopyTo t key)" "t \<noteq> ''''"
  shows "world_ok kind (requestCopy t w)"
proof -
  obtain cp where cp: "map_of (cw_copies w) t = Some cp" "cp_dst cp = key" using assms(3) by auto
  have k: "kind = Publisher" using cp(1) world_okD(7)[OF assms(1)] by (cases "kind = Publisher") auto
  have l: "liveCopy (requestCopy t w) t' cp' \<Longrightarrow> t' = t \<and> cp_dst cp' = key \<or> liveCopy w t' cp'" for t' cp'
    using cp by (auto simp: liveCopy_def requestCopy_def split: if_splits)
  have r: "cw_table (requestCopy t w) = cw_table w" "cw_used (requestCopy t w) = cw_used w" "cw_refs (requestCopy t w) = cw_refs w"
    "cw_objects (requestCopy t w) = cw_objects w" "cw_fenced (requestCopy t w) = cw_fenced w"
    "map_of (cw_copies (requestCopy t w)) '''' = None" "cw_copies w = [] \<Longrightarrow> cw_copies (requestCopy t w) = []"
    using cp(1) assms(4) world_okD(6)[OF assms(1)] by (auto simp: requestCopy_def)
  have "\<exists>c. row w (cp_dst cp') = Some c \<and> cl_Publication c = t'" if "liveCopy (requestCopy t w) t' cp'" for t' cp'
    using l[OF that] world_okD(5)[OF assms(1)] assms(2,4) that r(5) k
    by (auto simp: liveCopy_def split: option.splits)
  with r assms(1) show ?thesis unfolding world_ok_def by auto
qed

lemma requestCopy_fact: "holds kind w j f \<Longrightarrow> holds kind (requestCopy t w) j f"
  by (cases f) (auto simp: requestCopy_def doomed_def overLease_def split: option.splits)

lemma fenceCopy_ok: "world_ok kind w \<Longrightarrow> world_ok kind (fenceCopy t w)"
  unfolding world_ok_def by (auto simp: fenceCopy_def liveCopy_def)

lemma fenceCopy_fact: "holds kind w j f \<Longrightarrow> holds kind (fenceCopy t w) j f"
  by (cases f) (auto simp: fenceCopy_def doomed_def overLease_def split: option.splits)

lemma freshToken_new: "map_of (cw_copies w) (freshToken w) = None" "freshToken w \<notin> set (cw_fenced w)" "freshToken w \<noteq> ''''"
proof -
  have l: "length x \<le> sum_list (map length xs)" if "x \<in> set xs" for x and xs :: "string list"
    using that by (induction xs) auto
  have "freshToken w \<notin> set (map fst (cw_copies w) @ cw_fenced w)"
  proof
    assume "freshToken w \<in> set (map fst (cw_copies w) @ cw_fenced w)"
    from l[OF this] show False by (simp add: freshToken_def)
  qed
  then show "map_of (cw_copies w) (freshToken w) = None" "freshToken w \<notin> set (cw_fenced w)"
    by (auto simp: map_of_eq_None_iff)
qed (simp add: freshToken_def)

lemma prepare_ok:
  assumes "world_ok Publisher w"
  shows "world_ok Publisher (w\<lparr>cw_copies := AList.update (freshToken w) \<lparr>cp_dst = d, cp_requested = False\<rparr> (cw_copies w)\<rparr>)"
  using assms freshToken_new(3)[of w] unfolding world_ok_def by (auto simp: liveCopy_def)

lemma prepare_fact:
  "holds kind w j f \<Longrightarrow> holds kind (w\<lparr>cw_copies := AList.update (freshToken w) \<lparr>cp_dst = d, cp_requested = False\<rparr> (cw_copies w)\<rparr>) j f"
  using freshToken_new(1)[of w] by (cases f) (auto simp: doomed_def overLease_def split: option.splits)

lemma clock_ok: "world_ok kind w \<Longrightarrow> world_ok kind (w\<lparr>cw_now := t\<rparr>)"
  unfolding world_ok_def by (auto simp: liveCopy_def)

lemma clock_fact: "cw_now w \<le> t \<Longrightarrow> holds kind w j f \<Longrightarrow> holds kind (w\<lparr>cw_now := t\<rparr>) j f"
  by (cases f) (auto simp: doomed_def overLease_def split: option.splits)

subsection \<open>Every action is sound\<close>

definition sound :: "store_kind \<Rightarrow> fact set \<Rightarrow> nat \<Rightarrow> claims_world \<Rightarrow> claim_act \<Rightarrow> claim_ans \<Rightarrow> claims_world \<Rightarrow> bool" where
  "sound kind F i w a r w' \<longleftrightarrow> world_ok kind w' \<and> (\<forall>f \<in> gives kind F a r. holds kind w' i f) \<and>
     (\<forall>j f. j \<noteq> i \<longrightarrow> holds kind w j f \<longrightarrow> holds kind w' j f) \<and> answers a r"

lemma soundI:
  assumes "world_ok kind w'" "\<And>f. f \<in> F \<Longrightarrow> holds kind w i f" "\<And>j f. holds kind w j f \<Longrightarrow> holds kind w' j f"
    and "answers a r" "\<And>f. f \<in> gives kind F a r \<Longrightarrow> f \<notin> F \<Longrightarrow> holds kind w' i f"
  shows "sound kind F i w a r w'"
  using assms unfolding sound_def by blast

text \<open>An action that changes nothing.\<close>

lemma sound_same:
  assumes "world_ok kind w" "\<And>f. f \<in> F \<Longrightarrow> holds kind w i f" "answers a r"
    and "\<And>f. f \<in> gives kind F a r \<Longrightarrow> f \<notin> F \<Longrightarrow> holds kind w i f"
  shows "sound kind F i w a r w"
  using assms by (intro soundI) auto


lemma not_referred:
  assumes "world_ok kind w" "row w key = Some c" "cl_State c \<noteq> Held"
  shows "key \<notin> set (cw_refs w)"
  using world_okD(1,3)[OF assms(1)] assms(2,3) by fastforce

lemma updateWhere_cases:
  assumes "updateWhere tbl key P f = (n, tbl')"
  obtains "n = 0" "tbl' = tbl" | c where "n = 1" "map_of tbl key = Some c" "P c" "tbl' = AList.update key (f c) tbl"
  using assms by (auto simp: updateWhere_def split: option.splits if_splits)

lemma insert_sound:
  assumes ok: "world_ok kind w" and known: "\<And>f. f \<in> F \<Longrightarrow> holds kind w i f"
    and fresh: "freshKeys w (AInsert key scope until staged)" and p: "perform i w (AInsert key scope until staged) = (r, w')"
  shows "sound kind F i w (AInsert key scope until staged) r w'"
proof (cases "row w key")
  case None
  let ?c = "\<lparr>cl_State = Pending, cl_CreatedAt = cw_now w, cl_LeaseUntil = until, cl_Staged = staged,
    cl_Scope = scope, cl_Publication = '''', cl_UpdatedAt = cw_now w\<rparr>"
  have w': "w' = w\<lparr>cw_used := List.insert key (cw_used w), cw_table := AList.update key ?c (cw_table w)\<rparr>" "r = AnsRows 1"
    using p None by (auto simp: rowsAns_def stmtInsert_def)
  have f: "key \<notin> set (cw_used w)" "key \<notin> set (cw_refs w)" "\<not> staging key" using fresh None by (auto simp: freshKeys_def)
  show ?thesis unfolding w'
    using new_row_ok[OF ok None f, of ?c] new_row_fact[OF None f(1)] known by (intro soundI) (auto simp: act_rules)
next
  case (Some c)
  have "w' = w" "r = AnsRows 0" using p Some world_okD(1)[OF ok Some]
    by (auto simp: rowsAns_def stmtInsert_def)
  then show ?thesis using ok known by (auto intro!: sound_same simp: act_rules)
qed

lemma owner_ok: "world_ok kind (w\<lparr>cw_owner := o1\<rparr>) = world_ok kind w"
  by (simp add: world_ok_def liveCopy_def)

lemma owner_fact:
  assumes "holds kind w j f" "\<And>p. f \<noteq> Flow key p"
  shows "holds kind (w\<lparr>cw_owner := AList.update key i (cw_owner w)\<rparr>) j f"
  using assms by (cases f) (auto simp: doomed_def overLease_def split: option.splits)

lemma promote_sound:
  assumes ok: "world_ok kind w" and known: "\<And>f. f \<in> F \<Longrightarrow> holds kind w i f"
    and p: "perform i w (APromote key scope until) = (r, w')"
  shows "sound kind F i w (APromote key scope until) r w'"
proof -
  obtain n tbl' where u: "stmtPromote (cw_table w) key scope until (cw_now w) = (n, tbl')" by fastforce
  from u[unfolded stmtPromote_def] show ?thesis
  proof (cases rule: updateWhere_cases)
    case 1
    then have "w' = w" "r = AnsRows 0" using p u by (auto simp: rowsAns_def)
    then show ?thesis using ok known by (auto intro!: sound_same simp: act_rules)
  next
    case (2 c)
    let ?w = "w\<lparr>cw_owner := AList.update key i (cw_owner w)\<rparr>"
    have w': "w' = ?w\<lparr>cw_table := tbl'\<rparr>" "r = AnsRows 1" using p u 2(1) by (auto simp: rowsAns_def)
    have nf: "f \<noteq> Flow key p" if "holds kind w j f" for j f p using that 2(2,3) by (cases f) auto
    have pub: "cl_Publication c = ''''" using world_okD(2)[OF ok 2(2)] 2(3) by simp
    have nl: "liveCopy w t cp \<Longrightarrow> cp_dst cp \<noteq> key" for t cp
      using world_okD(5)[OF ok] live_nonempty[OF ok] 2(2) pub by fastforce
    have "world_ok kind (?w\<lparr>cw_table := tbl'\<rparr>)" unfolding 2(4)
      by (rule row_change_ok[of kind ?w key c, simplified])
        (use 2(2,3) ok not_referred[OF ok 2(2)] nl in \<open>auto simp: owner_ok liveCopy_def\<close>)
    moreover have "holds kind (?w\<lparr>cw_table := tbl'\<rparr>) j f" if "holds kind w j f" for j f
      using row_change_fact[of ?w key c _ kind j f] owner_fact[OF that nf[OF that]] 2(2,3) nf[OF that]
      unfolding 2(4) by auto
    ultimately show ?thesis unfolding w' using known 2(2,4) pub world_okD(1)[OF ok 2(2)]
      by (intro soundI) (auto simp: act_rules)
  qed
qed

text \<open>The process that promotes a key is the only one that knows its flow.\<close>

lemma flow_owner: "holds kind w j (Flow key p) \<Longrightarrow> holds kind w i (Flow key p') \<Longrightarrow> j = i"
  by simp

text \<open>A row of a key in a flow of this process changes, and no copy of it can land any more.\<close>

lemma flow_change_sound:
  assumes ok: "world_ok kind w" and known: "\<And>f. f \<in> F \<Longrightarrow> holds kind w i f"
    and flow: "Flow key p \<in> F" "p = '''' \<or> (kind = Publisher \<longrightarrow> Fenced p \<in> F)"
    and c: "row w key = Some c" "cl_State c = Promoting" "cl_LeaseUntil c' = cl_LeaseUntil c"
    and c': "cl_State c' \<noteq> Held" "cl_State c' = Pending \<Longrightarrow> cl_Publication c' = ''''"
  shows "world_ok kind (w\<lparr>cw_table := AList.update key c' (cw_table w)\<rparr>)"
    and "f \<in> dropFlow key F \<Longrightarrow> holds kind (w\<lparr>cw_table := AList.update key c' (cw_table w)\<rparr>) i f"
    and "j \<noteq> i \<Longrightarrow> holds kind w j f \<Longrightarrow> holds kind (w\<lparr>cw_table := AList.update key c' (cw_table w)\<rparr>) j f"
proof -
  have p: "cl_Publication c = p" using known[OF flow(1)] c(1) by simp
  have nl: "cp_dst cp \<noteq> key" if "liveCopy w t cp" for t cp
    using world_okD(5)[OF ok that] live_nonempty[OF ok that] live_publisher[OF ok that] c(1) p flow(2) known[of "Fenced p"] that
    by (auto simp: liveCopy_def)
  show "world_ok kind (w\<lparr>cw_table := AList.update key c' (cw_table w)\<rparr>)"
    by (rule row_change_ok[OF ok c(1)]) (use c' nl not_referred[OF ok c(1)] c(2) in auto)
  show "f \<in> dropFlow key F \<Longrightarrow> holds kind (w\<lparr>cw_table := AList.update key c' (cw_table w)\<rparr>) i f"
    using row_change_fact[OF c(1), of c' kind i f] c known[of f] by (auto simp: dropFlow_def)
  show "j \<noteq> i \<Longrightarrow> holds kind w j f \<Longrightarrow> holds kind (w\<lparr>cw_table := AList.update key c' (cw_table w)\<rparr>) j f"
    using row_change_fact[OF c(1), of c' kind j f] c flow_owner[OF _ known[OF flow(1)]] by (metis claim_state.distinct(9) order_refl)
qed

lemma dropFlow_sub: "f \<in> dropFlow key F \<Longrightarrow> f \<in> F"
  by (simp add: dropFlow_def)

lemma publishing_sound:
  assumes ok: "world_ok kind w" and known: "\<And>f. f \<in> F \<Longrightarrow> holds kind w i f" and flow: "Flow key '''' \<in> F"
    and p: "perform i w (APublishing key token) = (r, w')"
  shows "sound kind F i w (APublishing key token) r w'"
proof -
  obtain n tbl' where u: "stmtPublishing (cw_table w) key token (cw_now w) = (n, tbl')" by fastforce
  from u[unfolded stmtPublishing_def] show ?thesis
  proof (cases rule: updateWhere_cases)
    case 1
    then have "w' = w" "r = AnsRows 0" using p u by (auto simp: rowsAns_def)
    then show ?thesis using ok known by (auto simp: sound_def act_rules dest: dropFlow_sub)
  next
    case (2 c)
    have w': "w' = w\<lparr>cw_table := tbl'\<rparr>" "r = AnsRows 1" using p u 2(1) by (auto simp: rowsAns_def)
    note s = flow_change_sound[OF ok known flow _ 2(2,3), of "c\<lparr>cl_Publication := token, cl_UpdatedAt := cw_now w\<rparr>", folded 2(4)]
    show ?thesis unfolding w' sound_def using s known[OF flow] 2(2,3,4) by (auto simp: act_rules)
  qed
qed

lemma unpromote_sound:
  assumes ok: "world_ok kind w" and known: "\<And>f. f \<in> F \<Longrightarrow> holds kind w i f" and n: "needs kind F (AUnpromote key)"
    and p: "perform i w (AUnpromote key) = (r, w')"
  shows "sound kind F i w (AUnpromote key) r w'"
proof -
  obtain q where flow: "Flow key q \<in> F" "q = '''' \<or> (kind = Publisher \<longrightarrow> Fenced q \<in> F)" using n by (auto simp: needs_def)
  obtain n tbl' where u: "stmtUnpromote (cw_table w) key (cw_now w) = (n, tbl')" by fastforce
  from u[unfolded stmtUnpromote_def] show ?thesis
  proof (cases rule: updateWhere_cases)
    case 1
    then have "w' = w" "r = AnsRows 0" using p u by (auto simp: rowsAns_def)
    then show ?thesis using ok known by (auto simp: sound_def act_rules dest: dropFlow_sub)
  next
    case (2 c)
    have w': "w' = w\<lparr>cw_table := tbl'\<rparr>" "r = AnsRows 1" using p u 2(1) by (auto simp: rowsAns_def)
    note s = flow_change_sound[OF ok known flow 2(2,3), of "c\<lparr>cl_State := Pending, cl_Publication := '''', cl_UpdatedAt := cw_now w\<rparr>", folded 2(4)]
    show ?thesis unfolding w' sound_def using s by (auto simp: act_rules)
  qed
qed

lemma transition_sound:
  assumes ok: "world_ok kind w" and known: "\<And>f. f \<in> F \<Longrightarrow> holds kind w i f"
    and p: "perform i w (ATransition key [Pending, Promoting] Deleting unstaged) = (r, w')"
  shows "sound kind F i w (ATransition key [Pending, Promoting] Deleting unstaged) r w'"
proof -
  obtain n tbl' where u: "stmtTransition (cw_table w) key [Pending, Promoting] Deleting unstaged (cw_now w) = (n, tbl')" by fastforce
  from u[unfolded stmtTransition_def] show ?thesis
  proof (cases rule: updateWhere_cases)
    case 1
    then have "w' = w" "r = AnsRows 0" using p u by (auto simp: rowsAns_def)
    then show ?thesis using ok known by (auto intro!: sound_same simp: act_rules)
  next
    case (2 c)
    have w': "w' = w\<lparr>cw_table := tbl'\<rparr>" "r = AnsRows 1" using p u 2(1) by (auto simp: rowsAns_def)
    have s: "cl_State c \<noteq> Held" "cl_State c \<noteq> Deleting" using 2(3) by auto
    have "world_ok kind (w\<lparr>cw_table := tbl'\<rparr>)" unfolding 2(4)
      by (rule row_change_ok[OF ok 2(2)]) (use not_referred[OF ok 2(2) s(1)] world_okD(5)[OF ok] 2(2) in fastforce)+
    moreover have "holds kind (w\<lparr>cw_table := tbl'\<rparr>) j f" if "holds kind w j f" for j f
      unfolding 2(4) by (rule row_change_fact[OF 2(2) s(2) _ that]) auto
    ultimately show ?thesis unfolding w' using known by (intro soundI) (auto simp: act_rules)
  qed
qed

text \<open>The transaction of \<open>Update\<close>, row by row.\<close>

lemma txHolds_row:
  assumes "txHolds tbl keys now = Inr tbl'"
  shows "key \<notin> set keys \<Longrightarrow> map_of tbl' key = map_of tbl key"
    and "key \<in> set keys \<Longrightarrow> \<exists>c. map_of tbl key = Some c \<and> cl_State c \<in> {Pending, Promoting} \<and>
           map_of tbl' key = Some (c\<lparr>cl_State := Held, cl_UpdatedAt := now\<rparr>)"
proof -
  have "(key \<notin> set keys \<longrightarrow> map_of tbl' key = map_of tbl key) \<and>
    (key \<in> set keys \<longrightarrow> (\<exists>c. map_of tbl key = Some c \<and> cl_State c \<in> {Pending, Promoting} \<and>
       map_of tbl' key = Some (c\<lparr>cl_State := Held, cl_UpdatedAt := now\<rparr>)))"
    using assms
  proof (induction keys arbitrary: tbl)
    case (Cons k keys)
    from Cons.prems obtain tbl1 where t: "txHold tbl k now = Inr tbl1" "txHolds tbl1 keys now = Inr tbl'"
      by (auto split: sum.splits)
    from t(1) obtain c where c: "map_of tbl k = Some c" "cl_State c \<in> {Pending, Promoting}"
      "tbl1 = AList.update k (c\<lparr>cl_State := Held, cl_UpdatedAt := now\<rparr>) tbl"
      by (auto simp: txHold_def stmtTransition_def updateWhere_def split: option.splits if_splits)
    show ?case using Cons.IH[OF t(2)] c by (cases "key = k"; cases "key \<in> set keys") auto
  qed simp
  then show "key \<notin> set keys \<Longrightarrow> map_of tbl' key = map_of tbl key"
    and "key \<in> set keys \<Longrightarrow> \<exists>c. map_of tbl key = Some c \<and> cl_State c \<in> {Pending, Promoting} \<and>
           map_of tbl' key = Some (c\<lparr>cl_State := Held, cl_UpdatedAt := now\<rparr>)"
    by blast+
qed

lemma txReleases_row:
  assumes "txReleases tbl keys now = Inr (rel, tbl')"
  shows "key \<notin> set keys \<or> map_of tbl key = None \<Longrightarrow> map_of tbl' key = map_of tbl key"
    and "key \<in> set keys \<Longrightarrow> map_of tbl key = Some c \<Longrightarrow>
           cl_State c = Held \<and> map_of tbl' key = Some (c\<lparr>cl_State := Deleting, cl_UpdatedAt := now\<rparr>)"
proof -
  have "(key \<notin> set keys \<or> map_of tbl key = None \<longrightarrow> map_of tbl' key = map_of tbl key) \<and>
    (\<forall>c. key \<in> set keys \<longrightarrow> map_of tbl key = Some c \<longrightarrow>
       cl_State c = Held \<and> map_of tbl' key = Some (c\<lparr>cl_State := Deleting, cl_UpdatedAt := now\<rparr>))"
    using assms
  proof (induction keys arbitrary: tbl rel)
    case (Cons k keys)
    from Cons.prems obtain b tbl1 rel1 where t: "txRelease tbl k now = Inr (b, tbl1)" "txReleases tbl1 keys now = Inr (rel1, tbl')"
      by (auto split: sum.splits prod.splits)
    from t(1) consider "map_of tbl k = None" "tbl1 = tbl"
      | c where "map_of tbl k = Some c" "cl_State c = Held" "tbl1 = AList.update k (c\<lparr>cl_State := Deleting, cl_UpdatedAt := now\<rparr>) tbl"
      by (auto simp: txRelease_def stmtTransition_def updateWhere_def split: option.splits if_splits)
    then show ?case using Cons.IH[OF t(2)] by cases (cases "key = k"; cases "key \<in> set keys"; auto)+
  qed simp
  then show "key \<notin> set keys \<or> map_of tbl key = None \<Longrightarrow> map_of tbl' key = map_of tbl key"
    and "key \<in> set keys \<Longrightarrow> map_of tbl key = Some c \<Longrightarrow>
           cl_State c = Held \<and> map_of tbl' key = Some (c\<lparr>cl_State := Deleting, cl_UpdatedAt := now\<rparr>)"
    by blast+
qed

definition txMoved :: "string list \<Rightarrow> string list \<Rightarrow> string \<Rightarrow> Claim option \<Rightarrow> Claim option \<Rightarrow> bool" where
  "txMoved hold release key r r' \<longleftrightarrow>
     (if key \<in> set hold then \<exists>c u. r = Some c \<and> cl_State c \<in> {Pending, Promoting} \<and> r' = Some (c\<lparr>cl_State := Held, cl_UpdatedAt := u\<rparr>)
      else if key \<in> set release then r = None \<and> r' = None \<or>
        (\<exists>c u. r = Some c \<and> cl_State c = Held \<and> r' = Some (c\<lparr>cl_State := Deleting, cl_UpdatedAt := u\<rparr>))
      else r' = r)"

lemma txUpdate_row:
  assumes "txUpdate tbl hold release fnErr now = Inr (rel, tbl')" "set hold \<inter> set release = {}"
  shows "txMoved hold release key (map_of tbl key) (map_of tbl' key)"
proof -
  from assms(1) obtain tbl1 where t: "txHolds tbl hold now = Inr tbl1" "txReleases tbl1 release now = Inr (rel, tbl')"
    by (auto simp: txUpdate_def split: sum.splits option.splits)
  show ?thesis using txHolds_row[OF t(1), of key] txReleases_row[OF t(2), of key] assms(2)
    by (cases "map_of tbl key") (auto simp: txMoved_def)
qed

lemma txMoved_facts:
  assumes "txMoved hold release key r r'"
  shows "r' = None \<longleftrightarrow> r = None"
    and "r' = Some c' \<Longrightarrow> \<exists>c. r = Some c \<and> cl_Publication c' = cl_Publication c \<and> cl_LeaseUntil c' = cl_LeaseUntil c \<and>
           (cl_State c' = Pending \<longrightarrow> cl_State c = Pending) \<and> (cl_State c = Deleting \<longrightarrow> c' = c)"
    and "r = Some c \<Longrightarrow> cl_State c = Held \<Longrightarrow> key \<notin> set release \<Longrightarrow> \<exists>c'. r' = Some c' \<and> cl_State c' = Held"
    and "key \<in> set hold \<Longrightarrow> \<exists>c'. r' = Some c' \<and> cl_State c' = Held"
  using assms by (auto simp: txMoved_def split: if_splits)

lemma tx_ok:
  assumes ok: "world_ok kind w" and m: "\<And>key. txMoved hold release key (row w key) (map_of tbl key)"
  shows "world_ok kind (w\<lparr>cw_table := tbl, cw_refs := hold @ filter (\<lambda>k. k \<notin> set release) (cw_refs w)\<rparr>)" (is "world_ok _ ?w")
proof -
  note f = txMoved_facts[OF m]
  have l: "liveCopy ?w t cp = liveCopy w t cp" for t cp by (simp add: liveCopy_def)
  have used: "key \<in> set (cw_used w)" if "map_of tbl key = Some c" for key c using f(2)[OF that] world_okD(1)[OF ok] by blast
  have "\<not> staging key" if "key \<in> set hold" for key using f(4)[OF that] used world_okD(8)[OF ok] by blast
  moreover have "\<exists>c. map_of tbl key = Some c \<and> cl_State c = Held"
    if "key \<in> set (cw_refs w)" "key \<notin> set release" "key \<in> set (cw_used w)" for key
    using world_okD(3)[OF ok that(1,3)] f(3)[of key] that(2) by blast
  moreover have "\<exists>c. map_of tbl (cp_dst cp) = Some c \<and> cl_Publication c = t" if "liveCopy w t cp" for t cp
    using world_okD(5)[OF ok that] f(1)[of "cp_dst cp"] f(2)[of "cp_dst cp"] by (cases "map_of tbl (cp_dst cp)") auto
  moreover have "cl_Publication c = ''''" if "map_of tbl key = Some c" "cl_State c = Pending" for key c
    using f(2)[OF that(1)] that(2) world_okD(2)[OF ok] by metis
  ultimately show ?thesis using ok used f(1,4) unfolding world_ok_def l by (auto simp: list_all_iff)
qed

lemma tx_fact:
  assumes "\<And>key. txMoved hold release key (row w key) (map_of tbl key)" "holds kind w j f"
  shows "holds kind (w\<lparr>cw_table := tbl, cw_refs := refs\<rparr>) j f"
proof -
  note m = txMoved_facts[OF assms(1)]
  show ?thesis
  proof (cases f)
    case (Tomb key c)
    with assms(2) m(1)[of key] m(2)[of key] show ?thesis by (cases "map_of tbl key") (auto simp: doomed_def)
  next
    case (Clean key)
    with assms(2) m(2)[of key] show ?thesis by (cases "map_of tbl key") (fastforce simp: overLease_def)+
  next
    case (Leased key d)
    with assms(2) m(1)[of key] m(2)[of key] show ?thesis by (cases "map_of tbl key") auto
  next
    case (Flow key q)
    with assms(2) m(1)[of key] m(2)[of key] show ?thesis by (cases "map_of tbl key") auto
  qed (use assms(2) in auto)
qed

lemma tx_sound:
  assumes ok: "world_ok kind w" and known: "\<And>f. f \<in> F \<Longrightarrow> holds kind w i f" and d: "set hold \<inter> set release = {}"
    and p: "perform i w (ATx hold release fnErr) = (r, w')"
  shows "sound kind F i w (ATx hold release fnErr) r w'"
proof (cases "txUpdate (cw_table w) hold release fnErr (cw_now w)")
  case (Inl e)
  then have "w' = w" using p by auto
  then show ?thesis using ok known by (auto intro!: sound_same simp: act_rules)
next
  case (Inr x)
  then obtain rel tbl where t: "txUpdate (cw_table w) hold release fnErr (cw_now w) = Inr (rel, tbl)" by (cases x) auto
  have w': "w' = w\<lparr>cw_table := tbl, cw_refs := hold @ filter (\<lambda>k. k \<notin> set release) (cw_refs w)\<rparr>" using p t by auto
  note m = txUpdate_row[OF t d]
  show ?thesis unfolding w' using tx_ok[OF ok m] tx_fact[OF m] known by (intro soundI) (auto simp: act_rules)
qed

lemma put_sound:
  assumes ok: "world_ok kind w" and known: "\<And>f. f \<in> F \<Longrightarrow> holds kind w i f" and n: "needs kind F (APut key d ifAbsent)"
    and p: "perform i w (APut key d ifAbsent) = (r, w')"
  shows "sound kind F i w (APut key d ifAbsent) r w'"
proof (cases "w' = w")
  case True
  then show ?thesis using ok known by (auto intro!: sound_same simp: act_rules)
next
  case False
  then have w': "w' = addObject key w" "cw_now w < d" using p by (auto split: if_splits)
  have "staging key \<or> (\<exists>c. row w key = Some c \<and> cw_now w < cl_LeaseUntil c)"
    using n known[of "Leased key d"] w'(2) by (auto simp: needs_def split: option.splits)
  then have "key \<in> set (cw_used w) \<Longrightarrow> row w key \<noteq> None \<and> \<not> overLease kind w key"
    using world_okD(8)[OF ok] by (auto simp: overLease_def LeaseMargin_def)
  then show ?thesis unfolding w' using addObject_ok[OF ok] addObject_fact known by (intro soundI) (auto simp: act_rules)
qed

lemma delete_sound:
  assumes ok: "world_ok kind w" and known: "\<And>f. f \<in> F \<Longrightarrow> holds kind w i f"
    and p: "perform i w (ADelete key) = (r, w')"
  shows "sound kind F i w (ADelete key) r w'"
proof -
  have w': "w' = w\<lparr>cw_objects := removeAll key (cw_objects w)\<rparr>" using p by simp
  have "holds kind w' i (Clean key)" if "ready kind F key"
  proof -
    from that obtain c t where r: "Tomb key c \<in> F" "Past t \<in> F" "cl_LeaseUntil c + LeaseMargin \<le> t"
      "kind = Publisher \<longrightarrow> cl_Publication c = '''' \<or> Fenced (cl_Publication c) \<in> F" by (auto simp: ready_def)
    from known[OF r(1)] known[OF r(2)] r(3,4) known[of "Fenced (cl_Publication c)"] show ?thesis
      unfolding w' by (auto simp: doomed_def overLease_def)
  qed
  then show ?thesis unfolding w' using dropObject_ok[OF ok] dropObject_fact known
    by (intro soundI) (auto simp: act_rules split: if_splits)
qed

lemma publish_sound:
  assumes ok: "world_ok kind w" and known: "\<And>f. f \<in> F \<Longrightarrow> holds kind w i f" and n: "needs kind F (APublish t)"
  shows "sound kind F i w (APublish t) r (requestCopy t w)"
    and "sound kind F i w (APublish t) r (publishCopy t (requestCopy t w))"
proof -
  obtain key where k: "Flow key t \<in> F" "CopyTo t key \<in> F" "t \<noteq> ''''" using n by (auto simp: needs_def)
  note r = requestCopy_ok[OF ok known[OF k(1)] known[OF k(2)] k(3)]
  show "sound kind F i w (APublish t) r (requestCopy t w)"
    using r requestCopy_fact known by (intro soundI) (auto simp: act_rules)
  show "sound kind F i w (APublish t) r (publishCopy t (requestCopy t w))"
    using publishCopy_step[OF r] requestCopy_fact known by (intro soundI) (auto simp: act_rules)
qed

lemma prepare_sound:
  assumes ok: "world_ok kind w" and known: "\<And>f. f \<in> F \<Longrightarrow> holds kind w i f" and k: "kind = Publisher"
    and p: "perform i w (APrepare src dst) = (r, w')"
  shows "sound kind F i w (APrepare src dst) r w'"
proof (cases "src \<in> set (cw_objects w)")
  case True
  then have w': "r = AnsToken (freshToken w)"
      "w' = w\<lparr>cw_copies := AList.update (freshToken w) \<lparr>cp_dst = dst, cp_requested = False\<rparr> (cw_copies w)\<rparr>"
    using p by (auto simp: Let_def)
  show ?thesis unfolding w' using prepare_ok[of w dst] ok prepare_fact[of kind w _ _ dst] known freshToken_new(3)[of w] k
    by (intro soundI) (auto simp: act_rules)
next
  case False
  then have "r = AnsErr" "w' = w" using p by auto
  then show ?thesis using ok known by (auto intro!: sound_same simp: act_rules)
qed

lemma forget_sound:
  assumes ok: "world_ok kind w" and known: "\<And>f. f \<in> F \<Longrightarrow> holds kind w i f" and n: "needs kind F (AForget key)"
  shows "sound kind F i w (AForget key) r (w\<lparr>cw_table := stmtForget (cw_table w) key\<rparr>)"
proof -
  have c: "holds kind w i (Clean key)" using n by (intro known) (simp add: needs_def)
  show ?thesis using forget_ok[OF ok c] forget_fact[OF c] known by (intro soundI) (auto simp: act_rules)
qed

lemma read_sound:
  assumes ok: "world_ok kind w" and known: "\<And>f. f \<in> F \<Longrightarrow> holds kind w i f"
    and a: "a \<in> {ALookup key, AFindDeleting key, APluck q after limit, ATake key, ACtx, ANow, AListStaging, AOpen key}"
    and p: "perform i w a = (r, w')"
  shows "sound kind F i w a r w'"
proof -
  have w': "w' = w" using a p by auto
  show ?thesis unfolding w' using a p known world_okD(1)[OF ok]
    by (intro sound_same[OF ok]) (auto simp: act_rules findIn_def doomed_def staging_def list_all_iff split: option.splits if_splits)
qed

lemma perform_sound:
  assumes ok: "world_ok kind w" and known: "\<And>f. f \<in> F \<Longrightarrow> holds kind w i f" and n: "needs kind F a"
    and fresh: "freshKeys w a" and p: "perform i w a = (r, w')"
  shows "sound kind F i w a r w'"
proof (cases a)
  case (AFence t)
  then have w': "w' = fenceCopy t w" using p by simp
  show ?thesis unfolding w' AFence using fenceCopy_ok[OF ok] fenceCopy_fact known
    by (intro soundI) (auto simp: act_rules fenceCopy_def split: if_splits)
next
  case (ATransition key states to unstaged)
  then show ?thesis using n transition_sound[OF ok known] p by (simp add: needs_def)
next
  case (AForget key)
  then show ?thesis using n p forget_sound[OF ok known, of F key r] by auto
next
  case (APublish t)
  then show ?thesis using n p publish_sound(2)[OF ok known, of F t r] by auto
next
  case (APublishing key token)
  then show ?thesis using n p publishing_sound[OF ok known] by (auto simp: needs_def)
next
  case (ATx hold release e)
  then show ?thesis using n p tx_sound[OF ok known] by (auto simp: needs_def)
next
  case (APrepare src dst)
  then show ?thesis using n p prepare_sound[OF ok known] by (auto simp: needs_def)
next
  case (AInsert key scope until staged)
  then show ?thesis using p fresh by (auto intro!: insert_sound[OF ok known])
next
  case (APromote key scope until)
  then show ?thesis using p by (auto intro!: promote_sound[OF ok known])
next
  case (AUnpromote key)
  then show ?thesis using p n by (auto intro!: unpromote_sound[OF ok known])
next
  case (ADelete key)
  then show ?thesis using p by (auto intro!: delete_sound[OF ok known])
next
  case (APut key d ifAbsent)
  then show ?thesis using p n by (auto simp del: perform.simps intro!: put_sound[OF ok known])
qed (rule read_sound[OF ok known _ p]; simp)+

text \<open>Failures, with or without the effect.\<close>

lemma gives_err: "r \<in> {AnsErr, AnsUnknown} \<Longrightarrow> gives kind F a r \<subseteq> F \<inter> gives kind F a r'"
  by (auto simp: act_rules dropFlow_def split: claim_act.splits)

lemma answers_err: "r \<in> {AnsErr, AnsUnknown} \<Longrightarrow> a \<noteq> ANow \<Longrightarrow> answers a r"
  by (auto simp: answers_def split: claim_act.splits)

lemma acts_sound:
  assumes "acts i w a r w'" and ok: "world_ok kind w" and known: "\<And>f. f \<in> F \<Longrightarrow> holds kind w i f" and n: "needs kind F a"
  shows "sound kind F i w a r w'"
  using assms(1)
proof cases
  case succeeds
  then show ?thesis using perform_sound[OF ok known n] by blast
next
  case fails
  then show ?thesis using ok known gives_err[of r kind F a r] answers_err[of r a] by (auto simp: sound_def)
next
  case (answer_lost r')
  with perform_sound[OF ok known n this(1,2)] show ?thesis using gives_err[of r kind F a r'] answers_err[of r a] by (auto simp: sound_def)
next
  case (prepared_with_error src dst t)
  with perform_sound[OF ok known n] have "sound kind F i w a (AnsToken t) w'" by (simp add: freshKeys_def)
  with prepared_with_error show ?thesis by (auto simp: sound_def act_rules)
next
  case (publish_later t)
  then show ?thesis using publish_sound(1)[OF ok known, of F t r] n by blast
qed

subsection \<open>Every reachable configuration\<close>

text \<open>Each process is safe from facts that hold.\<close>

definition cfg_ok :: "store_kind \<Rightarrow> claims_world \<times> unit proc list \<Rightarrow> bool" where
  "cfg_ok kind c \<longleftrightarrow> (case c of (w, ps) \<Rightarrow> world_ok kind w \<and>
     (\<forall>i < length ps. \<exists>F. safe kind F (ps ! i) \<and> (\<forall>f \<in> F. holds kind w i f)))"

lemma cfg_okI:
  assumes "world_ok kind w'" "cfg_ok kind (w, ps)" "\<And>j f. holds kind w j f \<Longrightarrow> holds kind w' j f"
  shows "cfg_ok kind (w', ps)"
  using assms unfolding cfg_ok_def by blast

lemma cfg_ok_action:
  assumes c: "cfg_ok kind (w, ps)" and i: "i < length ps" "ps ! i = Act a k" and a: "acts i w a r w'"
  shows "cfg_ok kind (w', ps[i := k r])"
proof -
  from c have ok: "world_ok kind w" by (simp add: cfg_ok_def)
  from c i obtain F where F: "safe kind F (Act a k)" "\<And>f. f \<in> F \<Longrightarrow> holds kind w i f" by (fastforce simp: cfg_ok_def)
  have s: "sound kind F i w a r w'" using acts_sound[OF a ok F(2)] F(1) by simp
  have "\<exists>F. safe kind F (ps[i := k r] ! j) \<and> (\<forall>f \<in> F. holds kind w' j f)" if "j < length ps" for j
  proof (cases "j = i")
    case True
    with s F(1) i(1) show ?thesis by (auto simp: sound_def)
  next
    case False
    with that c s show ?thesis by (fastforce simp: cfg_ok_def sound_def)
  qed
  with s show ?thesis by (auto simp: cfg_ok_def sound_def)
qed

lemma cfg_ok_call:
  assumes "cfg_ok kind (w, ps)" "p \<in> calls kind"
  shows "cfg_ok kind (w, ps @ [p])"
proof -
  have "\<exists>F. safe kind F ((ps @ [p]) ! j) \<and> (\<forall>f \<in> F. holds kind w j f)" if "j < length (ps @ [p])" for j
    using that assms(1) calls_safe[OF assms(2)] by (cases "j < length ps") (auto simp: cfg_ok_def nth_append intro: exI[of _ "{}"])
  with assms(1) show ?thesis by (auto simp: cfg_ok_def)
qed

lemma cfg_ok_step: "sys_step kind c c' \<Longrightarrow> cfg_ok kind c \<Longrightarrow> cfg_ok kind c'"
proof (induction rule: sys_step.induct)
  case (action i ps a k w r w')
  then show ?case by (blast intro: cfg_ok_action)
next
  case (call p w ps)
  then show ?case by (blast intro: cfg_ok_call)
next
  case (clock w t ps)
  then show ?case using cfg_okI[OF clock_ok _ clock_fact] by (auto simp: cfg_ok_def)
next
  case (late_copy w ps t)
  then have "world_ok kind w" by (simp add: cfg_ok_def)
  from cfg_okI[OF publishCopy_step(1)[OF this] late_copy publishCopy_step(2)[OF this]] show ?case .
next
  case (staged_put key w ps)
  then have ok: "world_ok kind w" by (simp add: cfg_ok_def)
  with staged_put.hyps have "key \<notin> set (cw_used w)" using world_okD(8) by blast
  then show ?case using cfg_okI[OF addObject_ok[OF ok] staged_put.prems addObject_fact] by blast
next
  case (other_object key w ps)
  then have ok: "world_ok kind w" by (simp add: cfg_ok_def)
  show ?case using cfg_okI[OF addObject_ok[OF ok] other_object.prems addObject_fact] other_object.hyps by blast
qed

lemma sys_reachable_ok: "sys_reachable kind c \<Longrightarrow> cfg_ok kind c"
proof (induction rule: sys_reachable.induct)
  case (start refs objs now)
  then show ?case by (simp add: cfg_ok_def world_ok_def liveCopy_def)
qed (rule cfg_ok_step)

text \<open>No action but a deletion removes an object.\<close>

lemma perform_objects:
  assumes "perform i w a = (r, w')" "key \<in> set (cw_objects w)" "key \<notin> set (cw_objects w')"
  shows "a = ADelete key"
  using assms by (cases a) (auto simp: rowsAns_def addObject_def fenceCopy_def publishCopy_def requestCopy_def Let_def
      split: if_splits sum.splits option.splits)

lemma acts_objects: "acts i w a r w' \<Longrightarrow> key \<in> set (cw_objects w) \<Longrightarrow> key \<notin> set (cw_objects w') \<Longrightarrow> a = ADelete key"
  by (erule acts.cases) (auto dest: perform_objects simp: requestCopy_def Let_def split: option.splits if_splits)

lemma delete_only_dead:
  assumes "cfg_ok kind (w, ps)" "i < length ps" "ps ! i = Act (ADelete key) k"
  shows "key \<notin> set (cw_refs w)"
proof -
  from assms(1) have ok: "world_ok kind w" by (simp add: cfg_ok_def)
  from assms obtain F where F: "needs kind F (ADelete key)" "\<And>f. f \<in> F \<Longrightarrow> holds kind w i f" by (fastforce simp: cfg_ok_def)
  from F(1) consider "staging key" | c where "Tomb key c \<in> F" by (auto simp: needs_def)
  then show ?thesis
  proof cases
    case 1
    then show ?thesis using world_okD(9)[OF ok] by blast
  next
    case (2 c)
    with F(2)[OF 2] world_okD(3)[OF ok, of key] show ?thesis by (auto simp: doomed_def)
  qed
qed

subsection \<open>Runs\<close>

text \<open>A schedule: each entry lets a process take one action, which succeeds. \<open>None\<close> when the
  process has none left or the key is not fresh.\<close>

fun schedule :: "nat list \<Rightarrow> claims_world \<times> unit proc list \<Rightarrow> (claims_world \<times> unit proc list) option" where
  "schedule [] c = Some c"
| "schedule (i # is) (w, ps) = (if i < length ps then (case ps ! i of
       Return _ \<Rightarrow> None
     | Act a k \<Rightarrow> if freshKeys w a then (let (r, w') = perform i w a in schedule is (w', ps[i := k r])) else None)
     else None)"

lemma schedule_reachable: "sys_reachable kind c \<Longrightarrow> schedule is c = Some c' \<Longrightarrow> sys_reachable kind c'"
proof (induction "is" c rule: schedule.induct)
  case (2 i "is" w ps)
  from "2.prems"(2) obtain a k where a: "i < length ps" "ps ! i = Act a k" "freshKeys w a"
    by (auto split: if_splits proc.splits)
  obtain r w' where p: "perform i w a = (r, w')" by fastforce
  have "sys_step kind (w, ps) (w', ps[i := k r])" using a p by (intro sys_step.action acts.succeeds)
  with "2.IH"[OF a p[symmetric] refl] "2.prems" a p show ?case by (simp add: sys_reachable.step)
qed simp

definition emptyWorld :: "gotime \<Rightarrow> claims_world" where
  "emptyWorld now = \<lparr>cw_table = [], cw_objects = [], cw_refs = [], cw_now = now, cw_copies = [], cw_fenced = [],
     cw_used = [], cw_owner = []\<rparr>"

lemma calls_reachable:
  assumes "set ps \<subseteq> calls kind"
  shows "sys_reachable kind (emptyWorld now, ps)"
  using assms
proof (induction ps rule: rev_induct)
  case Nil
  show ?case unfolding emptyWorld_def by (rule sys_reachable.start) simp
next
  case (snoc p ps)
  then show ?case by (auto intro: sys_reachable.step sys_step.call)
qed

text \<open>C3: no file a record refers to is ever deleted. Whatever the processes have done so far, however
  their actions interleaved and failed, a step of the system leaves every object whose key the
  application's records refer to in place.\<close>

theorem referenced_file_kept:
  assumes "sys_reachable kind (w, ps)" "sys_step kind (w, ps) (w', ps')"
    and "key \<in> set (cw_refs w)" "key \<in> set (cw_objects w)"
  shows "key \<in> set (cw_objects w')"
  using assms(2)
proof cases
  case (action i a k r)
  show ?thesis
  proof (rule ccontr)
    assume "\<not> ?thesis"
    with acts_objects action(4) assms(4) have "a = ADelete key" by blast
    with delete_only_dead[OF sys_reachable_ok[OF assms(1)]] action(2,3) assms(3) show False by blast
  qed
next
  case (late_copy t)
  then show ?thesis using assms(4) by (auto simp: publishCopy_def addObject_def split: option.splits)
qed (use assms(4) in \<open>auto simp: addObject_def\<close>)

text \<open>C7: a claim is forgotten only when nothing is left behind. A key that was claimed and whose claim
  is gone holds no object, and no write, copy or client of an earlier attempt puts one there later,
  since the same holds of every configuration the system goes on to.\<close>

theorem forgotten_key_empty:
  assumes "sys_reachable kind (w, ps)" "key \<in> set (cw_used w)" "map_of (cw_table w) key = None"
  shows "key \<notin> set (cw_objects w)"
  using sys_reachable_ok[OF assms(1)] world_okD(4)[of kind w key] assms(2,3) by (simp add: cfg_ok_def)

lemma schedule_step: "schedule [i] (w, ps) = Some c' \<Longrightarrow> sys_step kind (w, ps) c'"
  by (auto split: if_splits proc.splits prod.splits intro!: sys_step.action acts.succeeds)

text \<open>An upload is saved under a key and a record takes it. A sweeper that meets the key leaves it; a
  deletion of the record then removes the object and the claim.\<close>

definition saved :: "store_kind \<Rightarrow> claims_world \<times> unit proc list" where
  "saved kind = (emptyWorld 0,
     [bindP (save kind ''k'' ''s'' 10 0) (\<lambda>_. Return ()),
      bindP (claims_Update kind [''k''] [] None) (\<lambda>_. Return ()),
      bindP (Abandon kind ''k'') (\<lambda>_. Return ()),
      bindP (claims_Update kind [] [''k''] None) (\<lambda>_. Return ())])"

lemma saved_reachable: "sys_reachable kind (saved kind)"
  unfolding saved_def by (rule calls_reachable) (simp add: calls.intros)

theorem referenced_file_kept_witness:
  "\<exists>w ps w' ps'. schedule [0, 0, 1] (saved BoundedWriter) = Some (w, ps) \<and> sys_step BoundedWriter (w, ps) (w', ps') \<and>
     ''k'' \<in> set (cw_refs w) \<and> ''k'' \<in> set (cw_objects w) \<and> ''k'' \<in> set (cw_objects w')"
proof -
  have 1: "case schedule [0, 0, 1] (saved BoundedWriter) of None \<Rightarrow> False | Some (w, ps) \<Rightarrow>
      ''k'' \<in> set (cw_refs w) \<and> ''k'' \<in> set (cw_objects w) \<and> schedule [2] (w, ps) \<noteq> None"
    by code_simp
  then obtain w ps where w: "schedule [0, 0, 1] (saved BoundedWriter) = Some (w, ps)"
    by (auto split: option.splits)
  with 1 have k: "''k'' \<in> set (cw_refs w)" "''k'' \<in> set (cw_objects w)" "schedule [2] (w, ps) \<noteq> None" by auto
  then obtain w' ps' where s: "schedule [2] (w, ps) = Some (w', ps')" by (cases "schedule [2] (w, ps)") auto
  show ?thesis
    using referenced_file_kept[OF schedule_reachable[OF saved_reachable w] schedule_step[OF s] k(1,2)] w k(1,2) schedule_step[OF s]
    by blast
qed


theorem forgotten_key_empty_witness:
  "\<exists>w ps w' ps'. schedule [0, 0, 1] (saved BoundedWriter) = Some (w, ps) \<and> ''k'' \<in> set (cw_objects w) \<and>
     schedule [3, 3, 3, 3, 3] (w\<lparr>cw_now := 10 + LeaseMargin\<rparr>, ps) = Some (w', ps') \<and>
     ''k'' \<in> set (cw_used w') \<and> map_of (cw_table w') ''k'' = None \<and> ''k'' \<notin> set (cw_objects w')"
proof -
  have 1: "case schedule [0, 0, 1] (saved BoundedWriter) of None \<Rightarrow> False | Some (w, ps) \<Rightarrow>
      cw_now w \<le> 10 + LeaseMargin \<and> ''k'' \<in> set (cw_objects w) \<and>
      (case schedule [3, 3, 3, 3, 3] (w\<lparr>cw_now := 10 + LeaseMargin\<rparr>, ps) of None \<Rightarrow> False | Some (w', ps') \<Rightarrow>
         ''k'' \<in> set (cw_used w') \<and> map_of (cw_table w') ''k'' = None)"
    by code_simp
  then obtain w ps where w: "schedule [0, 0, 1] (saved BoundedWriter) = Some (w, ps)"
    by (auto split: option.splits)
  let ?c = "(w\<lparr>cw_now := 10 + LeaseMargin\<rparr>, ps)"
  from 1 w obtain w' ps' where k: "schedule [3, 3, 3, 3, 3] ?c = Some (w', ps')" "cw_now w \<le> 10 + LeaseMargin"
      "''k'' \<in> set (cw_objects w)" "''k'' \<in> set (cw_used w')" "map_of (cw_table w') ''k'' = None"
    by (cases "schedule [3, 3, 3, 3, 3] ?c") auto
  have "sys_reachable BoundedWriter (w', ps')"
    using schedule_reachable[OF saved_reachable w] sys_step.clock[OF k(2)] schedule_reachable[OF _ k(1)] sys_reachable.step by blast
  from forgotten_key_empty[OF this k(4,5)] w k show ?thesis by blast
qed

end
