(* ===== verification/Claims_Sweep.thy ===== *)
theory Claims_Sweep
  imports Claims_Protocol
begin

section \<open>Ownership of stored files: what a sweep achieves\<close>

text \<open>
  A sweep that runs undisturbed: \<open>eachKey\<close> pages through the table by key, and the claims it has
  visited change under it, so that its termination rests on the cursor. With a bound of more than one
  batch per five hundred claims it visits exactly the keys a single query would have listed
  (\<open>eachKey_runs\<close>), and \<open>Sweep\<close> leaves the table and the store in the state \<open>sweptRow\<close> describes.
\<close>

subsection \<open>Undisturbed runs\<close>

primrec runP :: "nat \<Rightarrow> 'a proc \<Rightarrow> claims_world \<Rightarrow> 'a \<times> claims_world" where
  "runP i (Return x) w = (x, w)"
| "runP i (Act a k) w = (case perform i w a of (r, w') \<Rightarrow> runP i (k r) w')"

lemma runP_bind [simp]: "runP i (bindP p f) w = (case runP i p w of (x, w') \<Rightarrow> runP i (f x) w')"
  by (induction p arbitrary: w) (auto split: prod.split)

abbreviation distinctKeys :: "claims_world \<Rightarrow> bool" where
  "distinctKeys w \<equiv> distinct (map fst (cw_table w))"

text \<open>A step of the sweep at a key: what becomes of its row (\<open>g\<close>) and which objects go (\<open>del\<close>).\<close>

definition effect :: "(Claim \<Rightarrow> Claim option) \<Rightarrow> (string \<Rightarrow> Claim \<Rightarrow> string set) \<Rightarrow> string set \<Rightarrow> claims_world \<Rightarrow> claims_world \<Rightarrow> bool" where
  "effect g del keys w w' \<longleftrightarrow> (distinctKeys w \<longrightarrow> distinctKeys w') \<and> cw_now w' = cw_now w \<and> cw_refs w' = cw_refs w \<and>
     (\<forall>k. map_of (cw_table w') k = (if k \<in> keys then Option.bind (map_of (cw_table w) k) g else map_of (cw_table w) k)) \<and>
     set (cw_objects w') = set (cw_objects w) - {x. \<exists>k \<in> keys. \<exists>c. map_of (cw_table w) k = Some c \<and> x \<in> del k c}"

lemma effect_none: "effect g del {} w w"
  by (simp add: effect_def)

lemma effect_dom:
  assumes "effect g del keys w w'"
  shows "dom (map_of (cw_table w')) \<subseteq> dom (map_of (cw_table w))"
proof
  fix k assume "k \<in> dom (map_of (cw_table w'))"
  moreover have "map_of (cw_table w') k = (if k \<in> keys then Option.bind (map_of (cw_table w) k) g else map_of (cw_table w) k)"
    using assms by (simp add: effect_def)
  ultimately show "k \<in> dom (map_of (cw_table w))" by (cases "map_of (cw_table w) k") (auto split: if_splits)
qed

lemma effect_trans:
  assumes "effect g del A w w1" "effect g del B w1 w2" "A \<inter> B = {}"
  shows "effect g del (A \<union> B) w w2"
proof -
  have r: "map_of (cw_table w1) k = map_of (cw_table w) k" if "k \<in> B" for k using that assms(1,3) by (auto simp: effect_def)
  then have "{x. \<exists>k \<in> B. \<exists>c. map_of (cw_table w1) k = Some c \<and> x \<in> del k c} = {x. \<exists>k \<in> B. \<exists>c. map_of (cw_table w) k = Some c \<and> x \<in> del k c}"
    by auto
  with assms r show ?thesis unfolding effect_def by (auto simp: Diff_Un)
qed

subsection \<open>Paging\<close>

definition sweepDue :: "claims_table \<Rightarrow> claim_query \<Rightarrow> string \<Rightarrow> string set" where
  "sweepDue tbl q after = {k. after < k \<and> (\<exists>c. map_of tbl k = Some c \<and> matchesQuery q c)}"

lemma finite_sweepDue [simp]: "finite (sweepDue tbl q after)"
  by (rule finite_subset[OF _ finite_dom_map_of[of tbl]]) (auto simp: sweepDue_def)

lemma pluckKeys_due:
  assumes "distinct (map fst tbl)"
  shows "pluckKeys tbl q after limit = take limit (sorted_list_of_set (sweepDue tbl q after))"
proof -
  let ?l = "filter (\<lambda>(k, c). matchesQuery q c \<and> after < k) tbl"
  have "set (map fst ?l) = sweepDue tbl q after"
    by (auto simp: sweepDue_def map_of_eq_Some_iff[OF assms] intro: rev_image_eqI)
  moreover have "distinct (map fst ?l)" using assms by (rule distinct_map_filter)
  ultimately have "sort (map fst ?l) = sorted_list_of_set (sweepDue tbl q after)"
    by (metis sorted_list_of_set_sort_remdups distinct_remdups_id)
  then show ?thesis by (simp add: pluckKeys_def)
qed

lemma due_card:
  assumes "dom (map_of tbl') \<subseteq> dom (map_of tbl)"
  shows "card (sweepDue tbl' q after) \<le> length tbl"
proof -
  have "sweepDue tbl' q after \<subseteq> fst ` set tbl" using assms unfolding dom_map_of_conv_image_fst[of tbl] by (auto simp: sweepDue_def)
  then have "card (sweepDue tbl' q after) \<le> card (fst ` set tbl)" by (rule card_mono[rotated]) simp
  also have "\<dots> \<le> length tbl" by (metis card_image_le card_length finite_set le_trans)
  finally show ?thesis .
qed

lemma last_greatest: "sorted (xs :: 'k :: linorder list) \<Longrightarrow> x \<in> set xs \<Longrightarrow> x \<le> last xs"
  by (induction xs) (auto dest: last_in_set)

lemma sorted_page:
  fixes L :: "'k :: linorder list"
  assumes "sorted L" "distinct L" "0 < b" "b \<le> length L"
  shows "{x \<in> set L. last (take b L) < x} = set (drop b L)"
proof -
  have "sorted_wrt (<) (take b L @ drop b L)" using assms(1,2) by (simp add: strict_sorted_iff)
  then have lt: "\<And>x y. x \<in> set (take b L) \<Longrightarrow> y \<in> set (drop b L) \<Longrightarrow> x < y" and s: "sorted (take b L)"
    unfolding sorted_wrt_append by (auto simp: strict_sorted_iff)
  have m: "last (take b L) \<in> set (take b L)" using assms(3,4) by (intro last_in_set) auto
  have "set L = set (take b L) \<union> set (drop b L)" by (metis append_take_drop_id set_append)
  with lt[OF m] last_greatest[OF s] show ?thesis by (fastforce simp: not_less[symmetric])
qed

lemma forKeys_append: "runP i (forKeys body (xs @ ys) s) w = (case runP i (forKeys body xs s) w of (s', w') \<Rightarrow> runP i (forKeys body ys s') w')"
  by (induction xs arbitrary: s w) (auto split: prod.split)

lemma forKeys_runs:
  assumes body: "\<And>k s w. good s \<Longrightarrow> \<exists>s' w'. runP i (body k s) w = (s', w') \<and> good s' \<and> effect (g (cw_now w)) del {k} w w'"
    and "distinct keys" "good s"
  shows "\<exists>s' w'. runP i (forKeys body keys s) w = (s', w') \<and> good s' \<and> effect (g (cw_now w)) del (set keys) w w'"
  using assms(2,3)
proof (induction keys arbitrary: s w)
  case Nil
  then show ?case by (simp add: effect_none)
next
  case (Cons k keys)
  from body[OF Cons.prems(2), of k w] obtain s1 w1
    where 1: "runP i (body k s) w = (s1, w1)" "good s1" "effect (g (cw_now w)) del {k} w w1" by blast
  then have n: "cw_now w1 = cw_now w" by (simp add: effect_def)
  from Cons.IH[OF _ 1(2), of w1] Cons.prems(1) obtain s2 w2
    where 2: "runP i (forKeys body keys s1) w1 = (s2, w2)" "good s2" "effect (g (cw_now w)) del (set keys) w1 w2" by (auto simp: n)
  from effect_trans[OF 1(3) 2(3)] Cons.prems(1) 1 2 show ?case by auto
qed

lemma due_after_page:
  assumes e: "effect g del (set keys) w w1" and keys: "keys = take b (sorted_list_of_set (sweepDue (cw_table w) q after))"
    and b: "0 < b" "length keys = b"
  shows "sweepDue (cw_table w1) q (last keys) = set (drop b (sorted_list_of_set (sweepDue (cw_table w) q after)))"
proof -
  let ?L = "sorted_list_of_set (sweepDue (cw_table w) q after)"
  have p: "{x \<in> set ?L. last keys < x} = set (drop b ?L)" unfolding keys by (rule sorted_page) (use b keys in auto)
  have "last keys \<in> set keys" using b by (intro last_in_set) auto
  then have "last keys \<in> sweepDue (cw_table w) q after" using set_take_subset[of b ?L] keys by auto
  then have l: "after < last keys" by (simp add: sweepDue_def)
  have "\<not> last keys < k" if "k \<in> set keys" for k
    using last_greatest[of keys k] that unfolding keys by (simp add: sorted_wrt_take not_less)
  then have "map_of (cw_table w1) k = map_of (cw_table w) k" if "last keys < k" for k using e that by (auto simp: effect_def)
  then have "sweepDue (cw_table w1) q (last keys) = {x \<in> sweepDue (cw_table w) q after. last keys < x}"
    using l by (auto simp: sweepDue_def)
  with p show ?thesis by simp
qed

lemma eachKey_runs:
  assumes body: "\<And>k s w. good s \<Longrightarrow> \<exists>s' w'. runP i (body k s) w = (s', w') \<and> good s' \<and> effect (g (cw_now w)) del {k} w w'"
    and b: "0 < batch"
    and "distinctKeys w" "good s" "card (sweepDue (cw_table w) q after) < n * batch"
  shows "\<exists>s' w'. runP i (eachKey n batch q after body s) w = (Some (None, s'), w') \<and> good s' \<and>
    effect (g (cw_now w)) del (sweepDue (cw_table w) q after) w w'"
  using assms(3-5)
proof (induction n arbitrary: after s w)
  case (Suc n)
  let ?L = "sorted_list_of_set (sweepDue (cw_table w) q after)" let ?keys = "take batch ?L"
  have pl: "pluckKeys (cw_table w) q after batch = ?keys" using pluckKeys_due[OF Suc.prems(1)] .
  obtain s1 w1 where 1: "runP i (forKeys body ?keys s) w = (s1, w1)" "good s1" "effect (g (cw_now w)) del (set ?keys) w w1"
    using forKeys_runs[where body = body and keys = ?keys and w = w and g = g, OF body _ Suc.prems(2)] by fastforce
  show ?case
  proof (cases "length ?keys < batch")
    case True
    then have "set ?keys = sweepDue (cw_table w) q after" by simp
    with 1 True pl show ?thesis by auto
  next
    case False
    then have len: "length ?keys = batch" by simp
    note due = due_after_page[OF 1(3) refl b len]
    have w1: "distinctKeys w1" "cw_now w1 = cw_now w" using 1(3) Suc.prems(1) by (auto simp: effect_def)
    have "card (set (drop batch ?L)) < n * batch" using Suc.prems(3) len by (simp add: distinct_card)
    from Suc.IH[OF w1(1) 1(2), of "last ?keys"] this due w1(2) obtain s2 w2 where
      2: "runP i (eachKey n batch q (last ?keys) body s1) w1 = (Some (None, s2), w2)" "good s2"
        "effect (g (cw_now w)) del (set (drop batch ?L)) w1 w2" by auto
    have "set ?keys \<inter> set (drop batch ?L) = {}" by (simp add: set_take_disj_set_drop_if_distinct)
    moreover have "set ?keys \<union> set (drop batch ?L) = sweepDue (cw_table w) q after"
      by (metis append_take_drop_id set_append set_sorted_list_of_set finite_sweepDue)
    ultimately have "effect (g (cw_now w)) del (sweepDue (cw_table w) q after) w w2" using effect_trans[OF 1(3) 2(3)] by simp
    with 1 2 False pl show ?thesis by auto
  qed
qed simp

subsection \<open>Sweep\<close>

definition leaseOver :: "gotime \<Rightarrow> Claim \<Rightarrow> bool" where
  "leaseOver now c \<longleftrightarrow> cl_LeaseUntil c + LeaseMargin \<le> now"

definition ownObjects :: "string \<Rightarrow> Claim \<Rightarrow> string set" where
  "ownObjects key c = (if cl_Staged c then {key, StagingKey key} else {key})"

definition finishRow :: "gotime \<Rightarrow> Claim \<Rightarrow> Claim option" where
  "finishRow now c = (if cl_State c = Deleting \<and> leaseOver now c then None else Some c)"

definition finishObjects :: "string \<Rightarrow> Claim \<Rightarrow> string set" where
  "finishObjects key c = (if cl_State c = Deleting then ownObjects key c else {})"

definition abandonRow :: "gotime \<Rightarrow> Claim \<Rightarrow> Claim option" where
  "abandonRow now c = (if cl_State c \<in> {Pending, Promoting} then finishRow now (c\<lparr>cl_State := Deleting, cl_UpdatedAt := now\<rparr>) else Some c)"

definition abandonObjects :: "string \<Rightarrow> Claim \<Rightarrow> string set" where
  "abandonObjects key c = (if cl_State c \<in> {Pending, Promoting} then ownObjects key c else {})"

lemma Finish_runs:
  assumes "kind \<noteq> OtherStore"
  shows "\<exists>b w'. runP i (Finish kind key) w = ((b, None), w') \<and> effect (finishRow (cw_now w)) finishObjects {key} w w'"
proof (cases "\<exists>c. map_of (cw_table w) key = Some c \<and> cl_State c = Deleting")
  case False
  then have "findIn (cw_table w) key [Deleting] = []" by (auto simp: findIn_def split: option.split)
  with False show ?thesis
    by (cases "map_of (cw_table w) key") (auto simp: Finish_def effect_def finishRow_def finishObjects_def)
next
  case True
  then obtain c where c: "map_of (cw_table w) key = Some c" "cl_State c = Deleting" by blast
  then show ?thesis using assms
    by (cases kind; cases "cl_Publication c = ''''"; cases "cl_Staged c"; cases "leaseOver (cw_now w) c")
      (auto simp: Finish_def findIn_def Let_def storageFence_def CheckOwnable_def finishDelete_def finishForget_def fenceCopy_def
        stmtForget_def leaseOver_def not_less effect_def finishRow_def finishObjects_def ownObjects_def distinct_delete
        bind_eq_Some_conv split: if_splits)
qed

lemma Abandon_runs:
  assumes "kind \<noteq> OtherStore"
  shows "\<exists>b w'. runP i (Abandon kind key) w = ((b, None), w') \<and> effect (abandonRow (cw_now w)) abandonObjects {key} w w'"
proof (cases "\<exists>c. map_of (cw_table w) key = Some c \<and> cl_State c \<in> {Pending, Promoting}")
  case False
  then have "stmtTransition (cw_table w) key [Pending, Promoting] Deleting False (cw_now w) = (0, cw_table w)"
    by (auto simp: stmtTransition_def updateWhere_def split: option.split)
  with False show ?thesis
    by (cases "map_of (cw_table w) key")
      (auto simp: Abandon_def transition_def rowsAns_def effect_def abandonRow_def abandonObjects_def)
next
  case True
  then obtain c where c: "map_of (cw_table w) key = Some c" "cl_State c \<in> {Pending, Promoting}" by blast
  let ?c = "c\<lparr>cl_State := Deleting, cl_UpdatedAt := cw_now w\<rparr>"
  let ?w = "w\<lparr>cw_table := AList.update key ?c (cw_table w)\<rparr>"
  have t: "stmtTransition (cw_table w) key [Pending, Promoting] Deleting False (cw_now w) = (1, cw_table ?w)"
    using c by (auto simp: stmtTransition_def updateWhere_def)
  obtain b w' where f: "runP i (Finish kind key) ?w = ((b, None), w')" "effect (finishRow (cw_now ?w)) finishObjects {key} ?w w'"
    using Finish_runs[OF assms] by blast
  have "effect (abandonRow (cw_now w)) abandonObjects {key} w w'"
    using f(2) c by (auto simp: effect_def abandonRow_def abandonObjects_def finishObjects_def ownObjects_def distinct_update)
  moreover have "runP i (Abandon kind key) w = ((True, None), w')"
    using f(1) t by (simp add: Abandon_def transition_def rowsAns_def)
  ultimately show ?thesis by blast
qed

definition noFailure :: "SweepResult \<times> claim_error list \<Rightarrow> bool" where
  "noFailure s \<longleftrightarrow> sw_Failed (fst s) = 0 \<and> snd s = []"

lemma sweepAbandon_runs:
  assumes "kind \<noteq> OtherStore" "noFailure s"
  shows "\<exists>s' w'. runP i (sweepAbandon kind key s) w = (s', w') \<and> noFailure s' \<and> effect (abandonRow (cw_now w)) abandonObjects {key} w w'"
  using Abandon_runs[OF assms(1), of i key w] assms(2)
  by (cases s) (auto simp: sweepAbandon_def noFailure_def)

lemma sweepFinish_runs:
  assumes "kind \<noteq> OtherStore" "noFailure s"
  shows "\<exists>s' w'. runP i (sweepFinish kind key s) w = (s', w') \<and> noFailure s' \<and> effect (finishRow (cw_now w)) finishObjects {key} w w'"
  using Finish_runs[OF assms(1), of i key w] assms(2)
  by (cases s) (auto simp: sweepFinish_def noFailure_def)

text \<open>What a sweep at \<open>now\<close> is to do with a claim.\<close>

definition sweepable :: "gotime \<Rightarrow> duration \<Rightarrow> Claim \<Rightarrow> bool" where
  "sweepable now grace c \<longleftrightarrow> matchesQuery (StaleQuery (now - grace) now) c \<or> cl_State c = Deleting"

definition sweptRow :: "gotime \<Rightarrow> duration \<Rightarrow> Claim \<Rightarrow> Claim option" where
  "sweptRow now grace c = (if \<not> sweepable now grace c then Some c else if leaseOver now c then None
     else if cl_State c = Deleting then Some c else Some (c\<lparr>cl_State := Deleting, cl_UpdatedAt := now\<rparr>))"

lemma due_all: "map_of tbl '''' = None \<Longrightarrow> k \<in> sweepDue tbl q '''' \<longleftrightarrow> (\<exists>c. map_of tbl k = Some c \<and> matchesQuery q c)"
  by (cases k) (auto simp: sweepDue_def)

lemma sweep_rows:
  assumes 1: "effect (abandonRow now) abandonObjects (sweepDue (cw_table w) (StaleQuery (now - grace) now) '''') w w1"
    and 2: "effect (finishRow now) finishObjects (sweepDue (cw_table w1) DeletingQuery '''') w1 w2"
    and e: "map_of (cw_table w) '''' = None"
  shows "map_of (cw_table w2) key = Option.bind (map_of (cw_table w) key) (sweptRow now grace)"
proof -
  have e1: "map_of (cw_table w1) '''' = None" using 1 e by (simp add: effect_def)
  have r1: "map_of (cw_table w1) key = (case map_of (cw_table w) key of None \<Rightarrow> None | Some c \<Rightarrow>
      if matchesQuery (StaleQuery (now - grace) now) c then abandonRow now c else Some c)"
    using 1 due_all[OF e, of key] by (cases "map_of (cw_table w) key") (auto simp: effect_def)
  have r2: "map_of (cw_table w2) key = (case map_of (cw_table w1) key of None \<Rightarrow> None | Some c \<Rightarrow> finishRow now c)"
    using 2 due_all[OF e1, of key] by (cases "map_of (cw_table w1) key") (auto simp: effect_def finishRow_def)
  show ?thesis unfolding r2 r1
    by (cases "map_of (cw_table w) key")
      (auto simp: abandonRow_def finishRow_def sweptRow_def sweepable_def leaseOver_def)
qed

lemma effect_objects:
  assumes e: "effect g del (sweepDue (cw_table w) q '''') w w'" and n: "map_of (cw_table w) '''' = None"
    and d: "\<And>key c. matchesQuery q c \<Longrightarrow> del key c = ownObjects key c"
  shows "set (cw_objects w') = set (cw_objects w) -
    {x. \<exists>key c. map_of (cw_table w) key = Some c \<and> matchesQuery q c \<and> x \<in> ownObjects key c}"
proof -
  have "(\<exists>k \<in> sweepDue (cw_table w) q ''''. \<exists>c. map_of (cw_table w) k = Some c \<and> x \<in> del k c) \<longleftrightarrow>
      (\<exists>key c. map_of (cw_table w) key = Some c \<and> matchesQuery q c \<and> x \<in> ownObjects key c)" for x
    using d due_all[OF n, of _ q] by (metis option.inject)
  then show ?thesis using e by (simp add: effect_def)
qed

lemma sweep_objects:
  assumes 1: "effect (abandonRow now) abandonObjects (sweepDue (cw_table w) (StaleQuery (now - grace) now) '''') w w1"
    and 2: "effect (finishRow now) finishObjects (sweepDue (cw_table w1) DeletingQuery '''') w1 w2"
    and e: "map_of (cw_table w) '''' = None"
  shows "set (cw_objects w2) = set (cw_objects w) -
    {x. \<exists>key c. map_of (cw_table w) key = Some c \<and> sweepable now grace c \<and> x \<in> ownObjects key c}"
proof -
  have e1: "map_of (cw_table w1) '''' = None" using 1 e by (simp add: effect_def)
  let ?q = "StaleQuery (now - grace) now"
  have o1: "set (cw_objects w1) = set (cw_objects w) -
      {x. \<exists>key c. map_of (cw_table w) key = Some c \<and> matchesQuery ?q c \<and> x \<in> ownObjects key c}"
    by (rule effect_objects[OF 1 e]) (auto simp: abandonObjects_def)
  have o2: "set (cw_objects w2) = set (cw_objects w1) -
      {x. \<exists>key c. map_of (cw_table w1) key = Some c \<and> matchesQuery DeletingQuery c \<and> x \<in> ownObjects key c}"
    by (rule effect_objects[OF 2 e1]) (auto simp: finishObjects_def)
  have r1: "map_of (cw_table w1) key = (case map_of (cw_table w) key of None \<Rightarrow> None | Some c \<Rightarrow>
      if matchesQuery ?q c then abandonRow now c else Some c)" for key
    using 1 due_all[OF e, of key] by (cases "map_of (cw_table w) key") (auto simp: effect_def)
  have fwd: "\<exists>c. map_of (cw_table w) key = Some c \<and> sweepable now grace c \<and> x \<in> ownObjects key c"
    if "map_of (cw_table w1) key = Some c1" "matchesQuery DeletingQuery c1" "x \<in> ownObjects key c1" for key c1 x
  proof (cases "map_of (cw_table w) key")
    case (Some c)
    then have "(if matchesQuery ?q c then abandonRow now c else Some c) = Some c1" using that(1) r1[of key] by simp
    then have "cl_Staged c1 = cl_Staged c \<and> (matchesQuery ?q c \<or> c1 = c)"
      by (auto simp: abandonRow_def finishRow_def split: if_splits)
    with that(2,3) Some show ?thesis by (auto simp: sweepable_def ownObjects_def)
  qed (use that(1) r1[of key] in simp)
  have bwd: "map_of (cw_table w1) key = Some c" if "map_of (cw_table w) key = Some c" "\<not> matchesQuery ?q c" for key c
    using that r1[of key] by (simp only: option.case if_False)
  have sw: "sweepable now grace c \<longleftrightarrow> matchesQuery ?q c \<or> matchesQuery DeletingQuery c" for c by (simp add: sweepable_def)
  have "{x. \<exists>key c. map_of (cw_table w) key = Some c \<and> sweepable now grace c \<and> x \<in> ownObjects key c} =
      {x. \<exists>key c. map_of (cw_table w) key = Some c \<and> matchesQuery ?q c \<and> x \<in> ownObjects key c} \<union>
      {x. \<exists>key c. map_of (cw_table w1) key = Some c \<and> matchesQuery DeletingQuery c \<and> x \<in> ownObjects key c}" (is "?S = ?A \<union> ?B")
  proof (intro set_eqI iffI)
    fix x assume "x \<in> ?S"
    then obtain key c where c: "map_of (cw_table w) key = Some c" "sweepable now grace c" "x \<in> ownObjects key c" by blast
    then show "x \<in> ?A \<union> ?B" using bwd[OF c(1)] unfolding sw by blast
  next
    fix x assume "x \<in> ?A \<union> ?B"
    then show "x \<in> ?S" using fwd[of _ _ x] unfolding sw by blast
  qed
  then show ?thesis unfolding o2 o1 by blast
qed

text \<open>C23: a sweep that runs undisturbed ends, whatever the size of the table, and cleans everything
  up. It returns with no failure and no error within the bound of one batch per five hundred claims,
  plus one. Afterwards, every claim that went stale or whose file was released has lost its object and
  its staged upload; it is forgotten if its lease is over and remains to be deleted otherwise. Every
  other claim and object is as it was.\<close>

theorem sweep_completes:
  assumes "kind \<noteq> OtherStore" "distinct (map fst (cw_table w))" "map_of (cw_table w) '''' = None"
    and "length (cw_table w) < n * claimsSweepBatch"
  shows "\<exists>res w'. runP i (Sweep n kind grace) w = (Some (res, []), w') \<and> sw_Failed res = 0 \<and> cw_refs w' = cw_refs w \<and>
     (\<forall>key. map_of (cw_table w') key = Option.bind (map_of (cw_table w) key) (sweptRow (cw_now w) grace)) \<and>
     set (cw_objects w') = set (cw_objects w) -
       {x. \<exists>key c. map_of (cw_table w) key = Some c \<and> sweepable (cw_now w) grace c \<and> x \<in> ownObjects key c}"
proof -
  let ?q = "StaleQuery (cw_now w - grace) (cw_now w)"
  have b: "0 < claimsSweepBatch" by (simp add: claimsSweepBatch_def)
  have s0: "noFailure (noResult, [])" by (simp add: noFailure_def noResult_def)
  have "card (sweepDue (cw_table w) ?q '''') < n * claimsSweepBatch" using due_card[OF subset_refl, of "cw_table w" ?q "''''"] assms(4) by linarith
  note l1 = eachKey_runs[where body = "sweepAbandon kind" and good = noFailure, OF sweepAbandon_runs[OF assms(1)] b assms(2) s0 this]
  obtain s1 w1 where 1: "runP i (eachKey n claimsSweepBatch ?q '''' (sweepAbandon kind) (noResult, [])) w = (Some (None, s1), w1)"
      "noFailure s1" "effect (abandonRow (cw_now w)) abandonObjects (sweepDue (cw_table w) ?q '''') w w1"
    using l1[of i] by auto
  have w1: "distinctKeys w1" "cw_now w1 = cw_now w" "map_of (cw_table w1) '''' = None" using 1(3) assms(2,3) by (auto simp: effect_def)
  have "dom (map_of (cw_table w1)) \<subseteq> dom (map_of (cw_table w))" using 1(3) by (rule effect_dom)
  from due_card[OF this, of DeletingQuery "''''"] assms(4) have "card (sweepDue (cw_table w1) DeletingQuery '''') < n * claimsSweepBatch" by linarith
  note l2 = eachKey_runs[where body = "sweepFinish kind" and good = noFailure, OF sweepFinish_runs[OF assms(1)] b w1(1) 1(2) this]
  obtain s2 w2 where 2: "runP i (eachKey n claimsSweepBatch DeletingQuery '''' (sweepFinish kind) s1) w1 = (Some (None, s2), w2)"
      "noFailure s2" "effect (finishRow (cw_now w)) finishObjects (sweepDue (cw_table w1) DeletingQuery '''') w1 w2"
    using l2[of i] w1(2) by auto
  obtain res where res: "s2 = (res, [])" "sw_Failed res = 0" using 2(2) by (cases s2) (auto simp: noFailure_def)
  have "runP i (Sweep n kind grace) w = (Some (res, []), w2)"
    using 1(1) 2(1) res(1) by (simp add: Sweep_def)
  moreover have "cw_refs w2 = cw_refs w" using 1(3) 2(3) by (simp add: effect_def)
  ultimately show ?thesis using sweep_rows[OF 1(3) 2(3) assms(3)] sweep_objects[OF 1(3) 2(3) assms(3)] res(2) by blast
qed


text \<open>A table with a stale claim whose lease is over, one whose lease runs, a released file and a held
  one: two are forgotten, one waits.\<close>

definition sweptWorld :: claims_world where
  "sweptWorld = (let c = (\<lambda>st l. \<lparr>cl_State = st, cl_CreatedAt = 0, cl_LeaseUntil = l, cl_Staged = True, cl_Scope = ''s'',
       cl_Publication = '''', cl_UpdatedAt = 0\<rparr>) in
     \<lparr>cw_table = [(''a'', c Pending 5), (''b'', c Pending (90 * Minute)), (''c'', c Deleting 5), (''d'', c Held 5)],
      cw_objects = [''a'', ''b'', ''c'', ''d'', StagingKey ''a''], cw_refs = [''d''], cw_now = 60 * Minute,
      cw_copies = [], cw_fenced = [], cw_used = [], cw_owner = []\<rparr>)"

theorem sweep_completes_witness:
  "\<exists>res w'. runP 0 (Sweep 1 Publisher (30 * Minute)) sweptWorld = (Some (res, []), w') \<and> sw_Failed res = 0 \<and>
     map (\<lambda>k. map_option cl_State (map_of (cw_table w') k)) [''a'', ''b'', ''c'', ''d''] = [None, Some Deleting, None, Some Held] \<and>
     ''a'' \<notin> set (cw_objects w')"
proof -
  have h: "distinct (map fst (cw_table sweptWorld))" "map_of (cw_table sweptWorld) '''' = None"
    "length (cw_table sweptWorld) < 1 * claimsSweepBatch" by (simp_all add: sweptWorld_def Let_def claimsSweepBatch_def)
  have r: "map (\<lambda>k. map_option cl_State (Option.bind (map_of (cw_table sweptWorld) k) (sweptRow (cw_now sweptWorld) (30 * Minute))))
      [''a'', ''b'', ''c'', ''d''] = [None, Some Deleting, None, Some Held]" by code_simp
  have a: "\<exists>c. map_of (cw_table sweptWorld) ''a'' = Some c \<and> sweepable (cw_now sweptWorld) (30 * Minute) c \<and> ''a'' \<in> ownObjects ''a'' c"
    by (simp add: sweptWorld_def sweepable_def ownObjects_def Let_def)
  from sweep_completes[of Publisher, OF _ h, of 0 "30 * Minute"] obtain res w' where
    s: "runP 0 (Sweep 1 Publisher (30 * Minute)) sweptWorld = (Some (res, []), w')" "sw_Failed res = 0"
      "\<And>key. map_of (cw_table w') key = Option.bind (map_of (cw_table sweptWorld) key) (sweptRow (cw_now sweptWorld) (30 * Minute))"
      "set (cw_objects w') = set (cw_objects sweptWorld) -
         {x. \<exists>key c. map_of (cw_table sweptWorld) key = Some c \<and> sweepable (cw_now sweptWorld) (30 * Minute) c \<and> x \<in> ownObjects key c}"
    by auto
  show ?thesis by (rule exI[of _ res], rule exI[of _ w']) (use s(1,2) r[folded s(3)] a s(4) in blast)
qed

end
