(* ===== verification/Auth_Model.thy ===== *)
theory Auth_Model
  imports Go_Strings
begin

section \<open>Accounts: the tables and their statements\<close>

text \<open>
  The data of \<open>auth/models.go\<close> and the statements the account service runs on it. A table is the
  list of its rows in the order of their ids, which the database assigns increasing; an \<open>UPDATE\<close>
  with a condition is \<open>updateRows\<close>, and how many rows it affected is \<open>rowsWhere\<close>. A transaction
  holds the lock of its user's row (\<open>lockUserTx\<close>), so that its body runs as one step between the
  other transactions of that user; what it read before it took the lock is an argument, as are the
  readings of the clock and the random tokens. A database failure rolls a transaction back and is not
  written out.

  What the service calls and the sources do not contain is a field of \<open>auth_env\<close>: the password
  hasher (bcrypt), SHA-256, the signing of access tokens (JWT), the session-id MAC, Unicode's case
  table and the address parser of \<open>net/mail\<close>.
\<close>

subsection \<open>Rows\<close>

record User =
  us_ID :: nat
  us_Email :: string
  us_PasswordHash :: string
  us_IsSuperuser :: bool
  us_DisabledAt :: "gotime option"
  us_EmailVerifiedAt :: "gotime option"
  us_VerifiedEmail :: string

record RefreshToken =
  rt_ID :: nat
  rt_UserID :: nat
  rt_TokenHash :: string
  rt_ExpiresAt :: gotime
  rt_RevokedAt :: "gotime option"
  rt_ReplacedBy :: "nat option"
  rt_CreatedAt :: gotime

datatype TokenPurpose = PurposeVerifyEmail | PurposeResetPassword | PurposeChangeEmail

record OneTimeToken =
  ot_ID :: nat
  ot_UserID :: nat
  ot_Purpose :: TokenPurpose
  ot_TokenHash :: string
  ot_Email :: string
  ot_FromEmail :: string
  ot_ExpiresAt :: gotime
  ot_SentAt :: "gotime option"
  ot_UsedAt :: "gotime option"
  ot_CreatedAt :: gotime

datatype AuditAction =
    AuditLoginSucceeded | AuditLoginFailed string | AuditLogout | AuditRegistered | AuditSuperuserCreated
  | AuditUserDisabled | AuditUserEnabled | AuditRefreshReuse | AuditRefreshReuseWithinGrace string string
  | AuditSessionRevoked string | AuditEmailVerified | AuditPasswordResetRequested | AuditPasswordReset bool
  | AuditPasswordChanged bool | AuditPasswordChangeFailed string | AuditEmailChangeRequested
  | AuditEmailChangeFailed string | AuditEmailChanged | AuditGroupMemberAdded string
  | AuditPermissionGranted "string option" string

text \<open>The tables, the next id of each, and the events recorded so far with the user they are about.\<close>

record auth_db =
  ad_users :: "User list"
  ad_tokens :: "RefreshToken list"
  ad_links :: "OneTimeToken list"
  ad_nextUser :: nat
  ad_nextToken :: nat
  ad_nextLink :: nat
  ad_audit :: "(AuditAction \<times> nat option) list"

record accessClaims =
  ac_Subject :: string
  ac_Email :: string
  ac_RefreshID :: nat
  ac_IssuedAt :: gotime
  ac_NotBefore :: gotime
  ac_ExpiresAt :: gotime

record AuthConfig =
  cf_AccessTokenTTL :: duration
  cf_RefreshTokenTTL :: duration
  cf_RefreshReuseGrace :: duration
  cf_EmailVerificationTTL :: duration
  cf_PasswordResetTTL :: duration
  cf_PasswordResetKeepSessions :: bool

record auth_env =
  ev_cfg :: AuthConfig
  ev_hash :: "string \<Rightarrow> string option"
  ev_compare :: "string \<Rightarrow> string \<Rightarrow> bool"
  ev_sha256 :: "string \<Rightarrow> string"
  ev_sign :: "accessClaims \<Rightarrow> string option"
  ev_parse :: "string \<Rightarrow> gotime \<Rightarrow> accessClaims option"
  ev_sessionMAC :: "string \<Rightarrow> string"
  ev_lower :: "int \<Rightarrow> int"
  ev_parseAddress :: "string \<Rightarrow> (string \<times> string) option"

datatype auth_error =
    ErrInvalidCredentials | ErrAccountDisabled | ErrEmailTaken | ErrUserNotFound | ErrInvalidEmail
  | ErrPasswordRequired string | ErrPasswordTooLong string | ErrPasswordTooShort string | ErrHash | ErrSign
  | ErrInvalidRefreshToken | ErrRotationRaced | ErrRefreshReuse | ErrInvalidAccessToken
  | ErrSessionNotFound | ErrSessionEnded | ErrInvalidOneTimeToken | ErrTokenNotPending
  | ErrResendTooSoon duration | ErrMailNotSent | ErrNoMailer | ErrAlreadyVerified | ErrWrongCurrentPassword | ErrPasswordChanged
  | ErrEmailUnchanged | ErrEmailChangedMeanwhile | ErrDuplicateHash | ErrRecordNotFound
  | ErrSuperuserOnly | ErrCannotDisableSelf | ErrPermissionDenied | ErrNotPersisted | ErrKeyRequired

type_synonym 'a auth_result = "(auth_error, 'a, auth_db) outcome"

subsection \<open>Statements\<close>

definition updateRows :: "('r \<Rightarrow> bool) \<Rightarrow> ('r \<Rightarrow> 'r) \<Rightarrow> 'r list \<Rightarrow> 'r list" where
  "updateRows P f rows = map (\<lambda>r. if P r then f r else r) rows"

definition rowsWhere :: "('r \<Rightarrow> bool) \<Rightarrow> 'r list \<Rightarrow> nat" where
  "rowsWhere P rows = length (filter P rows)"

definition userByID :: "auth_db \<Rightarrow> nat \<Rightarrow> User option" where
  "userByID db i = find (\<lambda>u. us_ID u = i) (ad_users db)"

definition tokenByID :: "auth_db \<Rightarrow> nat \<Rightarrow> RefreshToken option" where
  "tokenByID db i = find (\<lambda>r. rt_ID r = i) (ad_tokens db)"

definition linkByID :: "auth_db \<Rightarrow> nat \<Rightarrow> OneTimeToken option" where
  "linkByID db i = find (\<lambda>t. ot_ID t = i) (ad_links db)"

definition lockUserTx :: "auth_db \<Rightarrow> nat \<Rightarrow> auth_error + User" where
  "lockUserTx db userID = (case userByID db userID of None \<Rightarrow> Inl ErrRecordNotFound | Some u \<Rightarrow> Inr u)"

definition Disabled :: "User \<Rightarrow> bool" where
  "Disabled u \<longleftrightarrow> us_DisabledAt u \<noteq> None"

definition Audit :: "AuditAction \<Rightarrow> nat option \<Rightarrow> auth_db \<Rightarrow> auth_db" where
  "Audit action target db = db\<lparr>ad_audit := ad_audit db @ [(action, target)]\<rparr>"

text \<open>A session is active while its row is neither revoked nor expired.\<close>

definition activeRow :: "gotime \<Rightarrow> RefreshToken \<Rightarrow> bool" where
  "activeRow now r \<longleftrightarrow> rt_RevokedAt r = None \<and> now < rt_ExpiresAt r"

definition revokeWhere :: "(RefreshToken \<Rightarrow> bool) \<Rightarrow> gotime \<Rightarrow> auth_db \<Rightarrow> auth_db" where
  "revokeWhere P now db = db\<lparr>ad_tokens :=
     updateRows (\<lambda>r. rt_RevokedAt r = None \<and> P r) (\<lambda>r. r\<lparr>rt_RevokedAt := Some now\<rparr>) (ad_tokens db)\<rparr>"

definition revokeAllTx :: "nat \<Rightarrow> gotime \<Rightarrow> auth_db \<Rightarrow> auth_db" where
  "revokeAllTx userID now db = revokeWhere (\<lambda>r. rt_UserID r = userID) now db"

definition revokeSessionsButTx :: "nat \<Rightarrow> nat list \<Rightarrow> gotime \<Rightarrow> auth_db \<Rightarrow> auth_db" where
  "revokeSessionsButTx userID keep now db = revokeWhere (\<lambda>r. rt_UserID r = userID \<and> rt_ID r \<notin> set keep) now db"

text \<open>\<open>voidTokensTx\<close>; no purposes means all of them.\<close>

definition voidTokensTx :: "nat \<Rightarrow> nat \<Rightarrow> gotime \<Rightarrow> TokenPurpose list \<Rightarrow> auth_db \<Rightarrow> auth_db" where
  "voidTokensTx userID except now purposes db = db\<lparr>ad_links := updateRows
     (\<lambda>t. ot_UserID t = userID \<and> ot_UsedAt t = None \<and> ot_ID t \<noteq> except \<and> (purposes = [] \<or> ot_Purpose t \<in> set purposes))
     (\<lambda>t. t\<lparr>ot_UsedAt := Some now\<rparr>) (ad_links db)\<rparr>"

definition voidPasswordBoundTokensTx :: "nat \<Rightarrow> nat \<Rightarrow> gotime \<Rightarrow> auth_db \<Rightarrow> auth_db" where
  "voidPasswordBoundTokensTx userID except now db =
     voidTokensTx userID except now [PurposeResetPassword, PurposeChangeEmail] db"

definition supersedeTokensTx :: "nat \<Rightarrow> TokenPurpose \<Rightarrow> nat \<Rightarrow> gotime \<Rightarrow> auth_db \<Rightarrow> auth_db" where
  "supersedeTokensTx userID purpose keep now db = db\<lparr>ad_links := updateRows
     (\<lambda>t. ot_UserID t = userID \<and> ot_Purpose t = purpose \<and> ot_SentAt t \<noteq> None \<and> ot_UsedAt t = None \<and> ot_ID t \<noteq> keep)
     (\<lambda>t. t\<lparr>ot_UsedAt := Some now\<rparr>) (ad_links db)\<rparr>"

definition updateUser :: "nat \<Rightarrow> (User \<Rightarrow> User) \<Rightarrow> auth_db \<Rightarrow> auth_db" where
  "updateUser userID f db = db\<lparr>ad_users := updateRows (\<lambda>u. us_ID u = userID) f (ad_users db)\<rparr>"

subsection \<open>Emails and passwords (auth/errors.go, auth/hasher.go)\<close>

definition normalizeEmail :: "auth_env \<Rightarrow> string \<Rightarrow> string" where
  "normalizeEmail env email = ToLower (ev_lower env) (TrimSpace email)"

definition EmailVerified :: "auth_env \<Rightarrow> User \<Rightarrow> bool" where
  "EmailVerified env u \<longleftrightarrow> us_EmailVerifiedAt u \<noteq> None \<and> us_VerifiedEmail u \<noteq> '''' \<and>
     normalizeEmail env (us_VerifiedEmail u) = normalizeEmail env (us_Email u)"

definition maxEmailLength :: int where "maxEmailLength = 255"

definition validEmail :: "auth_env \<Rightarrow> string \<Rightarrow> bool" where
  "validEmail env email \<longleftrightarrow> email \<noteq> '''' \<and> RuneCount email \<le> maxEmailLength \<and>
     (case ev_parseAddress env email of None \<Rightarrow> False | Some (name, address) \<Rightarrow> name = '''' \<and> address = email)"

text \<open>\<open>email = ?\<close> on a database whose collation is exact.\<close>

definition findUserByEmail :: "auth_env \<Rightarrow> auth_db \<Rightarrow> string \<Rightarrow> User option" where
  "findUserByEmail env db email = (case find (\<lambda>u. us_Email u = email) (ad_users db) of
       None \<Rightarrow> None | Some u \<Rightarrow> if normalizeEmail env (us_Email u) \<noteq> email then None else Some u)"

definition maxPasswordBytes :: int where "maxPasswordBytes = 72"
definition minPasswordLength :: int where "minPasswordLength = 8"

definition checkPasswordLength :: "string \<Rightarrow> string \<Rightarrow> auth_error option" where
  "checkPasswordLength password field = (if password = '''' then Some (ErrPasswordRequired field)
     else if maxPasswordBytes < int (length password) then Some (ErrPasswordTooLong field) else None)"

definition checkNewPassword :: "string \<Rightarrow> string \<Rightarrow> auth_error option" where
  "checkNewPassword password field = (case checkPasswordLength password field of Some e \<Rightarrow> Some e
     | None \<Rightarrow> if RuneCount password < minPasswordLength then Some (ErrPasswordTooShort field) else None)"

text \<open>\<open>bcryptHasher.Hash\<close>.\<close>

definition hashPassword :: "auth_env \<Rightarrow> string \<Rightarrow> auth_error + string" where
  "hashPassword env password = (case checkPasswordLength password '''' of Some e \<Rightarrow> Inl e
     | None \<Rightarrow> (case ev_hash env password of None \<Rightarrow> Inl ErrHash | Some h \<Rightarrow> Inr h))"

definition CheckNewAccount :: "auth_env \<Rightarrow> string \<Rightarrow> string \<Rightarrow> auth_error option" where
  "CheckNewAccount env email password = (if \<not> validEmail env (normalizeEmail env email) then Some ErrInvalidEmail
     else checkNewPassword password ''password'')"

subsection \<open>Creating accounts (auth/service.go)\<close>

definition createUser :: "auth_env \<Rightarrow> auth_db \<Rightarrow> string \<Rightarrow> string \<Rightarrow> bool \<Rightarrow> gotime \<Rightarrow> User auth_result" where
  "createUser env db email0 password superuser now = (let email = normalizeEmail env email0 in
     if email = '''' then (Inl ErrInvalidCredentials, db)
     else (case CheckNewAccount env email password of Some e \<Rightarrow> (Inl e, db)
     | None \<Rightarrow> (case hashPassword env password of Inl e \<Rightarrow> (Inl e, db)
     | Inr hash \<Rightarrow>
       (let user = \<lparr>us_ID = ad_nextUser db, us_Email = email, us_PasswordHash = hash, us_IsSuperuser = superuser,
             us_DisabledAt = None, us_EmailVerifiedAt = (if superuser then Some now else None),
             us_VerifiedEmail = (if superuser then email else '''')\<rparr> in
        if list_ex (\<lambda>u. us_Email u = email) (ad_users db) then (Inl ErrEmailTaken, db)
        else (Inr user, db\<lparr>ad_users := ad_users db @ [user], ad_nextUser := ad_nextUser db + 1\<rparr>)))))"

definition CreateSuperuser :: "auth_env \<Rightarrow> auth_db \<Rightarrow> string \<Rightarrow> string \<Rightarrow> gotime \<Rightarrow> User auth_result" where
  "CreateSuperuser env db email password now = (case createUser env db email password True now of
       (Inl e, db') \<Rightarrow> (Inl e, db')
     | (Inr u, db') \<Rightarrow> (Inr u, Audit AuditSuperuserCreated (Some (us_ID u)) db'))"

end
