(* ===== verification/Auth_Sessions.thy ===== *)
theory Auth_Sessions
  imports Auth_Model
begin

section \<open>Accounts: sessions\<close>

text \<open>
  Sign-in, refresh token rotation, access tokens and session revocation (\<open>auth/service.go\<close>,
  \<open>auth/tokens.go\<close>, \<open>auth/sessions.go\<close>). A session is a chain of refresh token rows, each
  replaced by the next; only its last row, the head, is unrevoked. \<open>rotateLocked\<close> is the part of a
  rotation that runs under the user's lock: the row it was read from before the lock is its argument,
  and may be older than the table. The joining of concurrent rotations of one token within a process
  and the timeouts are not modelled: each rotation runs on its own.
\<close>

subsection \<open>Tokens\<close>

record TokenPair =
  tp_AccessToken :: string
  tp_RefreshToken :: string
  tp_TokenType :: string
  tp_ExpiresIn :: int

definition hashRefreshToken :: "auth_env \<Rightarrow> string \<Rightarrow> string" where
  "hashRefreshToken env raw = ev_sha256 env raw"

definition accessClaimsOf :: "User \<Rightarrow> nat \<Rightarrow> duration \<Rightarrow> gotime \<Rightarrow> accessClaims" where
  "accessClaimsOf user refreshID ttl now = \<lparr>ac_Subject = natDigits (us_ID user), ac_Email = us_Email user,
     ac_RefreshID = refreshID, ac_IssuedAt = now, ac_NotBefore = now, ac_ExpiresAt = now + ttl\<rparr>"

definition signAccessToken :: "auth_env \<Rightarrow> User \<Rightarrow> nat \<Rightarrow> duration \<Rightarrow> gotime \<Rightarrow> string option" where
  "signAccessToken env user refreshID ttl now = ev_sign env (accessClaimsOf user refreshID ttl now)"

definition parseAccessToken :: "auth_env \<Rightarrow> string \<Rightarrow> gotime \<Rightarrow> accessClaims option" where
  "parseAccessToken env token now = (case ev_parse env token now of None \<Rightarrow> None
     | Some c \<Rightarrow> if ac_Subject c = '''' \<or> ac_RefreshID c = 0 then None else Some c)"

definition userIDFromSubject :: "string \<Rightarrow> nat option" where
  "userIDFromSubject subject = (case ParseUint (TrimSpace subject) of None \<Rightarrow> None
     | Some i \<Rightarrow> if i = 0 then None else Some i)"

definition newRefreshRow :: "auth_env \<Rightarrow> auth_db \<Rightarrow> User \<Rightarrow> string \<Rightarrow> gotime \<Rightarrow> RefreshToken" where
  "newRefreshRow env db user raw now = \<lparr>rt_ID = ad_nextToken db, rt_UserID = us_ID user, rt_TokenHash = hashRefreshToken env raw,
     rt_ExpiresAt = now + cf_RefreshTokenTTL (ev_cfg env), rt_RevokedAt = None, rt_ReplacedBy = None, rt_CreatedAt = now\<rparr>"

definition issueTokens :: "auth_env \<Rightarrow> auth_db \<Rightarrow> User \<Rightarrow> string \<Rightarrow> gotime \<Rightarrow> TokenPair auth_result" where
  "issueTokens env db user raw now = (let row = newRefreshRow env db user raw now in
     if list_ex (\<lambda>r. rt_TokenHash r = rt_TokenHash row) (ad_tokens db) then (Inl ErrDuplicateHash, db)
     else (case signAccessToken env user (rt_ID row) (cf_AccessTokenTTL (ev_cfg env)) now of
         None \<Rightarrow> (Inl ErrSign, db)
       | Some access \<Rightarrow> (Inr \<lparr>tp_AccessToken = access, tp_RefreshToken = raw, tp_TokenType = ''Bearer'',
             tp_ExpiresIn = quot (cf_AccessTokenTTL (ev_cfg env)) Second\<rparr>,
           db\<lparr>ad_tokens := ad_tokens db @ [row], ad_nextToken := ad_nextToken db + 1\<rparr>)))"

subsection \<open>Signing in\<close>

text \<open>\<open>Authenticate\<close>, past its throttle.\<close>

definition Authenticate :: "auth_env \<Rightarrow> auth_db \<Rightarrow> string \<Rightarrow> string \<Rightarrow> User auth_result" where
  "Authenticate env db email0 password = (let email = normalizeEmail env email0 in
     case findUserByEmail env db email of
       None \<Rightarrow> (Inl ErrInvalidCredentials, Audit (AuditLoginFailed ''unknown_account'') None db)
     | Some user \<Rightarrow>
         if \<not> ev_compare env (us_PasswordHash user) password
         then (Inl ErrInvalidCredentials, Audit (AuditLoginFailed ''wrong_password'') (Some (us_ID user)) db)
         else if Disabled user
         then (Inl ErrAccountDisabled, Audit (AuditLoginFailed ''account_disabled'') (Some (us_ID user)) db)
         else (Inr user, db))"

text \<open>\<open>user\<close> is the snapshot whose password was checked.\<close>

definition startSession :: "auth_env \<Rightarrow> auth_db \<Rightarrow> User \<Rightarrow> string \<Rightarrow> gotime \<Rightarrow> (User \<times> TokenPair) auth_result" where
  "startSession env db user raw now = (case lockUserTx db (us_ID user) of
       Inl _ \<Rightarrow> (Inl ErrInvalidCredentials, Audit (AuditLoginFailed ''account_deleted'') (Some (us_ID user)) db)
     | Inr locked \<Rightarrow>
         if Disabled locked
         then (Inl ErrAccountDisabled, Audit (AuditLoginFailed ''account_disabled'') (Some (us_ID user)) db)
         else if us_PasswordHash locked \<noteq> us_PasswordHash user
         then (Inl ErrInvalidCredentials, Audit (AuditLoginFailed ''password_changed'') (Some (us_ID user)) db)
         else (case issueTokens env db locked raw now of
             (Inl e, _) \<Rightarrow> (Inl e, db)
           | (Inr pair, db') \<Rightarrow> (Inr (locked, pair), Audit AuditLoginSucceeded (Some (us_ID locked)) db')))"

definition Login :: "auth_env \<Rightarrow> auth_db \<Rightarrow> string \<Rightarrow> string \<Rightarrow> string \<Rightarrow> gotime \<Rightarrow> (User \<times> TokenPair) auth_result" where
  "Login env db email password raw now = (case Authenticate env db email password of
       (Inl e, db') \<Rightarrow> (Inl e, db') | (Inr user, db') \<Rightarrow> startSession env db' user raw now)"

subsection \<open>Rotation\<close>

definition readToken :: "auth_db \<Rightarrow> string \<Rightarrow> RefreshToken option" where
  "readToken db h = find (\<lambda>r. rt_TokenHash r = h) (ad_tokens db)"

definition hasSuccessorTx :: "auth_db \<Rightarrow> nat \<Rightarrow> auth_error + bool" where
  "hasSuccessorTx db i = (case tokenByID db i of None \<Rightarrow> Inl ErrRecordNotFound | Some r \<Rightarrow> Inr (rt_ReplacedBy r \<noteq> None))"

definition lockRefreshRowTx :: "auth_db \<Rightarrow> nat \<Rightarrow> auth_error + RefreshToken" where
  "lockRefreshRowTx db i = (case tokenByID db i of None \<Rightarrow> Inl ErrRecordNotFound | Some r \<Rightarrow> Inr r)"

definition sessionIDDomain :: string where "sessionIDDomain = ''gombit/auth/session-id:''"

definition sessionID :: "auth_env \<Rightarrow> nat \<Rightarrow> string" where
  "sessionID env refreshID = ev_sessionMAC env (sessionIDDomain @ natDigits refreshID)"

text \<open>A token presented again after it was rotated: a lost race within the grace period, reuse
  otherwise.\<close>

definition rotatedAgain :: "auth_env \<Rightarrow> auth_db \<Rightarrow> RefreshToken \<Rightarrow> gotime \<Rightarrow> nat \<Rightarrow> gotime \<Rightarrow> 'a auth_result" where
  "rotatedAgain env db row revokedAt successorID now =
     (let reuse = (Inl ErrRefreshReuse, Audit AuditRefreshReuse (Some (rt_UserID row)) (revokeAllTx (rt_UserID row) now db));
          grace = cf_RefreshReuseGrace (ev_cfg env) in
      if 0 < grace \<and> now - grace < revokedAt
      then (case lockRefreshRowTx db successorID of
          Inl e \<Rightarrow> (Inl e, db)
        | Inr successor \<Rightarrow>
            if rt_ReplacedBy successor \<noteq> None then reuse
            else if activeRow now successor
            then (Inl ErrRotationRaced,
              Audit (AuditRefreshReuseWithinGrace (sessionID env (rt_ID successor)) ''live'') (Some (rt_UserID row)) db)
            else (Inl ErrInvalidRefreshToken,
              Audit (AuditRefreshReuseWithinGrace (sessionID env (rt_ID successor)) ''ended'') (Some (rt_UserID row)) db))
      else reuse)"

definition rotateLocked :: "auth_env \<Rightarrow> auth_db \<Rightarrow> RefreshToken \<Rightarrow> string \<Rightarrow> gotime \<Rightarrow> (TokenPair \<times> User) auth_result" where
  "rotateLocked env db row raw now = (case lockUserTx db (rt_UserID row) of
       Inl _ \<Rightarrow> (Inl ErrUserNotFound, db)
     | Inr user \<Rightarrow>
         if Disabled user then (Inl ErrInvalidRefreshToken, db)
         else if \<not> now < rt_ExpiresAt row then
           (case (if rt_RevokedAt row = None then hasSuccessorTx db (rt_ID row) else Inr (rt_ReplacedBy row \<noteq> None)) of
               Inl e \<Rightarrow> (Inl e, db)
             | Inr rotated \<Rightarrow> (Inl (if rotated then ErrRotationRaced else ErrInvalidRefreshToken), db))
         else (case rt_RevokedAt row of
             Some revokedAt \<Rightarrow> (case rt_ReplacedBy row of
                 None \<Rightarrow> (Inl ErrInvalidRefreshToken, db)
               | Some successorID \<Rightarrow> rotatedAgain env db row revokedAt successorID now)
           | None \<Rightarrow>
               if rowsWhere (\<lambda>r. rt_ID r = rt_ID row \<and> rt_RevokedAt r = None) (ad_tokens db) \<noteq> 1
               then (case hasSuccessorTx db (rt_ID row) of
                   Inl e \<Rightarrow> (Inl e, db)
                 | Inr rotated \<Rightarrow> (Inl (if rotated then ErrRotationRaced else ErrInvalidRefreshToken), db))
               else (case issueTokens env (revokeWhere (\<lambda>r. rt_ID r = rt_ID row) now db) user raw now of
                   (Inl e, _) \<Rightarrow> (Inl e, db)
                 | (Inr pair, db') \<Rightarrow> (case readToken db' (hashRefreshToken env (tp_RefreshToken pair)) of
                       None \<Rightarrow> (Inl ErrRecordNotFound, db)
                     | Some replacement \<Rightarrow> (Inr (pair, user),
                         db'\<lparr>ad_tokens := updateRows (\<lambda>r. rt_ID r = rt_ID row)
                           (\<lambda>r. r\<lparr>rt_ReplacedBy := Some (rt_ID replacement)\<rparr>) (ad_tokens db')\<rparr>)))))"

text \<open>A rotation nothing interferes with.\<close>

definition RotateRefresh :: "auth_env \<Rightarrow> auth_db \<Rightarrow> string \<Rightarrow> string \<Rightarrow> gotime \<Rightarrow> (TokenPair \<times> User) auth_result" where
  "RotateRefresh env db presented raw now = (let p = TrimSpace presented in
     if p = '''' then (Inl ErrInvalidRefreshToken, db)
     else (case readToken db (hashRefreshToken env p) of
         None \<Rightarrow> (Inl ErrInvalidRefreshToken, db) | Some row \<Rightarrow> rotateLocked env db row raw now))"

text \<open>Logout takes no lock; the row it read is updated only while unrevoked.\<close>

definition logoutRow :: "auth_db \<Rightarrow> RefreshToken \<Rightarrow> gotime \<Rightarrow> auth_db" where
  "logoutRow db row now = (let db' = revokeWhere (\<lambda>r. rt_ID r = rt_ID row) now db in
     if rowsWhere (\<lambda>r. rt_ID r = rt_ID row \<and> rt_RevokedAt r = None) (ad_tokens db) = 1
     then Audit AuditLogout (Some (rt_UserID row)) db' else db')"

definition RevokeRefresh :: "auth_env \<Rightarrow> auth_db \<Rightarrow> string \<Rightarrow> gotime \<Rightarrow> unit auth_result" where
  "RevokeRefresh env db presented now = (let p = TrimSpace presented in
     if p = '''' then (Inl ErrInvalidRefreshToken, db)
     else (case find (\<lambda>r. rt_TokenHash r = hashRefreshToken env p \<and> rt_RevokedAt r = None) (ad_tokens db) of
         None \<Rightarrow> (Inr (), db) | Some row \<Rightarrow> (Inr (), logoutRow db row now)))"

subsection \<open>Access tokens\<close>

definition parseAccess :: "auth_env \<Rightarrow> auth_db \<Rightarrow> string \<Rightarrow> gotime \<Rightarrow> gotime \<Rightarrow> auth_error + User \<times> nat" where
  "parseAccess env db token now now' = (case parseAccessToken env token now of
       None \<Rightarrow> Inl ErrInvalidAccessToken
     | Some claims \<Rightarrow> (case userIDFromSubject (ac_Subject claims) of
           None \<Rightarrow> Inl ErrInvalidAccessToken
         | Some i \<Rightarrow> (case userByID db i of
               None \<Rightarrow> Inl ErrInvalidAccessToken
             | Some user \<Rightarrow>
                 if Disabled user then Inl ErrInvalidAccessToken
                 else (case tokenByID db (ac_RefreshID claims) of
                     None \<Rightarrow> Inl ErrInvalidAccessToken
                   | Some row \<Rightarrow>
                       if rt_UserID row \<noteq> us_ID user \<or> rt_RevokedAt row \<noteq> None \<or> \<not> now' < rt_ExpiresAt row
                       then Inl ErrInvalidAccessToken else Inr (user, rt_ID row)))))"

subsection \<open>Listing and revoking sessions (auth/sessions.go)\<close>

definition expiryPrefilterSlack :: duration where "expiryPrefilterSlack = 48 * Hour"

definition sessionBefore :: "RefreshToken \<Rightarrow> RefreshToken \<Rightarrow> bool" where
  "sessionBefore a b = (if rt_CreatedAt a \<noteq> rt_CreatedAt b then rt_CreatedAt b < rt_CreatedAt a else rt_ID b < rt_ID a)"

fun insertSession :: "RefreshToken \<Rightarrow> RefreshToken list \<Rightarrow> RefreshToken list" where
  "insertSession r [] = [r]"
| "insertSession r (x # xs) = (if sessionBefore x r then x # insertSession r xs else r # x # xs)"

fun sortSessions :: "RefreshToken list \<Rightarrow> RefreshToken list" where
  "sortSessions [] = []"
| "sortSessions (r # rs) = insertSession r (sortSessions rs)"

definition activeSessionRows :: "auth_db \<Rightarrow> nat \<Rightarrow> gotime \<Rightarrow> RefreshToken list" where
  "activeSessionRows db userID now = (let candidates = filter (\<lambda>r. rt_UserID r = userID \<and> rt_RevokedAt r = None \<and>
       now - expiryPrefilterSlack < rt_ExpiresAt r) (ad_tokens db) in
     sortSessions (filter (\<lambda>r. now < rt_ExpiresAt r) candidates))"

definition maxChainHops :: int where "maxChainHops = 1000"

text \<open>The loop of \<open>sessionChain\<close>.\<close>

function chainWalk :: "auth_db \<Rightarrow> nat \<Rightarrow> int \<Rightarrow> nat \<Rightarrow> nat list \<Rightarrow> nat list \<Rightarrow> RefreshToken option \<Rightarrow> nat list \<times> RefreshToken option" where
  "chainWalk db userID hop next seen ids lst = (if \<not> hop < maxChainHops then (ids, lst)
     else (case find (\<lambda>r. rt_ID r = next \<and> rt_UserID r = userID) (ad_tokens db) of
         None \<Rightarrow> (ids, lst)
       | Some row \<Rightarrow> (case rt_ReplacedBy row of
             None \<Rightarrow> (ids, Some row)
           | Some k \<Rightarrow> if k \<in> set seen then (ids, Some row)
               else chainWalk db userID (hop + 1) k (k # seen) (ids @ [k]) (Some row))))"
  by pat_completeness auto
termination
  by (relation "measure (\<lambda>(_, _, hop, _). nat (maxChainHops - hop))") auto

declare chainWalk.simps [simp del]

definition sessionChain :: "auth_db \<Rightarrow> nat \<Rightarrow> nat \<Rightarrow> nat list \<times> RefreshToken option" where
  "sessionChain db userID fromID = chainWalk db userID 0 fromID [fromID] [fromID] None"

definition sessionRow :: "auth_db \<Rightarrow> nat \<Rightarrow> nat \<Rightarrow> RefreshToken list \<Rightarrow> nat" where
  "sessionRow db userID rid rows = (if rid \<in> set (map rt_ID rows) then rid
     else (case find (\<lambda>i. i \<in> set (map rt_ID rows)) (fst (sessionChain db userID rid)) of None \<Rightarrow> 0 | Some i \<Rightarrow> i))"

definition requesterChain :: "auth_db \<Rightarrow> nat \<Rightarrow> nat \<Rightarrow> gotime \<Rightarrow> auth_error + nat list" where
  "requesterChain db userID rid now = (case sessionChain db userID rid of
       (ids, None) \<Rightarrow> Inl ErrSessionEnded
     | (ids, Some head) \<Rightarrow> if rt_RevokedAt head \<noteq> None \<or> \<not> now < rt_ExpiresAt head then Inl ErrSessionEnded else Inr ids)"

definition revokeOtherSessionsTx :: "auth_db \<Rightarrow> nat \<Rightarrow> nat \<Rightarrow> gotime \<Rightarrow> auth_error + auth_db" where
  "revokeOtherSessionsTx db userID keepID now = (case requesterChain db userID keepID now of
       Inl e \<Rightarrow> Inl e | Inr keepIDs \<Rightarrow> Inr (revokeSessionsButTx userID keepIDs now db))"

definition revokeOtherSessions :: "auth_db \<Rightarrow> nat \<Rightarrow> nat \<Rightarrow> gotime \<Rightarrow> unit auth_result" where
  "revokeOtherSessions db userID keepID now = (case lockUserTx db userID of
       Inl _ \<Rightarrow> (Inl ErrSessionNotFound, db)
     | Inr _ \<Rightarrow> (case revokeOtherSessionsTx db userID keepID now of
           Inl e \<Rightarrow> (Inl e, db) | Inr db' \<Rightarrow> (Inr (), Audit (AuditSessionRevoked ''others'') (Some userID) db')))"

text \<open>\<open>requester\<close> is 0 when no request's session is behind the call.\<close>

definition revokeSessionAs :: "auth_env \<Rightarrow> auth_db \<Rightarrow> nat \<Rightarrow> nat \<Rightarrow> string \<Rightarrow> gotime \<Rightarrow> gotime \<Rightarrow> bool auth_result" where
  "revokeSessionAs env db userID requester i now now' = (case lockUserTx db userID of
       Inl _ \<Rightarrow> (Inl ErrSessionNotFound, db)
     | Inr _ \<Rightarrow>
         (let rows = activeSessionRows db userID now;
              own = (if requester = 0 then 0 else sessionRow db userID requester rows) in
          if requester \<noteq> 0 \<and> own = 0 then (Inl ErrSessionEnded, db)
          else (case find (\<lambda>r. sessionID env (rt_ID r) = i) rows of
              None \<Rightarrow> (Inl ErrSessionNotFound, db)
            | Some row \<Rightarrow>
                if rowsWhere (\<lambda>r. rt_ID r = rt_ID row \<and> rt_RevokedAt r = None) (ad_tokens db) = 0
                then (Inl ErrSessionNotFound, db)
                else (Inr (rt_ID row = own), Audit (AuditSessionRevoked ''one'') (Some userID)
                  (revokeWhere (\<lambda>r. rt_ID r = rt_ID row) now' db)))))"

definition revokeAllSessionsAs :: "auth_db \<Rightarrow> nat \<Rightarrow> nat \<Rightarrow> gotime \<Rightarrow> unit auth_result" where
  "revokeAllSessionsAs db userID requester now = (case lockUserTx db userID of
       Inl _ \<Rightarrow> (Inl ErrSessionNotFound, db)
     | Inr _ \<Rightarrow> (case (if requester = 0 then Inr [] else requesterChain db userID requester now) of
           Inl e \<Rightarrow> (Inl e, db)
         | Inr _ \<Rightarrow> (Inr (), Audit (AuditSessionRevoked ''all'') (Some userID) (revokeAllTx userID now db))))"

record AuthSession =
  as_ID :: string
  as_LastRefreshedAt :: gotime
  as_ExpiresAt :: gotime
  as_Current :: bool

text \<open>\<open>rid\<close> is the request's session, 0 for none.\<close>

definition currentSessionRow :: "auth_db \<Rightarrow> nat \<Rightarrow> nat \<Rightarrow> RefreshToken list \<Rightarrow> nat" where
  "currentSessionRow db userID rid rows = (if rid = 0 then 0 else sessionRow db userID rid rows)"

definition ListSessions :: "auth_env \<Rightarrow> auth_db \<Rightarrow> nat \<Rightarrow> nat \<Rightarrow> gotime \<Rightarrow> AuthSession list" where
  "ListSessions env db userID rid now = (let rows = activeSessionRows db userID now;
       current = currentSessionRow db userID rid rows in
     map (\<lambda>r. \<lparr>as_ID = sessionID env (rt_ID r), as_LastRefreshedAt = rt_CreatedAt r, as_ExpiresAt = rt_ExpiresAt r,
        as_Current = (rt_ID r = current)\<rparr>) rows)"

end
