(* ===== verification/Auth_OneTime.thy ===== *)
theory Auth_OneTime
  imports Auth_Sessions
begin

section \<open>Accounts: mailed links and the account lifecycle\<close>

text \<open>
  One-time tokens and what they are for (\<open>auth/onetime.go\<close>, \<open>auth/verification.go\<close>,
  \<open>auth/password.go\<close>, \<open>auth/password_change.go\<close>, \<open>auth/email_change.go\<close>,
  \<open>auth/account_state.go\<close>). Sending a link is three steps, the row written pending, the mail, the
  activation, between which other requests run; each is a definition, and \<open>sendOneTimeToken\<close> composes
  them with the mailer's answer as an argument. Using a link reads its row before the user's lock is
  taken; the definitions named \<open>...Locked\<close> are what happens under the lock, on the row as it was read.
  The throttle in front of these operations and the messages' text are not part of this theory.
\<close>

subsection \<open>Sending\<close>

definition resendInterval :: duration where "resendInterval = Minute"

record oneTimeFlow =
  of_purpose :: TokenPurpose
  of_ttl :: duration
  of_check :: "auth_db \<Rightarrow> User \<Rightarrow> auth_error option"
  of_to :: string

fun pickFirst :: "('r \<Rightarrow> 'r \<Rightarrow> bool) \<Rightarrow> 'r list \<Rightarrow> 'r option" where
  "pickFirst before [] = None"
| "pickFirst before (x # xs) = (case pickFirst before xs of None \<Rightarrow> Some x
     | Some y \<Rightarrow> Some (if before y x then y else x))"

definition sentInstant :: "OneTimeToken \<Rightarrow> gotime" where
  "sentInstant t = (case ot_SentAt t of None \<Rightarrow> 0 | Some s \<Rightarrow> s)"

definition sentLater :: "OneTimeToken \<Rightarrow> OneTimeToken \<Rightarrow> bool" where
  "sentLater a b \<longleftrightarrow> sentInstant b < sentInstant a \<or> sentInstant a = sentInstant b \<and> ot_ID b < ot_ID a"

definition oneTimeWait :: "auth_db \<Rightarrow> nat \<Rightarrow> TokenPurpose \<Rightarrow> gotime \<Rightarrow> duration" where
  "oneTimeWait db userID purpose now = (let
       own = filter (\<lambda>t. ot_UserID t = userID \<and> ot_Purpose t = purpose) (ad_links db);
       sent = pickFirst sentLater (filter (\<lambda>t. ot_SentAt t \<noteq> None) own);
       pending = pickFirst (\<lambda>a b. ot_ID b < ot_ID a) (filter (\<lambda>t. ot_SentAt t = None) own);
       w0 = (case sent of None \<Rightarrow> 0 | Some t \<Rightarrow> resendInterval - (now - sentInstant t));
       w1 = (case pending of None \<Rightarrow> w0 | Some t \<Rightarrow> max w0 (resendInterval - (now - ot_CreatedAt t))) in
     max w1 0)"

definition hashOpaqueToken :: "auth_env \<Rightarrow> string \<Rightarrow> string" where
  "hashOpaqueToken env raw = ev_sha256 env raw"

definition issueOneTimeToken :: "auth_env \<Rightarrow> auth_db \<Rightarrow> User \<Rightarrow> oneTimeFlow \<Rightarrow> string \<Rightarrow> gotime \<Rightarrow> OneTimeToken auth_result" where
  "issueOneTimeToken env db user f raw now = (case lockUserTx db (us_ID user) of
       Inl _ \<Rightarrow> (Inl ErrUserNotFound, db)
     | Inr locked \<Rightarrow>
         if Disabled locked then (Inl ErrAccountDisabled, db)
         else (case of_check f db locked of Some e \<Rightarrow> (Inl e, db)
         | None \<Rightarrow>
           (let wait = oneTimeWait db (us_ID locked) (of_purpose f) now;
                token = \<lparr>ot_ID = ad_nextLink db, ot_UserID = us_ID locked, ot_Purpose = of_purpose f,
                  ot_TokenHash = hashOpaqueToken env raw, ot_Email = (if of_to f = '''' then us_Email locked else of_to f),
                  ot_FromEmail = us_Email locked, ot_ExpiresAt = now + of_ttl f, ot_SentAt = None, ot_UsedAt = None,
                  ot_CreatedAt = now\<rparr> in
            if 0 < wait then (Inl (ErrResendTooSoon wait), db)
            else if list_ex (\<lambda>t. ot_TokenHash t = ot_TokenHash token) (ad_links db) then (Inl ErrDuplicateHash, db)
            else (Inr token, db\<lparr>ad_links := ad_links db @ [token], ad_nextLink := ad_nextLink db + 1\<rparr>))))"

definition activateToken :: "auth_db \<Rightarrow> OneTimeToken \<Rightarrow> gotime \<Rightarrow> unit auth_result" where
  "activateToken db token now = (case lockUserTx db (ot_UserID token) of
       Inl e \<Rightarrow> (Inl e, db)
     | Inr _ \<Rightarrow>
         (let P = (\<lambda>t. ot_ID t = ot_ID token \<and> ot_SentAt t = None \<and> ot_UsedAt t = None) in
          if rowsWhere P (ad_links db) \<noteq> 1 then (Inl ErrTokenNotPending, db)
          else (Inr (), supersedeTokensTx (ot_UserID token) (ot_Purpose token) (ot_ID token) now
            (db\<lparr>ad_links := updateRows P (\<lambda>t. t\<lparr>ot_SentAt := Some now\<rparr>) (ad_links db)\<rparr>))))"

definition withdrawToken :: "auth_db \<Rightarrow> OneTimeToken \<Rightarrow> auth_db" where
  "withdrawToken db token = db\<lparr>ad_links := filter (\<lambda>t. \<not> (ot_ID t = ot_ID token \<and> ot_SentAt t = None)) (ad_links db)\<rparr>"

text \<open>\<open>mail\<close> is the mailer's answer, \<open>None\<close> for a message it took.\<close>

definition sendOneTimeToken :: "auth_env \<Rightarrow> auth_db \<Rightarrow> User \<Rightarrow> oneTimeFlow \<Rightarrow> string \<Rightarrow> auth_error option \<Rightarrow> gotime \<Rightarrow> gotime \<Rightarrow> unit auth_result" where
  "sendOneTimeToken env db user f raw mail now now' = (case issueOneTimeToken env db user f raw now of
       (Inl e, db') \<Rightarrow> (Inl e, db')
     | (Inr token, db') \<Rightarrow> (case mail of
           Some e \<Rightarrow> (Inl (if e = ErrNoMailer then e else ErrMailNotSent), withdrawToken db' token)
         | None \<Rightarrow> (case activateToken db' token now' of
               (Inl e, db'') \<Rightarrow> (Inl e, withdrawToken db'' token)
             | (Inr _, db'') \<Rightarrow> (Inr (), db''))))"

subsection \<open>Using a link\<close>

definition readLink :: "auth_env \<Rightarrow> auth_db \<Rightarrow> string \<Rightarrow> TokenPurpose \<Rightarrow> OneTimeToken option" where
  "readLink env db raw purpose = find (\<lambda>t. ot_TokenHash t = hashOpaqueToken env raw \<and> ot_Purpose t = purpose) (ad_links db)"

definition linkFrom :: "OneTimeToken \<Rightarrow> string" where
  "linkFrom t = (if ot_FromEmail t = '''' then ot_Email t else ot_FromEmail t)"

definition consumeOneTimeToken :: "auth_db \<Rightarrow> OneTimeToken \<Rightarrow> gotime \<Rightarrow> User auth_result" where
  "consumeOneTimeToken db token now = (case lockUserTx db (ot_UserID token) of
       Inl _ \<Rightarrow> (Inl ErrInvalidOneTimeToken, db)
     | Inr locked \<Rightarrow>
         (let P = (\<lambda>t. ot_ID t = ot_ID token \<and> ot_SentAt t \<noteq> None \<and> ot_UsedAt t = None) in
          if Disabled locked then (Inl ErrInvalidOneTimeToken, db)
          else if ot_SentAt token = None \<or> ot_UsedAt token \<noteq> None \<or> \<not> now < ot_ExpiresAt token
          then (Inl ErrInvalidOneTimeToken, db)
          else if rowsWhere P (ad_links db) \<noteq> 1 then (Inl ErrInvalidOneTimeToken, db)
          else if us_Email locked \<noteq> linkFrom token then (Inl ErrInvalidOneTimeToken, db)
          else (Inr locked, db\<lparr>ad_links := updateRows P (\<lambda>t. t\<lparr>ot_UsedAt := Some now\<rparr>) (ad_links db)\<rparr>)))"

subsection \<open>Email verification (auth/verification.go)\<close>

definition DefaultEmailVerificationTTL :: duration where "DefaultEmailVerificationTTL = 24 * Hour"

definition verificationTTL :: "auth_env \<Rightarrow> duration" where
  "verificationTTL env = (if 0 < cf_EmailVerificationTTL (ev_cfg env) then cf_EmailVerificationTTL (ev_cfg env)
     else DefaultEmailVerificationTTL)"

definition verificationFlow :: "auth_env \<Rightarrow> oneTimeFlow" where
  "verificationFlow env = \<lparr>of_purpose = PurposeVerifyEmail, of_ttl = verificationTTL env,
     of_check = (\<lambda>_ u. if EmailVerified env u then Some ErrAlreadyVerified else None), of_to = ''''\<rparr>"

definition verifyLocked :: "auth_env \<Rightarrow> auth_db \<Rightarrow> OneTimeToken \<Rightarrow> gotime \<Rightarrow> User auth_result" where
  "verifyLocked env db token now = (case consumeOneTimeToken db token now of
       (Inl e, _) \<Rightarrow> (Inl e, db)
     | (Inr locked, db') \<Rightarrow>
         (let f = (\<lambda>u. u\<lparr>us_EmailVerifiedAt := Some now, us_VerifiedEmail := ot_Email token\<rparr>) in
          if EmailVerified env locked then (Inr locked, Audit AuditEmailVerified (Some (us_ID locked)) db')
          else (Inr (f locked), Audit AuditEmailVerified (Some (us_ID locked)) (updateUser (us_ID locked) f db'))))"

definition consumeVerification :: "auth_env \<Rightarrow> auth_db \<Rightarrow> string \<Rightarrow> gotime \<Rightarrow> User auth_result" where
  "consumeVerification env db raw0 now = (let raw = TrimSpace raw0 in
     if raw = '''' then (Inl ErrInvalidOneTimeToken, db)
     else (case readLink env db raw PurposeVerifyEmail of None \<Rightarrow> (Inl ErrInvalidOneTimeToken, db)
       | Some token \<Rightarrow> verifyLocked env db token now))"

subsection \<open>Password reset (auth/password.go)\<close>

definition DefaultPasswordResetTTL :: duration where "DefaultPasswordResetTTL = Hour"

definition passwordResetTTL :: "auth_env \<Rightarrow> duration" where
  "passwordResetTTL env = (if 0 < cf_PasswordResetTTL (ev_cfg env) then cf_PasswordResetTTL (ev_cfg env)
     else DefaultPasswordResetTTL)"

definition resetFlow :: "auth_env \<Rightarrow> oneTimeFlow" where
  "resetFlow env = \<lparr>of_purpose = PurposeResetPassword, of_ttl = passwordResetTTL env, of_check = (\<lambda>_ _. None), of_to = ''''\<rparr>"

definition RequestPasswordReset :: "auth_env \<Rightarrow> auth_db \<Rightarrow> string \<Rightarrow> string \<Rightarrow> auth_error option \<Rightarrow> gotime \<Rightarrow> gotime \<Rightarrow> unit auth_result" where
  "RequestPasswordReset env db email0 raw mail now now' = (let email = normalizeEmail env email0 in
     if email = '''' then (Inr (), db)
     else (case findUserByEmail env db email of None \<Rightarrow> (Inr (), db)
     | Some user \<Rightarrow>
         if Disabled user then (Inr (), db)
         else (case sendOneTimeToken env db user (resetFlow env) raw mail now now' of
             (Inl e, db') \<Rightarrow> (Inl e, db')
           | (Inr _, db') \<Rightarrow> (Inr (), Audit AuditPasswordResetRequested (Some (us_ID user)) db'))))"

definition resetTokenMayWork :: "auth_env \<Rightarrow> auth_db \<Rightarrow> string \<Rightarrow> gotime \<Rightarrow> bool" where
  "resetTokenMayWork env db raw now = (case readLink env db raw PurposeResetPassword of
       None \<Rightarrow> False
     | Some token \<Rightarrow>
         if ot_SentAt token = None \<or> ot_UsedAt token \<noteq> None \<or> \<not> now < ot_ExpiresAt token then False
         else (case userByID db (ot_UserID token) of None \<Rightarrow> False | Some user \<Rightarrow> us_Email user = ot_Email token))"

definition resetLocked :: "auth_env \<Rightarrow> auth_db \<Rightarrow> OneTimeToken \<Rightarrow> string \<Rightarrow> gotime \<Rightarrow> User auth_result" where
  "resetLocked env db token hash now = (case consumeOneTimeToken db token now of
       (Inl e, _) \<Rightarrow> (Inl e, db)
     | (Inr locked, db') \<Rightarrow>
         (let f = (\<lambda>u. u\<lparr>us_PasswordHash := hash\<rparr>);
              revoke = (\<not> cf_PasswordResetKeepSessions (ev_cfg env));
              db1 = voidPasswordBoundTokensTx (us_ID locked) (ot_ID token) now (updateUser (us_ID locked) f db');
              db2 = (if revoke then revokeAllTx (us_ID locked) now db1 else db1) in
          (Inr (f locked), Audit (AuditPasswordReset revoke) (Some (us_ID locked)) db2)))"

definition consumeReset :: "auth_env \<Rightarrow> auth_db \<Rightarrow> string \<Rightarrow> string \<Rightarrow> gotime \<Rightarrow> gotime \<Rightarrow> User auth_result" where
  "consumeReset env db raw0 password now now' = (let raw = TrimSpace raw0 in
     if raw = '''' then (Inl ErrInvalidOneTimeToken, db)
     else if \<not> resetTokenMayWork env db raw now then (Inl ErrInvalidOneTimeToken, db)
     else (case checkNewPassword password ''password'' of Some e \<Rightarrow> (Inl e, db)
     | None \<Rightarrow> (case hashPassword env password of Inl e \<Rightarrow> (Inl e, db)
     | Inr hash \<Rightarrow> (case readLink env db raw PurposeResetPassword of None \<Rightarrow> (Inl ErrInvalidOneTimeToken, db)
     | Some token \<Rightarrow> resetLocked env db token hash now'))))"

subsection \<open>Password change (auth/password\_change.go)\<close>

text \<open>\<open>user\<close> is the snapshot whose password was checked, \<open>requester\<close> the request's session, 0 for none.\<close>

definition changePasswordLocked :: "auth_db \<Rightarrow> User \<Rightarrow> nat \<Rightarrow> string \<Rightarrow> bool \<Rightarrow> gotime \<Rightarrow> bool auth_result" where
  "changePasswordLocked db user requester hash keepOther now = (case lockUserTx db (us_ID user) of
       Inl _ \<Rightarrow> (Inl ErrUserNotFound, db)
     | Inr locked \<Rightarrow>
         if Disabled locked then (Inl ErrAccountDisabled, db)
         else if us_PasswordHash locked \<noteq> us_PasswordHash user then (Inl ErrPasswordChanged, db)
         else (case (if requester = 0 then Inr [] else requesterChain db (us_ID user) requester now) of
             Inl e \<Rightarrow> (Inl e, db)
           | Inr keep \<Rightarrow>
               (let db1 = voidPasswordBoundTokensTx (us_ID user) 0 now
                      (updateUser (us_ID user) (\<lambda>u. u\<lparr>us_PasswordHash := hash\<rparr>) db);
                    db2 = (if keepOther then db1
                      else if keep \<noteq> [] then revokeSessionsButTx (us_ID user) keep now db1
                      else revokeAllTx (us_ID user) now db1) in
                (Inr (\<not> keepOther), Audit (AuditPasswordChanged (\<not> keepOther)) (Some (us_ID user)) db2))))"

definition ChangePassword :: "auth_env \<Rightarrow> auth_db \<Rightarrow> nat \<Rightarrow> nat \<Rightarrow> string \<Rightarrow> string \<Rightarrow> bool \<Rightarrow> gotime \<Rightarrow> bool auth_result" where
  "ChangePassword env db userID requester current newPassword keepOther now = (case userByID db userID of
       None \<Rightarrow> (Inl ErrUserNotFound, db)
     | Some user \<Rightarrow> (case checkNewPassword newPassword ''new_password'' of Some e \<Rightarrow> (Inl e, db)
     | None \<Rightarrow>
         if \<not> ev_compare env (us_PasswordHash user) current
         then (Inl ErrWrongCurrentPassword, Audit (AuditPasswordChangeFailed ''wrong_current_password'') (Some (us_ID user)) db)
         else (case hashPassword env newPassword of Inl e \<Rightarrow> (Inl e, db)
           | Inr hash \<Rightarrow> changePasswordLocked db user requester hash keepOther now)))"

subsection \<open>Email change (auth/email\_change.go)\<close>

definition emailChangeFlow :: "auth_env \<Rightarrow> User \<Rightarrow> string \<Rightarrow> oneTimeFlow" where
  "emailChangeFlow env user newEmail = \<lparr>of_purpose = PurposeChangeEmail, of_ttl = verificationTTL env,
     of_check = (\<lambda>db locked. if us_PasswordHash locked \<noteq> us_PasswordHash user then Some ErrPasswordChanged
       else if us_Email locked \<noteq> us_Email user then Some ErrEmailChangedMeanwhile
       else if 0 < rowsWhere (\<lambda>u. us_Email u = newEmail) (ad_users db) then Some ErrEmailTaken else None),
     of_to = newEmail\<rparr>"

definition RequestEmailChange :: "auth_env \<Rightarrow> auth_db \<Rightarrow> nat \<Rightarrow> string \<Rightarrow> string \<Rightarrow> string \<Rightarrow> auth_error option \<Rightarrow> gotime \<Rightarrow> gotime \<Rightarrow> unit auth_result" where
  "RequestEmailChange env db userID current newEmail0 raw mail now now' = (let newEmail = normalizeEmail env newEmail0 in
     if \<not> validEmail env newEmail then (Inl ErrInvalidEmail, db)
     else (case userByID db userID of None \<Rightarrow> (Inl ErrUserNotFound, db)
     | Some user \<Rightarrow>
         if newEmail = us_Email user then (Inl ErrEmailUnchanged, db)
         else if \<not> ev_compare env (us_PasswordHash user) current
         then (Inl ErrWrongCurrentPassword, Audit (AuditEmailChangeFailed ''wrong_current_password'') (Some (us_ID user)) db)
         else (case sendOneTimeToken env db user (emailChangeFlow env user newEmail) raw mail now now' of
             (Inl e, db') \<Rightarrow> (Inl e, db')
           | (Inr _, db') \<Rightarrow> (Inr (), Audit AuditEmailChangeRequested (Some (us_ID user)) db'))))"

definition emailChangeLocked :: "auth_db \<Rightarrow> OneTimeToken \<Rightarrow> gotime \<Rightarrow> User auth_result" where
  "emailChangeLocked db token now = (case consumeOneTimeToken db token now of
       (Inl e, _) \<Rightarrow> (Inl e, db)
     | (Inr locked, db') \<Rightarrow>
         (let f = (\<lambda>u. u\<lparr>us_Email := ot_Email token, us_EmailVerifiedAt := Some now, us_VerifiedEmail := ot_Email token\<rparr>) in
          if list_ex (\<lambda>u. us_Email u = ot_Email token \<and> us_ID u \<noteq> us_ID locked) (ad_users db') then (Inl ErrEmailTaken, db)
          else (Inr (f locked), Audit AuditEmailChanged (Some (us_ID locked))
            (voidTokensTx (us_ID locked) (ot_ID token) now [] (updateUser (us_ID locked) f db')))))"

definition consumeEmailChange :: "auth_env \<Rightarrow> auth_db \<Rightarrow> string \<Rightarrow> gotime \<Rightarrow> User auth_result" where
  "consumeEmailChange env db raw0 now = (let raw = TrimSpace raw0 in
     if raw = '''' then (Inl ErrInvalidOneTimeToken, db)
     else (case readLink env db raw PurposeChangeEmail of None \<Rightarrow> (Inl ErrInvalidOneTimeToken, db)
       | Some token \<Rightarrow> emailChangeLocked db token now))"

subsection \<open>Disabling and enabling (auth/account\_state.go)\<close>

definition setUserState :: "auth_db \<Rightarrow> nat \<Rightarrow> bool \<Rightarrow> (User \<Rightarrow> auth_error option) \<Rightarrow> gotime \<Rightarrow> User auth_result" where
  "setUserState db userID disable check now = (case lockUserTx db userID of
       Inl _ \<Rightarrow> (Inl ErrUserNotFound, db)
     | Inr locked \<Rightarrow> (case check locked of Some e \<Rightarrow> (Inl e, db)
     | None \<Rightarrow>
         if Disabled locked = disable then (Inr locked, db)
         else if \<not> disable
         then (Inr (locked\<lparr>us_DisabledAt := None\<rparr>), Audit AuditUserEnabled (Some userID)
           (updateUser userID (\<lambda>u. u\<lparr>us_DisabledAt := None\<rparr>) db))
         else (Inr (locked\<lparr>us_DisabledAt := Some now\<rparr>), Audit AuditUserDisabled (Some userID)
           (voidTokensTx userID 0 now [] (revokeAllTx userID now
             (updateUser userID (\<lambda>u. u\<lparr>us_DisabledAt := Some now\<rparr>) db))))))"

definition DisableUser :: "auth_db \<Rightarrow> nat \<Rightarrow> gotime \<Rightarrow> User auth_result" where
  "DisableUser db userID now = setUserState db userID True (\<lambda>_. None) now"

definition EnableUser :: "auth_db \<Rightarrow> nat \<Rightarrow> gotime \<Rightarrow> User auth_result" where
  "EnableUser db userID now = setUserState db userID False (\<lambda>_. None) now"

end
