(* ===== verification/Auth_System.thy ===== *)
theory Auth_System
  imports Auth_OneTime
begin

section \<open>Accounts: the running system\<close>

text \<open>
  Any number of requests against one database. A request reads rows before it takes the user's lock
  and works with what it read afterwards; \<open>auth_sys\<close> keeps, beside the database, every row that was
  read so far, and a locked section may use any of them, however old. Each transaction under the
  user's lock, and each single statement outside one, is one step of \<open>auth_step\<close>; the clock readings
  of the steps are arbitrary. \<open>auth_ok\<close> is what holds of the tables, and \<open>db_later\<close> how they may
  change: a revoked refresh token row is never touched again, a used link stays used.
\<close>

record auth_sys =
  sy_db :: auth_db
  sy_tokens :: "RefreshToken list"
  sy_links :: "OneTimeToken list"
  sy_users :: "User list"

definition on_db :: "auth_sys \<Rightarrow> auth_db \<Rightarrow> auth_sys" where
  "on_db s db = s\<lparr>sy_db := db\<rparr>"

text \<open>The flows that mail a link to a user read as \<open>u\<close>.\<close>

inductive flowOf :: "auth_env \<Rightarrow> User \<Rightarrow> oneTimeFlow \<Rightarrow> bool" for env u where
  flow_verification: "flowOf env u (verificationFlow env)"
| flow_reset: "flowOf env u (resetFlow env)"
| flow_email_change: "flowOf env u (emailChangeFlow env u newEmail)"

inductive auth_step :: "auth_env \<Rightarrow> auth_sys \<Rightarrow> auth_sys \<Rightarrow> bool" for env where
  as_read_token: "r \<in> set (ad_tokens (sy_db s)) \<Longrightarrow> auth_step env s (s\<lparr>sy_tokens := r # sy_tokens s\<rparr>)"
| as_read_link: "t \<in> set (ad_links (sy_db s)) \<Longrightarrow> auth_step env s (s\<lparr>sy_links := t # sy_links s\<rparr>)"
| as_read_user: "u \<in> set (ad_users (sy_db s)) \<Longrightarrow> auth_step env s (s\<lparr>sy_users := u # sy_users s\<rparr>)"
| as_audit: "auth_step env s (on_db s (Audit action target (sy_db s)))"
| as_create: "auth_step env s (on_db s (snd (createUser env (sy_db s) email password superuser now)))"
| as_start: "u \<in> set (sy_users s) \<Longrightarrow> auth_step env s (on_db s (snd (startSession env (sy_db s) u raw now)))"
| as_rotate: "r \<in> set (sy_tokens s) \<Longrightarrow> auth_step env s (on_db s (snd (rotateLocked env (sy_db s) r raw now)))"
| as_logout: "r \<in> set (sy_tokens s) \<Longrightarrow> auth_step env s (on_db s (logoutRow (sy_db s) r now))"
| as_revoke_one: "auth_step env s (on_db s (snd (revokeSessionAs env (sy_db s) userID requester i now now')))"
| as_revoke_all: "auth_step env s (on_db s (snd (revokeAllSessionsAs (sy_db s) userID requester now)))"
| as_revoke_others: "auth_step env s (on_db s (snd (revokeOtherSessions (sy_db s) userID keepID now)))"
| as_issue: "u \<in> set (sy_users s) \<Longrightarrow> flowOf env u f \<Longrightarrow> issueOneTimeToken env (sy_db s) u f raw now = (Inr t, db') \<Longrightarrow>
    auth_step env s ((on_db s db')\<lparr>sy_links := t # sy_links s\<rparr>)"
| as_activate: "t \<in> set (sy_links s) \<Longrightarrow> auth_step env s (on_db s (snd (activateToken (sy_db s) t now)))"
| as_withdraw: "t \<in> set (sy_links s) \<Longrightarrow> auth_step env s (on_db s (withdrawToken (sy_db s) t))"
| as_verify: "t \<in> set (sy_links s) \<Longrightarrow> auth_step env s (on_db s (snd (verifyLocked env (sy_db s) t now)))"
| as_reset: "t \<in> set (sy_links s) \<Longrightarrow> auth_step env s (on_db s (snd (resetLocked env (sy_db s) t hash now)))"
| as_change_password: "u \<in> set (sy_users s) \<Longrightarrow>
    auth_step env s (on_db s (snd (changePasswordLocked (sy_db s) u requester hash keepOther now)))"
| as_change_email: "t \<in> set (sy_links s) \<Longrightarrow> auth_step env s (on_db s (snd (emailChangeLocked (sy_db s) t now)))"
| as_state: "auth_step env s (on_db s (snd (setUserState (sy_db s) userID disable check now)))"

definition init_db :: auth_db where
  "init_db = \<lparr>ad_users = [], ad_tokens = [], ad_links = [], ad_nextUser = 1, ad_nextToken = 1, ad_nextLink = 1, ad_audit = []\<rparr>"

definition init_sys :: auth_sys where
  "init_sys = \<lparr>sy_db = init_db, sy_tokens = [], sy_links = [], sy_users = []\<rparr>"

definition auth_reachable :: "auth_env \<Rightarrow> auth_sys \<Rightarrow> bool" where
  "auth_reachable env s \<longleftrightarrow> (auth_step env)\<^sup>*\<^sup>* init_sys s"

subsection \<open>Well-formed tables\<close>

definition users_ok :: "User list \<Rightarrow> nat \<Rightarrow> bool" where
  "users_ok us n \<longleftrightarrow> 0 < n \<and> distinct (map us_ID us) \<and> distinct (map us_Email us) \<and> (\<forall>u\<in>set us. 0 < us_ID u \<and> us_ID u < n)"

definition successor_ok :: "RefreshToken list \<Rightarrow> RefreshToken \<Rightarrow> bool" where
  "successor_ok ts r \<longleftrightarrow> (\<forall>k. rt_ReplacedBy r = Some k \<longrightarrow> rt_RevokedAt r \<noteq> None \<and> rt_ID r < k \<and>
     (\<exists>r'\<in>set ts. rt_ID r' = k \<and> rt_UserID r' = rt_UserID r))"

definition replaced_once :: "RefreshToken list \<Rightarrow> bool" where
  "replaced_once ts \<longleftrightarrow> (\<forall>r\<in>set ts. \<forall>r'\<in>set ts. rt_ReplacedBy r \<noteq> None \<longrightarrow> rt_ReplacedBy r = rt_ReplacedBy r' \<longrightarrow> rt_ID r = rt_ID r')"

definition tokens_ok :: "RefreshToken list \<Rightarrow> nat \<Rightarrow> bool" where
  "tokens_ok ts n \<longleftrightarrow> 0 < n \<and> distinct (map rt_ID ts) \<and> distinct (map rt_TokenHash ts) \<and>
     (\<forall>r\<in>set ts. 0 < rt_ID r \<and> rt_ID r < n) \<and> (\<forall>r\<in>set ts. successor_ok ts r) \<and> replaced_once ts"

definition liveLink :: "OneTimeToken \<Rightarrow> bool" where
  "liveLink t \<longleftrightarrow> ot_SentAt t \<noteq> None \<and> ot_UsedAt t = None"

definition live_once :: "OneTimeToken list \<Rightarrow> bool" where
  "live_once ls \<longleftrightarrow> (\<forall>t\<in>set ls. \<forall>t'\<in>set ls. liveLink t \<longrightarrow> liveLink t' \<longrightarrow> ot_UserID t = ot_UserID t' \<longrightarrow>
     ot_Purpose t = ot_Purpose t' \<longrightarrow> ot_ID t = ot_ID t')"

definition links_ok :: "OneTimeToken list \<Rightarrow> nat \<Rightarrow> bool" where
  "links_ok ls n \<longleftrightarrow> 0 < n \<and> distinct (map ot_ID ls) \<and> distinct (map ot_TokenHash ls) \<and>
     (\<forall>t\<in>set ls. 0 < ot_ID t \<and> ot_ID t < n) \<and> live_once ls"

definition owners_ok :: "User list \<Rightarrow> RefreshToken list \<Rightarrow> OneTimeToken list \<Rightarrow> bool" where
  "owners_ok us ts ls \<longleftrightarrow> rt_UserID ` set ts \<subseteq> us_ID ` set us \<and> ot_UserID ` set ls \<subseteq> us_ID ` set us"

definition shut :: "nat \<Rightarrow> RefreshToken list \<Rightarrow> OneTimeToken list \<Rightarrow> bool" where
  "shut i ts ls \<longleftrightarrow> (\<forall>r\<in>set ts. rt_UserID r = i \<longrightarrow> rt_RevokedAt r \<noteq> None) \<and>
     (\<forall>t\<in>set ls. ot_UserID t = i \<longrightarrow> ot_UsedAt t \<noteq> None)"

definition disabled_ok :: "User list \<Rightarrow> RefreshToken list \<Rightarrow> OneTimeToken list \<Rightarrow> bool" where
  "disabled_ok us ts ls \<longleftrightarrow> (\<forall>u\<in>set us. Disabled u \<longrightarrow> shut (us_ID u) ts ls)"

definition auth_ok :: "auth_db \<Rightarrow> bool" where
  "auth_ok db \<longleftrightarrow> users_ok (ad_users db) (ad_nextUser db) \<and> tokens_ok (ad_tokens db) (ad_nextToken db) \<and>
     links_ok (ad_links db) (ad_nextLink db) \<and> owners_ok (ad_users db) (ad_tokens db) (ad_links db) \<and>
     disabled_ok (ad_users db) (ad_tokens db) (ad_links db)"

subsection \<open>How the tables change\<close>

definition row_later :: "RefreshToken \<Rightarrow> RefreshToken \<Rightarrow> bool" where
  "row_later r r' \<longleftrightarrow> rt_ID r' = rt_ID r \<and> rt_UserID r' = rt_UserID r \<and> rt_TokenHash r' = rt_TokenHash r \<and>
     rt_ExpiresAt r' = rt_ExpiresAt r \<and> rt_CreatedAt r' = rt_CreatedAt r \<and> (rt_RevokedAt r \<noteq> None \<longrightarrow> r' = r)"

definition link_later :: "OneTimeToken \<Rightarrow> OneTimeToken \<Rightarrow> bool" where
  "link_later t t' \<longleftrightarrow> ot_ID t' = ot_ID t \<and> ot_UserID t' = ot_UserID t \<and> ot_Purpose t' = ot_Purpose t \<and>
     ot_TokenHash t' = ot_TokenHash t \<and> ot_Email t' = ot_Email t \<and> ot_FromEmail t' = ot_FromEmail t \<and>
     ot_ExpiresAt t' = ot_ExpiresAt t \<and> (ot_SentAt t \<noteq> None \<longrightarrow> ot_SentAt t' = ot_SentAt t) \<and>
     (ot_UsedAt t \<noteq> None \<longrightarrow> t' = t)"

definition tokens_later :: "RefreshToken list \<Rightarrow> RefreshToken list \<Rightarrow> bool" where
  "tokens_later ts ts' \<longleftrightarrow> (\<forall>r\<in>set ts. \<exists>r'\<in>set ts'. row_later r r')"

definition links_later :: "nat \<Rightarrow> OneTimeToken list \<Rightarrow> OneTimeToken list \<Rightarrow> bool" where
  "links_later n ls ls' \<longleftrightarrow> (\<forall>t'\<in>set ls'. ot_ID t' < n \<longrightarrow> (\<exists>t\<in>set ls. link_later t t'))"

definition db_later :: "auth_db \<Rightarrow> auth_db \<Rightarrow> bool" where
  "db_later db db' \<longleftrightarrow> tokens_later (ad_tokens db) (ad_tokens db') \<and> ad_nextLink db \<le> ad_nextLink db' \<and>
     links_later (ad_nextLink db) (ad_links db) (ad_links db') \<and>
     us_ID ` set (ad_users db) \<subseteq> us_ID ` set (ad_users db')"

definition sys_ok :: "auth_sys \<Rightarrow> bool" where
  "sys_ok s \<longleftrightarrow> auth_ok (sy_db s) \<and> (\<forall>r\<in>set (sy_tokens s). \<exists>r'\<in>set (ad_tokens (sy_db s)). row_later r r') \<and>
     (\<forall>t\<in>set (sy_links s). ot_ID t < ad_nextLink (sy_db s) \<and>
        (\<forall>t'\<in>set (ad_links (sy_db s)). ot_ID t' = ot_ID t \<longrightarrow> link_later t t')) \<and>
     us_ID ` set (sy_users s) \<subseteq> us_ID ` set (ad_users (sy_db s))"

lemma row_later_refl [simp]: "row_later r r"
  by (simp add: row_later_def)

lemma row_later_trans: "row_later r r' \<Longrightarrow> row_later r' r'' \<Longrightarrow> row_later r r''"
  by (auto simp: row_later_def)

lemma link_later_refl [simp]: "link_later t t"
  by (simp add: link_later_def)

lemma link_later_trans: "link_later t t' \<Longrightarrow> link_later t' t'' \<Longrightarrow> link_later t t''"
  by (auto simp: link_later_def)

lemma tokens_later_refl [simp]: "tokens_later ts ts"
  by (auto simp: tokens_later_def intro: row_later_refl)

lemma links_later_refl [simp]: "links_later n ls ls"
  by (auto simp: links_later_def intro: link_later_refl)

lemma db_later_refl [simp]: "db_later db db"
  by (simp add: db_later_def)

lemma tokens_later_trans: "tokens_later ts ts' \<Longrightarrow> tokens_later ts' ts'' \<Longrightarrow> tokens_later ts ts''"
  unfolding tokens_later_def by (meson row_later_trans)

lemma links_later_trans:
  assumes "links_later n ls ls'" "links_later n' ls' ls''" "n \<le> n'"
  shows "links_later n ls ls''"
  unfolding links_later_def
proof (intro ballI impI)
  fix t assume t: "t \<in> set ls''" "ot_ID t < n"
  then obtain t1 where t1: "t1 \<in> set ls'" "link_later t1 t" using assms unfolding links_later_def by force
  then have "ot_ID t1 < n" using t by (simp add: link_later_def)
  then obtain t0 where "t0 \<in> set ls" "link_later t0 t1" using assms t1 unfolding links_later_def by force
  then show "\<exists>t0\<in>set ls. link_later t0 t" using t1 link_later_trans by blast
qed

lemma db_later_trans: "db_later db db' \<Longrightarrow> db_later db' db'' \<Longrightarrow> db_later db db''"
  unfolding db_later_def using tokens_later_trans links_later_trans by (metis le_trans subset_trans)

end
