(* ===== verification/Auth_Preservation.thy ===== *)
theory Auth_Preservation
  imports Auth_System
begin

section \<open>Accounts: every step keeps the tables well-formed\<close>

text \<open>
  \<open>advances db db'\<close>: \<open>db'\<close> is well-formed and later than \<open>db\<close>. First the statements the operations
  are made of, then the operations, then the system of \<open>Auth_System\<close>.
\<close>

definition advances :: "auth_db \<Rightarrow> auth_db \<Rightarrow> bool" where
  "advances db db' \<longleftrightarrow> auth_ok db' \<and> db_later db db'"

lemma advances_refl: "auth_ok db \<Longrightarrow> advances db db"
  by (simp add: advances_def)

lemma advances_trans: "advances db db' \<Longrightarrow> advances db' db'' \<Longrightarrow> advances db db''"
  unfolding advances_def using db_later_trans by blast

lemma advances_ok: "advances db db' \<Longrightarrow> auth_ok db'"
  by (simp add: advances_def)

lemma auth_ok_Audit [simp]: "auth_ok (Audit a t db) = auth_ok db"
  by (simp add: auth_ok_def Audit_def)

lemma advances_Audit [simp]: "advances db (Audit a t db') = advances db db'"
  by (simp add: advances_def db_later_def Audit_def auth_ok_def)

lemma same_key: "distinct (map f xs) \<Longrightarrow> x \<in> set xs \<Longrightarrow> y \<in> set xs \<Longrightarrow> f x = f y \<Longrightarrow> x = y"
  by (metis distinct_map inj_on_def)

lemma find_key: "distinct (map f xs) \<Longrightarrow> x \<in> set xs \<Longrightarrow> find (\<lambda>y. f y = f x) xs = Some x"
  by (induction xs) force+

lemma find_SomeD: "find P xs = Some x \<Longrightarrow> x \<in> set xs \<and> P x"
  by (induction xs) (auto split: if_splits)

lemma lockUserTx_Inr: "lockUserTx db i = Inr u \<Longrightarrow> u \<in> set (ad_users db) \<and> us_ID u = i"
  by (auto simp: lockUserTx_def userByID_def split: option.splits dest: find_SomeD)

subsection \<open>Refresh token rows\<close>

lemma tokens_ok_map:
  assumes "tokens_ok ts n"
    and "\<And>r. rt_ID (g r) = rt_ID r \<and> rt_UserID (g r) = rt_UserID r \<and> rt_TokenHash (g r) = rt_TokenHash r \<and>
      rt_ReplacedBy (g r) = rt_ReplacedBy r \<and> (rt_RevokedAt r \<noteq> None \<longrightarrow> rt_RevokedAt (g r) \<noteq> None)"
  shows "tokens_ok (map g ts) n"
proof -
  have m: "map rt_ID (map g ts) = map rt_ID ts" "map rt_TokenHash (map g ts) = map rt_TokenHash ts" using assms(2) by simp_all
  have s: "successor_ok (map g ts) (g r)" if "r \<in> set ts" for r
  proof -
    have "successor_ok ts r" using that assms(1) by (simp add: tokens_ok_def)
    then show ?thesis using assms(2) unfolding successor_ok_def by simp
  qed
  have "replaced_once (map g ts)" using assms unfolding tokens_ok_def replaced_once_def by simp blast
  then show ?thesis using assms s unfolding tokens_ok_def m by simp
qed

lemma tokens_later_map: "(\<And>r. row_later r (g r)) \<Longrightarrow> tokens_later ts (map g ts)"
  unfolding tokens_later_def by (metis image_eqI list.set_map)

lemma advances_revokeWhere:
  assumes "auth_ok db"
  shows "advances db (revokeWhere P now db)"
proof -
  let ?g = "\<lambda>r. if rt_RevokedAt r = None \<and> P r then r\<lparr>rt_RevokedAt := Some now\<rparr> else r"
  have t: "ad_tokens (revokeWhere P now db) = map ?g (ad_tokens db)" by (simp add: revokeWhere_def updateRows_def)
  have "tokens_ok (map ?g (ad_tokens db)) (ad_nextToken db)"
    using assms by (intro tokens_ok_map) (auto simp: auth_ok_def)
  moreover have "tokens_later (ad_tokens db) (map ?g (ad_tokens db))"
    by (intro tokens_later_map) (simp add: row_later_def)
  moreover have "owners_ok (ad_users db) (map ?g (ad_tokens db)) (ad_links db)"
    using assms by (auto simp: auth_ok_def owners_ok_def)
  moreover have "disabled_ok (ad_users db) (map ?g (ad_tokens db)) (ad_links db)"
    using assms by (auto simp: auth_ok_def disabled_ok_def shut_def)
  ultimately show ?thesis using assms t
    by (simp add: advances_def auth_ok_def db_later_def revokeWhere_def)
qed

lemma advances_revokeAllTx: "auth_ok db \<Longrightarrow> advances db (revokeAllTx i now db)"
  by (simp add: revokeAllTx_def advances_revokeWhere)

lemma advances_revokeSessionsButTx: "auth_ok db \<Longrightarrow> advances db (revokeSessionsButTx i keep now db)"
  by (simp add: revokeSessionsButTx_def advances_revokeWhere)

lemma newRefreshRow_fields [simp]:
  "rt_ID (newRefreshRow env db user raw now) = ad_nextToken db" "rt_UserID (newRefreshRow env db user raw now) = us_ID user"
  "rt_TokenHash (newRefreshRow env db user raw now) = hashRefreshToken env raw"
  "rt_ExpiresAt (newRefreshRow env db user raw now) = now + cf_RefreshTokenTTL (ev_cfg env)"
  "rt_RevokedAt (newRefreshRow env db user raw now) = None" "rt_ReplacedBy (newRefreshRow env db user raw now) = None"
  by (simp_all add: newRefreshRow_def)

lemma issueTokens_Inr:
  assumes "issueTokens env db user raw now = (Inr pair, db')"
  shows "db' = db\<lparr>ad_tokens := ad_tokens db @ [newRefreshRow env db user raw now], ad_nextToken := ad_nextToken db + 1\<rparr>"
    "hashRefreshToken env raw \<notin> rt_TokenHash ` set (ad_tokens db)" "tp_RefreshToken pair = raw"
    "signAccessToken env user (ad_nextToken db) (cf_AccessTokenTTL (ev_cfg env)) now = Some (tp_AccessToken pair)"
  using assms by (auto simp: issueTokens_def Let_def list_ex_iff split: if_splits option.splits)

lemma replaced_once_snoc:
  assumes "replaced_once ts" "rt_ReplacedBy r = None"
  shows "replaced_once (ts @ [r])"
  unfolding replaced_once_def
proof (intro ballI impI)
  fix a b assume h: "a \<in> set (ts @ [r])" "b \<in> set (ts @ [r])" "rt_ReplacedBy a \<noteq> None" "rt_ReplacedBy a = rt_ReplacedBy b"
  have "a \<noteq> r" using h(3) assms(2) by blast
  moreover have "b \<noteq> r" using h(3,4) assms(2) by metis
  ultimately have "a \<in> set ts" "b \<in> set ts" using h(1,2) by simp_all
  then show "rt_ID a = rt_ID b" using h(3,4) assms(1) unfolding replaced_once_def by blast
qed

lemma tokens_ok_snoc:
  assumes "tokens_ok ts n" "rt_ID r = n" "rt_TokenHash r \<notin> rt_TokenHash ` set ts" "rt_ReplacedBy r = None"
  shows "tokens_ok (ts @ [r]) (n + 1)"
proof -
  have "\<forall>x\<in>set ts. successor_ok (ts @ [r]) x"
    using assms(1) unfolding tokens_ok_def successor_ok_def by (metis Un_iff set_append)
  moreover have "replaced_once (ts @ [r])"
    using assms(1,4) by (intro replaced_once_snoc) (simp_all add: tokens_ok_def)
  ultimately show ?thesis
    using assms unfolding tokens_ok_def by (auto simp: successor_ok_def less_Suc_eq)
qed

lemma advances_issueTokens:
  assumes "auth_ok db" "issueTokens env db user raw now = (Inr pair, db')" "user \<in> set (ad_users db)" "\<not> Disabled user"
  shows "advances db db'"
proof -
  let ?r = "newRefreshRow env db user raw now"
  note i = issueTokens_Inr [OF assms(2)]
  have "users_ok (ad_users db) (ad_nextUser db)" using assms(1) by (simp add: auth_ok_def)
  then have "disabled_ok (ad_users db) (ad_tokens db @ [?r]) (ad_links db)"
    using assms unfolding auth_ok_def disabled_ok_def shut_def users_ok_def
    by (auto dest: same_key)
  moreover have "tokens_ok (ad_tokens db @ [?r]) (ad_nextToken db + 1)"
    using assms(1) i(2) by (intro tokens_ok_snoc) (auto simp: auth_ok_def)
  moreover have "tokens_later (ad_tokens db) (ad_tokens db @ [?r])"
    by (auto simp: tokens_later_def intro: row_later_refl)
  moreover have "owners_ok (ad_users db) (ad_tokens db @ [?r]) (ad_links db)"
    using assms(1,3) by (auto simp: auth_ok_def owners_ok_def)
  ultimately show ?thesis using assms(1) i(1) by (auto simp: advances_def auth_ok_def db_later_def)
qed

lemma rowsWhere_one: "rowsWhere P xs = 1 \<Longrightarrow> \<exists>x\<in>set xs. P x"
  by (rule ccontr) (simp add: rowsWhere_def filter_empty_conv [THEN iffD2])

lemma rowsWhere_key:
  assumes "distinct (map f xs)" "x \<in> set xs" "P x"
  shows "rowsWhere (\<lambda>y. f y = f x \<and> P y) xs = 1"
proof -
  have "filter (\<lambda>y. f y = f x \<and> P y) xs = [x]" using assms
  proof (induction xs)
    case (Cons a xs)
    show ?case
    proof (cases "a = x")
      case True
      then have "\<forall>y\<in>set xs. f y \<noteq> f x" using Cons.prems(1) by (metis distinct.simps(2) image_eqI list.set_map list.simps(9))
      then have "filter (\<lambda>y. f y = f x \<and> P y) xs = []" by (simp add: filter_empty_conv)
      then show ?thesis using True Cons.prems(3) by simp
    next
      case False
      then have "f a \<noteq> f x" using Cons.prems by auto
      then show ?thesis using Cons False by simp
    qed
  qed simp
  then show ?thesis by (simp add: rowsWhere_def)
qed

lemma rowsWhere_none: "(\<And>x. x \<in> set xs \<Longrightarrow> \<not> P x) \<Longrightarrow> rowsWhere P xs = 0"
  by (simp add: rowsWhere_def filter_empty_conv)

lemma advances_startSession:
  assumes "auth_ok db"
  shows "advances db (snd (startSession env db u raw now))"
proof (cases "lockUserTx db (us_ID u)")
  case (Inr locked)
  obtain res db' where i: "issueTokens env db locked raw now = (res, db')" by (metis surj_pair)
  show ?thesis
  proof (cases "Disabled locked \<or> us_PasswordHash locked \<noteq> us_PasswordHash u \<or> (\<exists>e. res = Inl e)")
    case True
    then show ?thesis using assms Inr i by (auto simp: startSession_def advances_refl)
  next
    case False
    then obtain pair where "res = Inr pair" by (cases res) auto
    then show ?thesis using False Inr i assms advances_issueTokens lockUserTx_Inr [OF Inr]
      by (auto simp: startSession_def)
  qed
qed (use assms in \<open>simp add: startSession_def advances_refl\<close>)

text \<open>The rotated row, which the compare-and-swap found unrevoked, and the table after the rotation.\<close>

definition rotatedTo :: "nat \<Rightarrow> gotime \<Rightarrow> nat \<Rightarrow> RefreshToken \<Rightarrow> RefreshToken" where
  "rotatedTo i now k r = (if rt_ID r = i then r\<lparr>rt_RevokedAt := Some now, rt_ReplacedBy := Some k\<rparr> else r)"

lemma rotatedTo_fields [simp]:
  "rt_ID (rotatedTo i now k r) = rt_ID r" "rt_UserID (rotatedTo i now k r) = rt_UserID r"
  "rt_TokenHash (rotatedTo i now k r) = rt_TokenHash r"
  by (simp_all add: rotatedTo_def)

lemma rotateLocked_Inr:
  assumes "rotateLocked env db row raw now = (Inr (pair, user), db')"
  shows "lockUserTx db (rt_UserID row) = Inr user" "\<not> Disabled user" "now < rt_ExpiresAt row" "rt_RevokedAt row = None"
    "rowsWhere (\<lambda>r. rt_ID r = rt_ID row \<and> rt_RevokedAt r = None) (ad_tokens db) = 1"
    "\<exists>db1. issueTokens env (revokeWhere (\<lambda>r. rt_ID r = rt_ID row) now db) user raw now = (Inr pair, db1) \<and>
       (\<exists>rep. readToken db1 (hashRefreshToken env raw) = Some rep \<and>
         db' = db1\<lparr>ad_tokens := updateRows (\<lambda>r. rt_ID r = rt_ID row) (\<lambda>r. r\<lparr>rt_ReplacedBy := Some (rt_ID rep)\<rparr>) (ad_tokens db1)\<rparr>)"
proof -
  have reuse: "fst (rotatedAgain env db row a k now) \<noteq> Inr x" for a k x
    by (auto simp: rotatedAgain_def Let_def split: sum.splits)
  obtain u where u: "lockUserTx db (rt_UserID row) = Inr u" "\<not> Disabled u" "now < rt_ExpiresAt row"
    using assms by (auto simp: rotateLocked_def split: sum.splits if_splits)
  have r: "rt_RevokedAt row = None"
  proof (rule ccontr)
    assume "rt_RevokedAt row \<noteq> None"
    then obtain a where a: "rt_RevokedAt row = Some a" by blast
    then obtain k where "rt_ReplacedBy row = Some k" using assms u by (auto simp: rotateLocked_def split: option.splits)
    then have "rotatedAgain env db row a k now = (Inr (pair, user), db')" using assms u a by (simp add: rotateLocked_def)
    then show False using reuse by (metis fst_conv)
  qed
  have c: "rowsWhere (\<lambda>r. rt_ID r = rt_ID row \<and> rt_RevokedAt r = None) (ad_tokens db) = 1"
    using assms u r by (auto simp: rotateLocked_def split: sum.splits if_splits)
  obtain res db1 where i: "issueTokens env (revokeWhere (\<lambda>r. rt_ID r = rt_ID row) now db) u raw now = (res, db1)" by (metis surj_pair)
  then obtain p where p: "res = Inr p" using assms u r c by (cases res) (auto simp: rotateLocked_def)
  then have "tp_RefreshToken p = raw" using i issueTokens_Inr(3) by blast
  then obtain rep where rep: "readToken db1 (hashRefreshToken env raw) = Some rep"
    using assms u r c i p by (auto simp: rotateLocked_def split: option.splits)
  then have "(Inr (pair, user), db') = (Inr (p, u), db1\<lparr>ad_tokens := updateRows (\<lambda>r. rt_ID r = rt_ID row)
      (\<lambda>r. r\<lparr>rt_ReplacedBy := Some (rt_ID rep)\<rparr>) (ad_tokens db1)\<rparr>)"
    using assms u r c i p \<open>tp_RefreshToken p = raw\<close> by (simp add: rotateLocked_def)
  then show "lockUserTx db (rt_UserID row) = Inr user" "\<not> Disabled user" "now < rt_ExpiresAt row" "rt_RevokedAt row = None"
    "rowsWhere (\<lambda>r. rt_ID r = rt_ID row \<and> rt_RevokedAt r = None) (ad_tokens db) = 1"
    "\<exists>db1. issueTokens env (revokeWhere (\<lambda>r. rt_ID r = rt_ID row) now db) user raw now = (Inr pair, db1) \<and>
       (\<exists>rep. readToken db1 (hashRefreshToken env raw) = Some rep \<and>
         db' = db1\<lparr>ad_tokens := updateRows (\<lambda>r. rt_ID r = rt_ID row) (\<lambda>r. r\<lparr>rt_ReplacedBy := Some (rt_ID rep)\<rparr>) (ad_tokens db1)\<rparr>)"
    using u r c i p rep by auto
qed

lemma revokeWhere_fields [simp]:
  "ad_users (revokeWhere P now db) = ad_users db" "ad_links (revokeWhere P now db) = ad_links db"
  "ad_nextUser (revokeWhere P now db) = ad_nextUser db" "ad_nextToken (revokeWhere P now db) = ad_nextToken db"
  "ad_nextLink (revokeWhere P now db) = ad_nextLink db"
  "(revokeWhere P now db)\<lparr>ad_tokens := ts\<rparr> = db\<lparr>ad_tokens := ts\<rparr>"
  by (simp_all add: revokeWhere_def)

lemma rotateLocked_table:
  assumes ok: "auth_ok db" and rot: "rotateLocked env db row raw now = (Inr (pair, user), db')"
  defines "k \<equiv> ad_nextToken db"
  shows "db' = db\<lparr>ad_tokens := map (rotatedTo (rt_ID row) now k) (ad_tokens db) @ [newRefreshRow env db user raw now],
      ad_nextToken := k + 1\<rparr>"
    "hashRefreshToken env raw \<notin> rt_TokenHash ` set (ad_tokens db)"
    "\<exists>r\<in>set (ad_tokens db). rt_ID r = rt_ID row \<and> rt_RevokedAt r = None"
proof -
  let ?P = "\<lambda>r. rt_ID r = rt_ID row" let ?db1 = "revokeWhere ?P now db" let ?n = "newRefreshRow env db user raw now"
  note i = rotateLocked_Inr [OF rot]
  obtain r where r: "r \<in> set (ad_tokens db)" "rt_ID r = rt_ID row" "rt_RevokedAt r = None" using rowsWhere_one [OF i(5)] by auto
  then show "\<exists>r\<in>set (ad_tokens db). rt_ID r = rt_ID row \<and> rt_RevokedAt r = None" by blast
  have d: "distinct (map rt_ID (ad_tokens db))" and lt: "rt_ID row < k" using ok r by (auto simp: auth_ok_def tokens_ok_def k_def)
  have n: "newRefreshRow env ?db1 user raw now = ?n" by (simp add: newRefreshRow_def)
  obtain db1 rep where db1: "issueTokens env ?db1 user raw now = (Inr pair, db1)" "readToken db1 (hashRefreshToken env raw) = Some rep"
    "db' = db1\<lparr>ad_tokens := updateRows ?P (\<lambda>r. r\<lparr>rt_ReplacedBy := Some (rt_ID rep)\<rparr>) (ad_tokens db1)\<rparr>" using i(6) by auto
  note t = issueTokens_Inr [OF db1(1), unfolded n]
  have "map rt_TokenHash (ad_tokens ?db1) = map rt_TokenHash (ad_tokens db)"
    by (simp add: revokeWhere_def updateRows_def)
  then have hs: "rt_TokenHash ` set (ad_tokens ?db1) = rt_TokenHash ` set (ad_tokens db)" by (metis list.set_map)
  then show f: "hashRefreshToken env raw \<notin> rt_TokenHash ` set (ad_tokens db)" using t(2) by simp
  have "rep \<in> set (ad_tokens ?db1 @ [?n])" "rt_TokenHash rep = hashRefreshToken env raw"
    using find_SomeD [OF db1(2) [unfolded readToken_def]] t(1) by simp_all
  then have "rep = ?n" using t(2) by (metis Un_iff empty_iff image_eqI insert_iff list.set(1,2) set_append)
  moreover have "rt_RevokedAt x = None" if "x \<in> set (ad_tokens db)" "rt_ID x = rt_ID row" for x
    using same_key [OF d that(1) r(1)] that(2) r by simp
  then have "map (\<lambda>r. if ?P r then r\<lparr>rt_ReplacedBy := Some k\<rparr> else r) (ad_tokens ?db1) =
      map (rotatedTo (rt_ID row) now k) (ad_tokens db)"
    by (auto simp: revokeWhere_def updateRows_def rotatedTo_def)
  then have "updateRows ?P (\<lambda>r. r\<lparr>rt_ReplacedBy := Some k\<rparr>) (ad_tokens ?db1 @ [?n]) =
      map (rotatedTo (rt_ID row) now k) (ad_tokens db) @ [?n]"
    using lt unfolding k_def by (simp add: updateRows_def)
  ultimately show "db' = db\<lparr>ad_tokens := map (rotatedTo (rt_ID row) now k) (ad_tokens db) @ [?n], ad_nextToken := k + 1\<rparr>"
    using db1(3) t(1) unfolding k_def by simp
qed

lemma tokens_ok_rotated:
  assumes ok: "tokens_ok ts k" and r: "r \<in> set ts" "rt_RevokedAt r = None"
    and n: "rt_ID n = k" "rt_UserID n = rt_UserID r" "rt_TokenHash n \<notin> rt_TokenHash ` set ts" "rt_ReplacedBy n = None"
  shows "tokens_ok (map (rotatedTo (rt_ID r) now k) ts @ [n]) (k + 1)"
proof -
  let ?g = "rotatedTo (rt_ID r) now k" let ?ts = "map ?g ts @ [n]"
  have d: "distinct (map rt_ID ts)" and lt: "\<forall>x\<in>set ts. rt_ID x < k" using ok by (simp_all add: tokens_ok_def)
  have m: "map rt_ID (map ?g ts) = map rt_ID ts" "map rt_TokenHash (map ?g ts) = map rt_TokenHash ts" by simp_all
  have s: "successor_ok ?ts (?g x)" if x: "x \<in> set ts" for x
  proof (cases "rt_ID x = rt_ID r")
    case True
    then have "x = r" using same_key [OF d x r(1)] by simp
    then show ?thesis using n lt x by (simp add: successor_ok_def rotatedTo_def)
  next
    case False
    then have "?g x = x" by (simp add: rotatedTo_def)
    moreover have "successor_ok ts x" using ok x by (simp add: tokens_ok_def)
    ultimately show ?thesis by (auto simp: successor_ok_def)
  qed
  have low: "y \<noteq> k" if "x \<in> set ts" "rt_ReplacedBy x = Some y" for x y
    using ok that lt unfolding tokens_ok_def successor_ok_def by (metis less_irrefl)
  have "replaced_once (map ?g ts)" unfolding replaced_once_def
  proof (intro ballI impI)
    fix a b assume ab: "a \<in> set (map ?g ts)" "b \<in> set (map ?g ts)" "rt_ReplacedBy a \<noteq> None" "rt_ReplacedBy a = rt_ReplacedBy b"
    obtain x y where xy: "a = ?g x" "b = ?g y" "x \<in> set ts" "y \<in> set ts" using ab by auto
    obtain j where j: "rt_ReplacedBy a = Some j" "rt_ReplacedBy b = Some j" using ab(3,4) by auto
    show "rt_ID a = rt_ID b"
    proof (cases "j = k")
      case True
      have "rt_ID z = rt_ID r" if "z \<in> set ts" "rt_ReplacedBy (?g z) = Some k" for z
        using low [OF that(1)] that(2) by (auto simp: rotatedTo_def split: if_splits)
      then show ?thesis using xy j True by simp
    next
      case False
      then have "rt_ReplacedBy x = Some j" "rt_ReplacedBy y = Some j"
        using xy j by (auto simp: rotatedTo_def split: if_splits)
      moreover have "replaced_once ts" using ok by (simp add: tokens_ok_def)
      ultimately show ?thesis using xy unfolding replaced_once_def by (metis option.distinct(1) rotatedTo_fields(1))
    qed
  qed
  then have "replaced_once ?ts" using n(4) by (rule replaced_once_snoc)
  moreover have "successor_ok ?ts n" using n(4) by (simp add: successor_ok_def)
  ultimately show ?thesis using ok lt n s unfolding tokens_ok_def map_append m by (auto simp: less_Suc_eq)
qed

lemma advances_rotatedAgain: "auth_ok db \<Longrightarrow> advances db (snd (rotatedAgain env db row a k now))"
  by (simp add: rotatedAgain_def Let_def advances_refl advances_revokeAllTx split: sum.split)

lemma advances_rotateLocked_Inl:
  assumes ok: "auth_ok db" and rot: "rotateLocked env db row raw now = (Inl e, db')"
  shows "advances db db'"
proof (cases "rt_RevokedAt row = None \<or> rt_ReplacedBy row = None \<or> \<not> now < rt_ExpiresAt row")
  case True
  then have "db' = db" using rot unfolding rotateLocked_def
    by (auto split: sum.splits if_splits option.splits prod.splits)
  then show ?thesis using ok by (simp add: advances_refl)
next
  case False
  then obtain a k where ak: "rt_RevokedAt row = Some a" "rt_ReplacedBy row = Some k" by auto
  show ?thesis
  proof (cases "\<exists>u. lockUserTx db (rt_UserID row) = Inr u \<and> \<not> Disabled u")
    case True
    then have "(rotatedAgain env db row a k now :: (TokenPair \<times> User) auth_result) = (Inl e, db')" using rot ak False by (auto simp: rotateLocked_def)
    then show ?thesis using advances_rotatedAgain [OF ok] by (metis snd_conv)
  next
    case d: False
    then have "db' = db" using rot by (auto simp: rotateLocked_def split: sum.splits)
    then show ?thesis using ok by (simp add: advances_refl)
  qed
qed

lemma advances_rotateLocked:
  assumes ok: "auth_ok db" and snap: "r0 \<in> set (ad_tokens db)" "row_later row r0"
  shows "advances db (snd (rotateLocked env db row raw now))"
proof (cases "fst (rotateLocked env db row raw now)")
  case (Inl e)
  then show ?thesis using advances_rotateLocked_Inl [OF ok] by (metis prod.collapse)
next
  case (Inr x)
  obtain pair user db' where rot: "rotateLocked env db row raw now = (Inr (pair, user), db')"
    using Inr by (metis prod.collapse)
  let ?g = "rotatedTo (rt_ID row) now (ad_nextToken db)" let ?n = "newRefreshRow env db user raw now"
  note t = rotateLocked_table [OF ok rot] and i = rotateLocked_Inr [OF rot]
  obtain r where r: "r \<in> set (ad_tokens db)" "rt_ID r = rt_ID row" "rt_RevokedAt r = None" using t(3) by blast
  have d: "distinct (map rt_ID (ad_tokens db))" and du: "distinct (map us_ID (ad_users db))"
    using ok by (simp_all add: auth_ok_def tokens_ok_def users_ok_def)
  have "r = r0" using same_key [OF d r(1) snap(1)] r(2) snap(2) by (simp add: row_later_def)
  then have ur: "rt_UserID r = us_ID user" using snap(2) lockUserTx_Inr [OF i(1)] by (simp add: row_later_def)
  have "tokens_ok (map ?g (ad_tokens db) @ [?n]) (ad_nextToken db + 1)"
    using tokens_ok_rotated [of "ad_tokens db" "ad_nextToken db" r ?n now] ok r t(2) ur by (simp add: auth_ok_def)
  moreover have "row_later x (?g x)" if "x \<in> set (ad_tokens db)" for x
    using same_key [OF d that r(1)] r by (auto simp add: row_later_def rotatedTo_def)
  then have "tokens_later (ad_tokens db) (map ?g (ad_tokens db) @ [?n])" by (auto simp: tokens_later_def)
  moreover have "owners_ok (ad_users db) (map ?g (ad_tokens db) @ [?n]) (ad_links db)"
    using ok lockUserTx_Inr [OF i(1), THEN conjunct1] by (auto simp: auth_ok_def owners_ok_def)
  moreover have "disabled_ok (ad_users db) (map ?g (ad_tokens db) @ [?n]) (ad_links db)"
  proof -
    have "us_ID user \<noteq> us_ID u" if "u \<in> set (ad_users db)" "Disabled u" for u
      using same_key [OF du _ that(1), of user] lockUserTx_Inr [OF i(1)] i(2) that(2) by auto
    then show ?thesis using ok unfolding auth_ok_def disabled_ok_def shut_def by (auto simp: rotatedTo_def)
  qed
  ultimately show ?thesis using ok t(1) rot by (simp add: advances_def auth_ok_def db_later_def)
qed

lemma advances_logoutRow: "auth_ok db \<Longrightarrow> advances db (logoutRow db row now)"
  by (simp add: logoutRow_def Let_def advances_revokeWhere)

lemma advances_revokeSessionAs: "auth_ok db \<Longrightarrow> advances db (snd (revokeSessionAs env db i req j now now'))"
  by (simp add: revokeSessionAs_def Let_def advances_refl advances_revokeWhere split: sum.split option.split)

lemma advances_revokeAllSessionsAs: "auth_ok db \<Longrightarrow> advances db (snd (revokeAllSessionsAs db i req now))"
  by (simp add: revokeAllSessionsAs_def advances_refl advances_revokeAllTx split: sum.split)

lemma advances_revokeOtherSessions: "auth_ok db \<Longrightarrow> advances db (snd (revokeOtherSessions db i keep now))"
  by (simp add: revokeOtherSessions_def revokeOtherSessionsTx_def advances_refl advances_revokeSessionsButTx split: sum.split)

end
