(* ===== verification/Auth_Invariant.thy ===== *)
theory Auth_Invariant
  imports Auth_Preservation
begin

section \<open>Accounts: links, users and the whole system\<close>

text \<open>
  The statements on the tables of links and users keep the tables well-formed, and with those on the
  refresh tokens (\<open>Auth_Preservation\<close>) so does every step of the system: \<open>sys_ok\<close> holds of every
  reachable state, and the database of a later state is later.
\<close>

subsection \<open>Links\<close>

lemma links_later_map: "(\<And>t. t \<in> set ls \<Longrightarrow> link_later t (g t)) \<Longrightarrow> links_later n ls (map g ls)"
  by (auto simp: links_later_def)

lemma live_once_map:
  assumes "live_once ls"
    and "\<And>t. ot_ID (g t) = ot_ID t \<and> ot_UserID (g t) = ot_UserID t \<and> ot_Purpose (g t) = ot_Purpose t \<and> (liveLink (g t) \<longrightarrow> liveLink t)"
  shows "live_once (map g ls)"
  unfolding live_once_def
proof (intro ballI impI)
  fix a b assume h: "a \<in> set (map g ls)" "b \<in> set (map g ls)" "liveLink a" "liveLink b" "ot_UserID a = ot_UserID b" "ot_Purpose a = ot_Purpose b"
  then obtain x y where xy: "a = g x" "b = g y" "x \<in> set ls" "y \<in> set ls" by auto
  then have "liveLink x" "liveLink y" "ot_UserID x = ot_UserID y" "ot_Purpose x = ot_Purpose y" using h assms(2) by simp_all
  then have "ot_ID x = ot_ID y" using assms(1) xy unfolding live_once_def by blast
  then show "ot_ID a = ot_ID b" using xy assms(2) by simp
qed

lemma links_ok_map:
  assumes "links_ok ls n" "live_once (map g ls)" "\<And>t. ot_ID (g t) = ot_ID t \<and> ot_TokenHash (g t) = ot_TokenHash t"
  shows "links_ok (map g ls) n"
proof -
  have m: "map ot_ID (map g ls) = map ot_ID ls" "map ot_TokenHash (map g ls) = map ot_TokenHash ls" using assms(3) by simp_all
  show ?thesis using assms unfolding links_ok_def m by simp
qed

text \<open>A rewriting of the links that only moves them forward.\<close>

lemma advances_links:
  assumes ok: "auth_ok db" and g: "\<And>t. t \<in> set (ad_links db) \<Longrightarrow> link_later t (g t)"
    and g': "\<And>t. ot_ID (g t) = ot_ID t \<and> ot_TokenHash (g t) = ot_TokenHash t \<and> ot_UserID (g t) = ot_UserID t"
    and live: "live_once (map g (ad_links db))"
  shows "advances db (db\<lparr>ad_links := map g (ad_links db)\<rparr>)"
proof -
  have "links_ok (map g (ad_links db)) (ad_nextLink db)"
    using ok live g' by (intro links_ok_map) (auto simp: auth_ok_def)
  moreover have "owners_ok (ad_users db) (ad_tokens db) (map g (ad_links db))"
    using ok g' by (auto simp: auth_ok_def owners_ok_def)
  moreover have used: "ot_UsedAt (g t) \<noteq> None" if "t \<in> set (ad_links db)" "ot_UsedAt t \<noteq> None" for t
    using g [OF that(1)] that(2) unfolding link_later_def by metis
  have "disabled_ok (ad_users db) (ad_tokens db) (map g (ad_links db))"
    using ok g' used unfolding auth_ok_def disabled_ok_def shut_def by (auto dest!: bspec)
  ultimately show ?thesis using ok links_later_map [of "ad_links db" g] g
    by (simp add: advances_def auth_ok_def db_later_def)
qed

definition markUsed :: "(OneTimeToken \<Rightarrow> bool) \<Rightarrow> gotime \<Rightarrow> OneTimeToken \<Rightarrow> OneTimeToken" where
  "markUsed P now t = (if P t then t\<lparr>ot_UsedAt := Some now\<rparr> else t)"

lemma markUsed_fields [simp]:
  "ot_ID (markUsed P now t) = ot_ID t" "ot_UserID (markUsed P now t) = ot_UserID t" "ot_Purpose (markUsed P now t) = ot_Purpose t"
  "ot_TokenHash (markUsed P now t) = ot_TokenHash t" "ot_SentAt (markUsed P now t) = ot_SentAt t"
  "ot_UsedAt (markUsed P now t) = (if P t then Some now else ot_UsedAt t)"
  by (simp_all add: markUsed_def)

lemma updateRows_markUsed: "updateRows P (\<lambda>t. t\<lparr>ot_UsedAt := Some now\<rparr>) ls = map (markUsed P now) ls"
  by (simp add: updateRows_def markUsed_def)

lemma advances_markUsed:
  assumes ok: "auth_ok db" and P: "\<And>t. P t \<Longrightarrow> ot_UsedAt t = None"
  shows "advances db (db\<lparr>ad_links := map (markUsed P now) (ad_links db)\<rparr>)"
proof (rule advances_links [OF ok])
  show "link_later t (markUsed P now t)" for t using P [of t] by (auto simp: link_later_def markUsed_def)
  show "live_once (map (markUsed P now) (ad_links db))"
    using ok by (intro live_once_map) (auto simp: auth_ok_def links_ok_def liveLink_def split: if_splits)
qed simp

lemma advances_voidTokensTx: "auth_ok db \<Longrightarrow> advances db (voidTokensTx i ex now ps db)"
  unfolding voidTokensTx_def updateRows_markUsed by (intro advances_markUsed) auto

lemma advances_voidPasswordBoundTokensTx: "auth_ok db \<Longrightarrow> advances db (voidPasswordBoundTokensTx i ex now db)"
  by (simp add: voidPasswordBoundTokensTx_def advances_voidTokensTx)

lemma consumeOneTimeToken_Inl: "consumeOneTimeToken db t now = (Inl e, db') \<Longrightarrow> db' = db"
  by (auto simp: consumeOneTimeToken_def Let_def split: sum.splits if_splits)

lemma consumeOneTimeToken_Inr:
  assumes "consumeOneTimeToken db t now = (Inr u, db')"
  shows "lockUserTx db (ot_UserID t) = Inr u" "\<not> Disabled u" "ot_SentAt t \<noteq> None" "ot_UsedAt t = None" "now < ot_ExpiresAt t"
    "us_Email u = linkFrom t"
    "rowsWhere (\<lambda>x. ot_ID x = ot_ID t \<and> ot_SentAt x \<noteq> None \<and> ot_UsedAt x = None) (ad_links db) = 1"
    "db' = db\<lparr>ad_links := map (markUsed (\<lambda>x. ot_ID x = ot_ID t \<and> ot_SentAt x \<noteq> None \<and> ot_UsedAt x = None) now) (ad_links db)\<rparr>"
  using assms by (auto simp: consumeOneTimeToken_def Let_def updateRows_markUsed split: sum.splits if_splits)

lemma advances_consume:
  assumes "auth_ok db" "consumeOneTimeToken db t now = (res, db')"
  shows "advances db db'"
proof (cases res)
  case (Inl e)
  then show ?thesis using assms consumeOneTimeToken_Inl advances_refl by blast
next
  case (Inr u)
  then have "db' = db\<lparr>ad_links := map (markUsed (\<lambda>x. ot_ID x = ot_ID t \<and> ot_SentAt x \<noteq> None \<and> ot_UsedAt x = None) now) (ad_links db)\<rparr>"
    using assms(2) consumeOneTimeToken_Inr(8) by blast
  then show ?thesis by (simp only:) (intro advances_markUsed assms(1), simp)
qed

lemma advances_withdrawToken:
  assumes ok: "auth_ok db"
  shows "advances db (withdrawToken db t)"
proof -
  let ?ls = "ad_links (withdrawToken db t)"
  have sub: "set ?ls \<subseteq> set (ad_links db)" by (auto simp: withdrawToken_def)
  have "links_ok (ad_links db) (ad_nextLink db)" using ok by (simp add: auth_ok_def)
  moreover then have "live_once ?ls" using sub by (auto simp: links_ok_def live_once_def subset_iff)
  ultimately have "links_ok ?ls (ad_nextLink db)"
    by (auto simp: links_ok_def withdrawToken_def distinct_map_filter)
  moreover have "disabled_ok (ad_users db) (ad_tokens db) ?ls" using ok sub by (auto simp: auth_ok_def disabled_ok_def shut_def subset_iff)
  moreover have "owners_ok (ad_users db) (ad_tokens db) ?ls"
    using ok image_mono [OF sub, of ot_UserID] unfolding auth_ok_def owners_ok_def by (meson subset_trans)
  moreover have "links_later (ad_nextLink db) (ad_links db) ?ls" using sub by (auto simp: links_later_def subset_iff intro: link_later_refl)
  ultimately show ?thesis using ok by (simp add: advances_def auth_ok_def db_later_def withdrawToken_def)
qed

lemma advances_activateToken:
  assumes ok: "auth_ok db" and snap: "\<And>t'. t' \<in> set (ad_links db) \<Longrightarrow> ot_ID t' = ot_ID t \<Longrightarrow> link_later t t'"
  shows "advances db (snd (activateToken db t now))"
proof -
  let ?P = "\<lambda>x. ot_ID x = ot_ID t \<and> ot_SentAt x = None \<and> ot_UsedAt x = None"
  let ?Q = "\<lambda>x. ot_UserID x = ot_UserID t \<and> ot_Purpose x = ot_Purpose t \<and> ot_SentAt x \<noteq> None \<and> ot_UsedAt x = None \<and> ot_ID x \<noteq> ot_ID t"
  let ?s = "\<lambda>x. if ?P x then x\<lparr>ot_SentAt := Some now\<rparr> else x"
  define g where "g x = markUsed ?Q now (?s x)" for x
  have gf: "ot_ID (g x) = ot_ID x" "ot_UserID (g x) = ot_UserID x" "ot_Purpose (g x) = ot_Purpose x" "ot_TokenHash (g x) = ot_TokenHash x" for x
    by (simp_all add: g_def)
  show ?thesis
  proof (cases "\<exists>u. lockUserTx db (ot_UserID t) = Inr u \<and> rowsWhere ?P (ad_links db) = 1")
    case True
    then have one: "rowsWhere ?P (ad_links db) = 1" by blast
    obtain x where x: "x \<in> set (ad_links db)" "?P x" by (rule bexE [OF rowsWhere_one [OF one]])
    have tx: "ot_UserID x = ot_UserID t" "ot_Purpose x = ot_Purpose t" using snap [OF x(1)] x(2) by (auto simp: link_later_def)
    have db': "snd (activateToken db t now) = db\<lparr>ad_links := map g (ad_links db)\<rparr>"
      using True by (auto simp: activateToken_def Let_def supersedeTokensTx_def updateRows_def markUsed_def comp_def g_def)
    have d: "distinct (map ot_ID (ad_links db))" and live: "live_once (ad_links db)" using ok by (simp_all add: auth_ok_def links_ok_def)
    have gl: "liveLink y \<and> \<not> ?Q y \<or> y = x" if "y \<in> set (ad_links db)" "liveLink (g y)" for y
      using that same_key [OF d that(1) x(1)] x(2) by (auto simp: liveLink_def g_def split: if_splits)
    have "live_once (map g (ad_links db))" unfolding live_once_def
    proof (intro ballI impI)
      fix a b assume h: "a \<in> set (map g (ad_links db))" "b \<in> set (map g (ad_links db))" "liveLink a" "liveLink b"
        "ot_UserID a = ot_UserID b" "ot_Purpose a = ot_Purpose b"
      then obtain y z where yz: "a = g y" "b = g z" "y \<in> set (ad_links db)" "z \<in> set (ad_links db)" by auto
      then have e: "ot_UserID y = ot_UserID z" "ot_Purpose y = ot_Purpose z" "ot_ID a = ot_ID y" "ot_ID b = ot_ID z" using h gf by simp_all
      have ly: "liveLink y \<and> \<not> ?Q y \<or> y = x" and lz: "liveLink z \<and> \<not> ?Q z \<or> z = x" using gl yz h by blast+
      have "ot_ID y = ot_ID z"
      proof (cases "y = x \<or> z = x")
        case True
        then show ?thesis using ly lz e tx x(2) unfolding liveLink_def by metis
      next
        case False
        then show ?thesis using ly lz e yz live unfolding live_once_def by blast
      qed
      then show "ot_ID a = ot_ID b" using e by simp
    qed
    moreover have "link_later y (g y)" for y by (auto simp: link_later_def markUsed_def g_def)
    ultimately show ?thesis unfolding db' using gf by (intro advances_links [OF ok]) auto
  next
    case False
    then have "snd (activateToken db t now) = db" by (auto simp: activateToken_def Let_def split: sum.splits)
    then show ?thesis using ok by (simp add: advances_refl)
  qed
qed

lemma issueOneTimeToken_Inr:
  assumes "issueOneTimeToken env db u f raw now = (Inr t, db')"
  shows "\<exists>locked. lockUserTx db (us_ID u) = Inr locked \<and> \<not> Disabled locked \<and> ot_UserID t = us_ID locked \<and> of_check f db locked = None \<and>
      ot_FromEmail t = us_Email locked \<and> ot_Email t = (if of_to f = '''' then us_Email locked else of_to f)"
    "ot_ID t = ad_nextLink db" "ot_SentAt t = None" "ot_UsedAt t = None" "ot_TokenHash t \<notin> ot_TokenHash ` set (ad_links db)"
    "ot_Purpose t = of_purpose f"
    "db' = db\<lparr>ad_links := ad_links db @ [t], ad_nextLink := ad_nextLink db + 1\<rparr>"
  using assms by (auto simp: issueOneTimeToken_def Let_def list_ex_iff split: sum.splits option.splits if_splits)

lemma advances_issueOneTimeToken:
  assumes ok: "auth_ok db" and i: "issueOneTimeToken env db u f raw now = (Inr t, db')"
  shows "advances db db'"
proof -
  note t = issueOneTimeToken_Inr [OF i]
  obtain locked where l: "locked \<in> set (ad_users db)" "us_ID locked = ot_UserID t" "\<not> Disabled locked"
    using t(1) lockUserTx_Inr by metis
  have du: "distinct (map us_ID (ad_users db))" and lk: "links_ok (ad_links db) (ad_nextLink db)" using ok by (simp_all add: auth_ok_def users_ok_def)
  have "live_once (ad_links db @ [t])"
  proof -
    have "\<not> liveLink t" using t(3) by (simp add: liveLink_def)
    then show ?thesis using lk unfolding links_ok_def live_once_def by (metis Un_iff empty_iff insert_iff list.set(1,2) set_append)
  qed
  then have "links_ok (ad_links db @ [t]) (ad_nextLink db + 1)" using lk t(2,5) unfolding links_ok_def by (auto simp: less_Suc_eq)
  moreover have "us_ID x \<noteq> ot_UserID t" if "x \<in> set (ad_users db)" "Disabled x" for x
    using same_key [OF du that(1) l(1)] l that(2) by auto
  then have "disabled_ok (ad_users db) (ad_tokens db) (ad_links db @ [t])"
    using ok unfolding auth_ok_def disabled_ok_def shut_def by (metis Un_iff empty_iff insert_iff list.set(1,2) set_append)
  moreover have "owners_ok (ad_users db) (ad_tokens db) (ad_links db @ [t])"
    using ok imageI [OF l(1), of us_ID] l(2) by (simp add: auth_ok_def owners_ok_def)
  moreover have "links_later (ad_nextLink db) (ad_links db) (ad_links db @ [t])"
    using t(2) by (auto simp: links_later_def intro: link_later_refl)
  ultimately show ?thesis using ok t(7) by (simp add: advances_def auth_ok_def db_later_def)
qed

subsection \<open>Users\<close>

lemma advances_updateUser:
  assumes ok: "auth_ok db" and f: "\<And>u. us_ID (f u) = us_ID u"
    and emails: "distinct (map us_Email (ad_users (updateUser i f db)))"
    and dis: "\<And>u. u \<in> set (ad_users db) \<Longrightarrow> us_ID u = i \<Longrightarrow> Disabled (f u) \<Longrightarrow> shut i (ad_tokens db) (ad_links db)"
  shows "advances db (updateUser i f db)"
proof -
  let ?g = "\<lambda>u. if us_ID u = i then f u else u"
  have us: "ad_users (updateUser i f db) = map ?g (ad_users db)" by (simp add: updateUser_def updateRows_def)
  have ids: "map us_ID (map ?g (ad_users db)) = map us_ID (ad_users db)" using f by simp
  have im: "us_ID ` set (map ?g (ad_users db)) = us_ID ` set (ad_users db)" using ids by (metis list.set_map)
  have "users_ok (map ?g (ad_users db)) (ad_nextUser db)"
    using ok emails f unfolding users_ok_def ids us auth_ok_def by auto
  moreover have "owners_ok (map ?g (ad_users db)) (ad_tokens db) (ad_links db)"
    using ok unfolding owners_ok_def im auth_ok_def by simp
  moreover have "disabled_ok (map ?g (ad_users db)) (ad_tokens db) (ad_links db)"
    using ok dis f by (auto simp: auth_ok_def disabled_ok_def)
  ultimately show ?thesis using ok us im
    by (simp add: advances_def auth_ok_def db_later_def updateUser_def)
qed

lemma advances_updateUser_same:
  assumes "auth_ok db" "\<And>u. us_ID (f u) = us_ID u \<and> us_Email (f u) = us_Email u \<and> us_DisabledAt (f u) = us_DisabledAt u"
  shows "advances db (updateUser i f db)"
proof (rule advances_updateUser [OF assms(1)])
  have "map us_Email (ad_users (updateUser i f db)) = map us_Email (ad_users db)"
    using assms(2) by (simp add: updateUser_def updateRows_def)
  then show "distinct (map us_Email (ad_users (updateUser i f db)))" using assms(1) unfolding auth_ok_def users_ok_def by (simp only:)
  show "shut i (ad_tokens db) (ad_links db)" if "u \<in> set (ad_users db)" "us_ID u = i" "Disabled (f u)" for u
    using that assms by (auto simp: auth_ok_def disabled_ok_def Disabled_def)
qed (use assms(2) in simp)

lemma distinct_map_update:
  assumes "distinct (map g xs)" "distinct (map k xs)" "\<And>x. x \<in> set xs \<Longrightarrow> k x \<noteq> i \<Longrightarrow> g x \<noteq> v"
  shows "distinct (map (\<lambda>x. if k x = i then v else g x) xs)"
  using assms by (induction xs) (auto simp: image_iff)

lemma advances_createUser:
  assumes ok: "auth_ok db"
  shows "advances db (snd (createUser env db email password superuser now))"
proof (cases "fst (createUser env db email password superuser now)")
  case (Inl e)
  then have "snd (createUser env db email password superuser now) = db"
    by (auto simp: createUser_def Let_def split: if_splits option.splits sum.splits)
  then show ?thesis using ok by (simp add: advances_refl)
next
  case (Inr u)
  then have db': "snd (createUser env db email password superuser now) = db\<lparr>ad_users := ad_users db @ [u], ad_nextUser := ad_nextUser db + 1\<rparr>"
    and u: "us_ID u = ad_nextUser db" "us_Email u \<notin> us_Email ` set (ad_users db)" "\<not> Disabled u"
    by (auto simp: createUser_def Let_def list_ex_iff Disabled_def split: if_splits option.splits sum.splits)
  have "users_ok (ad_users db @ [u]) (ad_nextUser db + 1)" using ok u by (auto simp: auth_ok_def users_ok_def less_Suc_eq)
  moreover have "disabled_ok (ad_users db @ [u]) (ad_tokens db) (ad_links db)" using ok u(3) by (simp add: auth_ok_def disabled_ok_def)
  moreover have "owners_ok (ad_users db @ [u]) (ad_tokens db) (ad_links db)" using ok by (auto simp: auth_ok_def owners_ok_def)
  ultimately show ?thesis using ok unfolding db' by (auto simp: advances_def auth_ok_def db_later_def)
qed

subsection \<open>The account lifecycle\<close>

lemma advances_verifyLocked:
  assumes ok: "auth_ok db"
  shows "advances db (snd (verifyLocked env db t now))"
proof -
  obtain res db' where c: "consumeOneTimeToken db t now = (res, db')" by (metis surj_pair)
  have a: "advances db db'" by (rule advances_consume [OF ok c])
  have "advances db' (updateUser i (\<lambda>u. u\<lparr>us_EmailVerifiedAt := Some now, us_VerifiedEmail := ot_Email t\<rparr>) db')" for i
    by (intro advances_updateUser_same advances_ok [OF a]) simp
  then show ?thesis using a c ok advances_trans [OF a] by (auto simp: verifyLocked_def Let_def advances_refl split: sum.split)
qed

lemma advances_setPassword:
  assumes a: "advances db0 db"
  shows "advances db0 (voidPasswordBoundTokensTx i ex now (updateUser j (\<lambda>u. u\<lparr>us_PasswordHash := hash\<rparr>) db))"
proof -
  have b: "advances db (updateUser j (\<lambda>u. u\<lparr>us_PasswordHash := hash\<rparr>) db)"
    by (intro advances_updateUser_same advances_ok [OF a]) simp
  show ?thesis
    using advances_trans [OF a advances_trans [OF b advances_voidPasswordBoundTokensTx [OF advances_ok [OF b]]]] .
qed

lemma advances_resetLocked:
  assumes ok: "auth_ok db"
  shows "advances db (snd (resetLocked env db t hash now))"
proof -
  obtain res db' where c: "consumeOneTimeToken db t now = (res, db')" by (metis surj_pair)
  have a: "advances db db'" by (rule advances_consume [OF ok c])
  show ?thesis
  proof (cases res)
    case (Inr u)
    let ?db1 = "voidPasswordBoundTokensTx (us_ID u) (ot_ID t) now (updateUser (us_ID u) (\<lambda>u. u\<lparr>us_PasswordHash := hash\<rparr>) db')"
    have b: "advances db ?db1" by (rule advances_setPassword [OF a])
    have "advances db (revokeAllTx (us_ID u) now ?db1)"
      by (rule advances_trans [OF b advances_revokeAllTx [OF advances_ok [OF b]]])
    then show ?thesis using b c Inr by (simp add: resetLocked_def Let_def)
  qed (use c ok in \<open>simp add: resetLocked_def advances_refl\<close>)
qed

lemma advances_changePasswordLocked:
  assumes ok: "auth_ok db"
  shows "advances db (snd (changePasswordLocked db u req hash keepOther now))"
proof -
  let ?db1 = "voidPasswordBoundTokensTx (us_ID u) 0 now (updateUser (us_ID u) (\<lambda>u. u\<lparr>us_PasswordHash := hash\<rparr>) db)"
  have b: "advances db ?db1" by (rule advances_setPassword [OF advances_refl [OF ok]])
  have "advances db (revokeAllTx (us_ID u) now ?db1)" "advances db (revokeSessionsButTx (us_ID u) keep now ?db1)" for keep
    by (rule advances_trans [OF b advances_revokeAllTx [OF advances_ok [OF b]]],
        rule advances_trans [OF b advances_revokeSessionsButTx [OF advances_ok [OF b]]])
  then show ?thesis using b ok by (simp add: changePasswordLocked_def Let_def advances_refl split: sum.split)
qed

lemma advances_emailChangeLocked:
  assumes ok: "auth_ok db"
  shows "advances db (snd (emailChangeLocked db t now))"
proof -
  let ?f = "\<lambda>u. u\<lparr>us_Email := ot_Email t, us_EmailVerifiedAt := Some now, us_VerifiedEmail := ot_Email t\<rparr>"
  obtain res db' where c: "consumeOneTimeToken db t now = (res, db')" by (metis surj_pair)
  have a: "advances db db'" by (rule advances_consume [OF ok c])
  have ok': "auth_ok db'" by (rule advances_ok [OF a])
  show ?thesis
  proof (cases "\<exists>u. res = Inr u \<and> \<not> list_ex (\<lambda>x. us_Email x = ot_Email t \<and> us_ID x \<noteq> us_ID u) (ad_users db')")
    case True
    then obtain u where u: "res = Inr u" "\<And>x. x \<in> set (ad_users db') \<Longrightarrow> us_ID x \<noteq> us_ID u \<Longrightarrow> us_Email x \<noteq> ot_Email t"
      by (auto simp: list_ex_iff)
    have "map us_Email (ad_users (updateUser (us_ID u) ?f db')) = map (\<lambda>x. if us_ID x = us_ID u then ot_Email t else us_Email x) (ad_users db')"
      by (simp add: updateUser_def updateRows_def)
    moreover have "distinct (map (\<lambda>x. if us_ID x = us_ID u then ot_Email t else us_Email x) (ad_users db'))"
      using ok' u(2) by (intro distinct_map_update) (auto simp: auth_ok_def users_ok_def)
    ultimately have "advances db' (updateUser (us_ID u) ?f db')"
      using ok' by (intro advances_updateUser) (auto simp: auth_ok_def disabled_ok_def Disabled_def)
    then have "advances db (updateUser (us_ID u) ?f db')" by (rule advances_trans [OF a])
    then have "advances db (voidTokensTx (us_ID u) (ot_ID t) now [] (updateUser (us_ID u) ?f db'))"
      using advances_trans advances_voidTokensTx advances_ok by blast
    then show ?thesis using c u(1) True by (simp add: emailChangeLocked_def Let_def)
  next
    case False
    then have "snd (emailChangeLocked db t now) = db" using c by (auto simp: emailChangeLocked_def Let_def split: sum.splits)
    then show ?thesis using ok by (simp add: advances_refl)
  qed
qed

lemma revokeAllTx_revokes:
  assumes "r \<in> set (ad_tokens (revokeAllTx i now db))" "rt_UserID r = i"
  shows "rt_RevokedAt r \<noteq> None"
proof -
  obtain x where x: "x \<in> set (ad_tokens db)" "r = (if rt_RevokedAt x = None \<and> rt_UserID x = i then x\<lparr>rt_RevokedAt := Some now\<rparr> else x)"
    using assms(1) unfolding revokeAllTx_def revokeWhere_def updateRows_def by auto
  then show ?thesis using assms(2) by (cases "rt_RevokedAt x") (auto split: if_splits)
qed

lemma voidTokensTx_voids:
  assumes "t \<in> set (ad_links (voidTokensTx i ex now [] db))" "ot_UserID t = i" "ot_ID t \<noteq> ex"
  shows "ot_UsedAt t \<noteq> None"
proof -
  let ?P = "\<lambda>t. ot_UserID t = i \<and> ot_UsedAt t = None \<and> ot_ID t \<noteq> ex \<and> ([] = ([]::TokenPurpose list) \<or> ot_Purpose t \<in> set [])"
  obtain x where "x \<in> set (ad_links db)" "t = markUsed ?P now x"
    using assms(1) unfolding voidTokensTx_def updateRows_markUsed by auto
  then show ?thesis using assms(2,3) by (simp split: if_splits)
qed

lemma voidTokensTx_tokens [simp]: "ad_tokens (voidTokensTx i ex now ps db) = ad_tokens db"
  by (simp add: voidTokensTx_def)

lemma advances_setUserState:
  assumes ok: "auth_ok db"
  shows "advances db (snd (setUserState db i disable check now))"
proof -
  let ?e = "\<lambda>u. u\<lparr>us_DisabledAt := None\<rparr>" let ?d = "\<lambda>u. u\<lparr>us_DisabledAt := Some now\<rparr>"
  let ?db1 = "voidTokensTx i 0 now [] (revokeAllTx i now db)"
  have emails: "distinct (map us_Email (ad_users (updateUser i f x)))" if "auth_ok x" "\<And>u. us_Email (f u) = us_Email u" for f x
  proof -
    have "map us_Email (ad_users (updateUser i f x)) = map us_Email (ad_users x)" using that(2) by (simp add: updateUser_def updateRows_def)
    then show ?thesis using that(1) unfolding auth_ok_def users_ok_def by (simp only:)
  qed
  have en: "advances db (updateUser i ?e db)"
    using ok by (intro advances_updateUser emails) (auto simp: Disabled_def)
  have a: "advances db ?db1"
    using advances_trans advances_revokeAllTx [OF ok] advances_voidTokensTx advances_ok by blast
  have ids: "\<forall>x\<in>set (ad_links ?db1). ot_ID x \<noteq> 0" using advances_ok [OF a] by (auto simp: auth_ok_def links_ok_def)
  have "shut i (ad_tokens ?db1) (ad_links ?db1)"
    unfolding shut_def using ids voidTokensTx_voids [of _ i 0 now "revokeAllTx i now db"] revokeAllTx_revokes [of _ i now db] by simp
  then have "advances ?db1 (updateUser i ?d ?db1)"
    using advances_ok [OF a] by (intro advances_updateUser emails) auto
  then have "advances db (updateUser i ?d ?db1)" by (rule advances_trans [OF a])
  moreover have "voidTokensTx i 0 now [] (revokeAllTx i now (updateUser i ?d db)) = updateUser i ?d ?db1"
    by (simp add: voidTokensTx_def revokeAllTx_def revokeWhere_def updateUser_def)
  ultimately show ?thesis using ok en by (simp add: setUserState_def advances_refl split: sum.split option.split)
qed

subsection \<open>The system\<close>

lemma on_db_fields [simp]:
  "sy_db (on_db s db) = db" "sy_tokens (on_db s db) = sy_tokens s" "sy_links (on_db s db) = sy_links s" "sy_users (on_db s db) = sy_users s"
  by (simp_all add: on_db_def)

lemma sys_okD:
  assumes "sys_ok s"
  shows "auth_ok (sy_db s)" "r \<in> set (sy_tokens s) \<Longrightarrow> \<exists>r'\<in>set (ad_tokens (sy_db s)). row_later r r'"
    "t \<in> set (sy_links s) \<Longrightarrow> t' \<in> set (ad_links (sy_db s)) \<Longrightarrow> ot_ID t' = ot_ID t \<Longrightarrow> link_later t t'"
  using assms by (auto simp: sys_ok_def)

lemma sys_ok_advance:
  assumes s: "sys_ok s" and a: "advances (sy_db s) db'"
  shows "sys_ok (on_db s db')"
proof -
  let ?db = "sy_db s"
  have later: "tokens_later (ad_tokens ?db) (ad_tokens db')" "ad_nextLink ?db \<le> ad_nextLink db'"
    "links_later (ad_nextLink ?db) (ad_links ?db) (ad_links db')" "us_ID ` set (ad_users ?db) \<subseteq> us_ID ` set (ad_users db')"
    using a by (simp_all add: advances_def db_later_def)
  have "\<exists>r'\<in>set (ad_tokens db'). row_later r r'" if "r \<in> set (sy_tokens s)" for r
    using sys_okD(2) [OF s that] later(1) row_later_trans unfolding tokens_later_def by meson
  moreover have "link_later t t'" if t: "t \<in> set (sy_links s)" "t' \<in> set (ad_links db')" "ot_ID t' = ot_ID t" for t t'
  proof -
    have "ot_ID t' < ad_nextLink ?db" using s t(1,3) by (simp add: sys_ok_def)
    then obtain t0 where "t0 \<in> set (ad_links ?db)" "link_later t0 t'" using later(3) t(2) unfolding links_later_def by blast
    then show ?thesis using sys_okD(3) [OF s t(1)] t(3) link_later_trans by (metis link_later_def)
  qed
  moreover have "ot_ID t < ad_nextLink db'" if "t \<in> set (sy_links s)" for t
    using s that later(2) by (auto simp: sys_ok_def)
  moreover have "us_ID ` set (sy_users s) \<subseteq> us_ID ` set (ad_users db')"
    using s later(4) unfolding sys_ok_def by (meson subset_trans)
  ultimately show ?thesis using advances_ok [OF a] by (simp add: sys_ok_def)
qed

lemma sys_ok_issue:
  assumes s: "sys_ok s" and i: "issueOneTimeToken env (sy_db s) u f raw now = (Inr t, db')"
  shows "sys_ok ((on_db s db')\<lparr>sy_links := t # sy_links s\<rparr>)"
proof -
  have a: "advances (sy_db s) db'" by (rule advances_issueOneTimeToken [OF sys_okD(1) [OF s] i])
  note t = issueOneTimeToken_Inr [OF i]
  have "distinct (map ot_ID (ad_links db'))" using advances_ok [OF a] by (simp add: auth_ok_def links_ok_def)
  moreover have "t \<in> set (ad_links db')" using t(7) by simp
  ultimately have "link_later t t'" if "t' \<in> set (ad_links db')" "ot_ID t' = ot_ID t" for t' using same_key that link_later_refl by metis
  moreover have "ot_ID t < ad_nextLink db'" using t(2,7) by simp
  ultimately show ?thesis using sys_ok_advance [OF s a] unfolding sys_ok_def by auto
qed

lemma auth_step_advances:
  assumes "auth_step env s s'" "sys_ok s"
  shows "sys_ok s' \<and> advances (sy_db s) (sy_db s')"
proof -
  have ok: "auth_ok (sy_db s)" by (rule sys_okD(1) [OF assms(2)])
  note r = advances_refl [OF ok] and go = sys_ok_advance [OF assms(2)]
  show ?thesis using assms(1)
  proof (cases rule: auth_step.cases)
    case (as_read_token x) then show ?thesis using assms(2) r by (auto simp: sys_ok_def intro: row_later_refl) next
    case (as_read_link x)
    then have "\<forall>t'\<in>set (ad_links (sy_db s)). ot_ID t' = ot_ID x \<longrightarrow> link_later x t'"
      using ok same_key link_later_refl unfolding auth_ok_def links_ok_def by metis
    then show ?thesis using as_read_link assms(2) r ok by (auto simp: sys_ok_def auth_ok_def links_ok_def) next
    case (as_read_user x) then show ?thesis using assms(2) r by (auto simp: sys_ok_def) next
    case (as_rotate x raw now)
    obtain r0 where "r0 \<in> set (ad_tokens (sy_db s))" "row_later x r0" using sys_okD(2) [OF assms(2)] as_rotate(2) by blast
    then show ?thesis using go advances_rotateLocked [OF ok] as_rotate(1) by simp next
    case (as_issue u f raw now t db')
    then show ?thesis using sys_ok_issue [OF assms(2)] advances_issueOneTimeToken [OF ok] by simp next
    case (as_activate t now)
    then show ?thesis using go advances_activateToken [OF ok] sys_okD(3) [OF assms(2)] by simp
  qed (simp_all add: go ok r advances_createUser advances_startSession advances_logoutRow advances_revokeSessionAs
      advances_revokeAllSessionsAs advances_revokeOtherSessions advances_withdrawToken advances_verifyLocked
      advances_resetLocked advances_changePasswordLocked advances_emailChangeLocked advances_setUserState)
qed

lemma auth_steps_advance:
  assumes "(auth_step env)\<^sup>*\<^sup>* s s'" "sys_ok s"
  shows "sys_ok s' \<and> advances (sy_db s) (sy_db s')"
  using assms
proof (induction rule: rtranclp_induct)
  case base
  then show ?case using advances_refl sys_okD(1) by blast
next
  case (step y z)
  then show ?case using auth_step_advances advances_trans by meson
qed

lemma init_sys_ok: "sys_ok init_sys"
  by (simp add: sys_ok_def init_sys_def init_db_def auth_ok_def users_ok_def tokens_ok_def links_ok_def owners_ok_def
      disabled_ok_def replaced_once_def live_once_def)

lemma auth_reachable_ok: "auth_reachable env s \<Longrightarrow> sys_ok s"
  unfolding auth_reachable_def using auth_steps_advance init_sys_ok by blast

end
