(* ===== verification/Auth_Theorems.thy ===== *)
theory Auth_Theorems
  imports Auth_Invariant
begin

section \<open>Accounts: what the service guarantees\<close>

text \<open>
  Properties of every reachable state of the account system, with any number of requests working on
  rows they read earlier: a session that ended stays ended, a refresh token rotates once, its reuse
  ends every session of the user, a mailed link works once and only the latest one works, a disabled
  account is locked out, and an access token works exactly while its session lasts.
\<close>

subsection \<open>Ended sessions and used links\<close>

lemma revoked_row_stays:
  assumes "advances db db'" "r \<in> set (ad_tokens db)" "rt_RevokedAt r \<noteq> None"
  shows "r \<in> set (ad_tokens db')"
proof -
  obtain r' where "r' \<in> set (ad_tokens db')" "row_later r r'" using assms(1,2) unfolding advances_def db_later_def tokens_later_def by blast
  then show ?thesis using assms(3) unfolding row_later_def by blast
qed

lemma row_unique: "auth_ok db \<Longrightarrow> r \<in> set (ad_tokens db) \<Longrightarrow> x \<in> set (ad_tokens db) \<Longrightarrow> rt_ID x = rt_ID r \<Longrightarrow> x = r"
  unfolding auth_ok_def tokens_ok_def using same_key by metis

lemma tokenByID_row: "auth_ok db \<Longrightarrow> r \<in> set (ad_tokens db) \<Longrightarrow> tokenByID db (rt_ID r) = Some r"
  unfolding tokenByID_def auth_ok_def tokens_ok_def using find_key by metis

lemma userByID_row: "auth_ok db \<Longrightarrow> u \<in> set (ad_users db) \<Longrightarrow> userByID db (us_ID u) = Some u"
  unfolding userByID_def auth_ok_def users_ok_def using find_key by metis

lemma lockUserTx_row: "auth_ok db \<Longrightarrow> u \<in> set (ad_users db) \<Longrightarrow> lockUserTx db (us_ID u) = Inr u"
  by (simp add: lockUserTx_def userByID_row)

lemma revoked_row_not_rotated:
  assumes "auth_ok db" "r \<in> set (ad_tokens db)" "rt_RevokedAt r \<noteq> None" "rt_ID row = rt_ID r"
  shows "\<exists>e. fst (rotateLocked env db row raw now) = Inl e"
proof (rule ccontr)
  assume "\<not> ?thesis"
  then obtain p u where "fst (rotateLocked env db row raw now) = Inr (p, u)" by (cases "fst (rotateLocked env db row raw now)") auto
  then have "rotateLocked env db row raw now = (Inr (p, u), snd (rotateLocked env db row raw now))" by (metis prod.collapse)
  from rotateLocked_table(3) [OF assms(1) this] obtain x where "x \<in> set (ad_tokens db)" "rt_ID x = rt_ID row" "rt_RevokedAt x = None" by blast
  then show False using row_unique [OF assms(1,2)] assms(3,4) by metis
qed

lemma revoked_row_not_parsed:
  assumes "auth_ok db" "r \<in> set (ad_tokens db)" "rt_RevokedAt r \<noteq> None" "parseAccessToken env tok now = Some c" "ac_RefreshID c = rt_ID r"
  shows "parseAccess env db tok now now' = Inl ErrInvalidAccessToken"
  using assms tokenByID_row [OF assms(1,2)] by (simp add: parseAccess_def split: option.split)

text \<open>Once the row of a link is used, every later row of its id is.\<close>

definition link_spent :: "auth_db \<Rightarrow> nat \<Rightarrow> bool" where
  "link_spent db i \<longleftrightarrow> i < ad_nextLink db \<and> (\<forall>x\<in>set (ad_links db). ot_ID x = i \<longrightarrow> ot_UsedAt x \<noteq> None)"

lemma link_spent_advances:
  assumes "advances db db'" "link_spent db i"
  shows "link_spent db' i"
  unfolding link_spent_def
proof (intro conjI ballI impI)
  show "i < ad_nextLink db'" using assms by (auto simp: advances_def db_later_def link_spent_def)
  fix x assume x: "x \<in> set (ad_links db')" "ot_ID x = i"
  then obtain t where t: "t \<in> set (ad_links db)" "link_later t x"
    using assms unfolding advances_def db_later_def links_later_def link_spent_def by blast
  then have "ot_UsedAt t \<noteq> None" using assms(2) x(2) by (simp add: link_spent_def link_later_def)
  then show "ot_UsedAt x \<noteq> None" using t(2) unfolding link_later_def by metis
qed

lemma consume_error: "consumeOneTimeToken db t now = (Inl e, db') \<Longrightarrow> e = ErrInvalidOneTimeToken"
  by (auto simp: consumeOneTimeToken_def Let_def split: sum.splits if_splits)

lemma consume_fails:
  assumes "\<And>x. x \<in> set (ad_links db) \<Longrightarrow> ot_ID x = ot_ID t \<Longrightarrow> ot_SentAt x \<noteq> None \<Longrightarrow> ot_UsedAt x \<noteq> None"
  shows "consumeOneTimeToken db t now = (Inl ErrInvalidOneTimeToken, db)"
proof (cases "consumeOneTimeToken db t now")
  case (Pair res db')
  show ?thesis
  proof (cases res)
    case (Inl e)
    then show ?thesis using Pair consume_error consumeOneTimeToken_Inl by blast
  next
    case (Inr u)
    then have "rowsWhere (\<lambda>x. ot_ID x = ot_ID t \<and> ot_SentAt x \<noteq> None \<and> ot_UsedAt x = None) (ad_links db) = 1"
      using Pair consumeOneTimeToken_Inr(7) by blast
    from bexE [OF rowsWhere_one [OF this]] show ?thesis using assms by blast
  qed
qed

lemma spent_link_refused: "link_spent db (ot_ID t) \<Longrightarrow> consumeOneTimeToken db t now = (Inl ErrInvalidOneTimeToken, db)"
  by (rule consume_fails) (auto simp: link_spent_def)

lemma consumed_link_spent:
  assumes "sys_ok s" "t \<in> set (sy_links s)" "consumeOneTimeToken (sy_db s) t now = (Inr u, db')"
  shows "link_spent db' (ot_ID t)"
proof -
  have lt: "ot_ID t < ad_nextLink (sy_db s)" using assms(1,2) by (simp add: sys_ok_def)
  note c = consumeOneTimeToken_Inr [OF assms(3)]
  let ?P = "\<lambda>x. ot_ID x = ot_ID t \<and> ot_SentAt x \<noteq> None \<and> ot_UsedAt x = None"
  obtain x where x: "x \<in> set (ad_links (sy_db s))" "?P x" by (rule bexE [OF rowsWhere_one [OF c(7)]])
  have d: "distinct (map ot_ID (ad_links (sy_db s)))" using sys_okD(1) [OF assms(1)] by (simp add: auth_ok_def links_ok_def)
  have "ot_UsedAt (markUsed ?P now y) \<noteq> None" if "y \<in> set (ad_links (sy_db s))" "ot_ID y = ot_ID t" for y
    using same_key [OF d that(1) x(1)] that(2) x(2) by simp
  then show ?thesis using lt c(8) unfolding link_spent_def by simp
qed

lemma used_link_spent:
  assumes "sys_ok s" "t \<in> set (sy_links s)"
    and "verifyLocked env (sy_db s) t now = (Inr u, db') \<or> resetLocked env (sy_db s) t hash now = (Inr u, db') \<or>
      emailChangeLocked (sy_db s) t now = (Inr u, db')"
  shows "link_spent db' (ot_ID t)"
proof -
  obtain res db1 where c: "consumeOneTimeToken (sy_db s) t now = (res, db1)" by (metis surj_pair)
  have "\<exists>v. res = Inr v" using assms(3) c
    by (cases res) (auto simp: verifyLocked_def resetLocked_def emailChangeLocked_def Let_def)
  then obtain v where v: "res = Inr v" by blast
  then have sp: "link_spent db1 (ot_ID t)" using consumed_link_spent [OF assms(1,2)] c by blast
  have keep: "link_spent (updateUser i f db) j = link_spent db j" "link_spent (revokeAllTx i n db) j = link_spent db j"
    "link_spent (Audit a x db) j = link_spent db j" for i f n a x db j
    by (simp_all add: link_spent_def updateUser_def revokeAllTx_def revokeWhere_def Audit_def)
  have void: "link_spent (voidTokensTx i ex n ps db) j" if "link_spent db j" for i ex n ps db j
    using that unfolding link_spent_def voidTokensTx_def updateRows_markUsed by auto
  show ?thesis using assms(3) c v sp
    by (auto simp: verifyLocked_def resetLocked_def emailChangeLocked_def Let_def keep void voidPasswordBoundTokensTx_def split: if_splits)
qed

subsection \<open>A concrete run\<close>

text \<open>An environment and a run of the system in it: an account is created, signs in, its session
  rotates, and a reset link is mailed and used.\<close>

definition demo_claims :: "nat \<Rightarrow> accessClaims" where
  "demo_claims i = \<lparr>ac_Subject = ''1'', ac_Email = ''a@b.c'', ac_RefreshID = i, ac_IssuedAt = 100 * Second,
     ac_NotBefore = 100 * Second, ac_ExpiresAt = 1000 * Second\<rparr>"

definition demo_parse :: "string \<Rightarrow> gotime \<Rightarrow> accessClaims option" where
  "demo_parse tok now = (case ParseUint tok of None \<Rightarrow> None
     | Some i \<Rightarrow> if 100 * Second \<le> now \<and> now < 1000 * Second then Some (demo_claims i) else None)"

definition demo_env :: auth_env where
  "demo_env = \<lparr>ev_cfg = \<lparr>cf_AccessTokenTTL = 900 * Second, cf_RefreshTokenTTL = 86400 * Second, cf_RefreshReuseGrace = 10 * Second,
       cf_EmailVerificationTTL = 0, cf_PasswordResetTTL = 0, cf_PasswordResetKeepSessions = False\<rparr>,
     ev_hash = Some, ev_compare = (\<lambda>h p. h = p), ev_sha256 = (\<lambda>x. x), ev_sign = (\<lambda>c. Some (natDigits (ac_RefreshID c))),
     ev_parse = demo_parse, ev_sessionMAC = (\<lambda>x. x), ev_lower = (\<lambda>c. c), ev_parseAddress = (\<lambda>e. Some ('''', e))\<rparr>"

definition demo_user :: User where
  "demo_user = \<lparr>us_ID = 1, us_Email = ''a@b.c'', us_PasswordHash = ''password1'', us_IsSuperuser = False, us_DisabledAt = None,
     us_EmailVerifiedAt = None, us_VerifiedEmail = ''''\<rparr>"

definition demo_row :: "nat \<Rightarrow> int \<Rightarrow> RefreshToken" where
  "demo_row i t = \<lparr>rt_ID = i, rt_UserID = 1, rt_TokenHash = ''r'' @ natDigits i, rt_ExpiresAt = (t + 86400) * Second, rt_RevokedAt = None,
     rt_ReplacedBy = None, rt_CreatedAt = t * Second\<rparr>"

definition demo_link :: OneTimeToken where
  "demo_link = \<lparr>ot_ID = 1, ot_UserID = 1, ot_Purpose = PurposeResetPassword, ot_TokenHash = ''l1'', ot_Email = ''a@b.c'',
     ot_FromEmail = ''a@b.c'', ot_ExpiresAt = 3700 * Second, ot_SentAt = None, ot_UsedAt = None, ot_CreatedAt = 100 * Second\<rparr>"

definition demo_sent :: OneTimeToken where "demo_sent = demo_link\<lparr>ot_SentAt := Some (101 * Second)\<rparr>"

text \<open>Signed in, the session's row and the user read.\<close>

definition demo_signed_in :: auth_sys where
  "demo_signed_in = \<lparr>sy_db = \<lparr>ad_users = [demo_user], ad_tokens = [demo_row 1 100], ad_links = [], ad_nextUser = 2, ad_nextToken = 2,
     ad_nextLink = 1, ad_audit = [(AuditLoginSucceeded, Some 1)]\<rparr>, sy_tokens = [demo_row 1 100], sy_links = [], sy_users = [demo_user]\<rparr>"

text \<open>And a reset link delivered and read.\<close>

definition demo_mailed :: auth_sys where
  "demo_mailed = demo_signed_in\<lparr>sy_db := (sy_db demo_signed_in)\<lparr>ad_links := [demo_sent], ad_nextLink := 2\<rparr>,
     sy_links := [demo_sent, demo_link]\<rparr>"

lemma demo_create: "createUser demo_env init_db ''a@b.c'' ''password1'' False 0 = (Inr demo_user, init_db\<lparr>ad_users := [demo_user], ad_nextUser := 2\<rparr>)"
  by code_simp

lemma demo_start: "snd (startSession demo_env (init_db\<lparr>ad_users := [demo_user], ad_nextUser := 2\<rparr>) demo_user ''r1'' (100 * Second)) = sy_db demo_signed_in"
  by code_simp

lemma demo_issue: "issueOneTimeToken demo_env (sy_db demo_signed_in) demo_user (resetFlow demo_env) ''l1'' (100 * Second) =
    (Inr demo_link, (sy_db demo_signed_in)\<lparr>ad_links := [demo_link], ad_nextLink := 2\<rparr>)"
  by code_simp

lemma demo_activate: "activateToken ((sy_db demo_signed_in)\<lparr>ad_links := [demo_link], ad_nextLink := 2\<rparr>) demo_link (101 * Second) =
    (Inr (), (sy_db demo_signed_in)\<lparr>ad_links := [demo_sent], ad_nextLink := 2\<rparr>)"
  by code_simp

lemma auth_reachable_init: "auth_reachable env init_sys"
  by (simp add: auth_reachable_def)

lemma auth_reachable_step: "auth_reachable env s \<Longrightarrow> auth_step env s s' \<Longrightarrow> auth_reachable env s'"
  unfolding auth_reachable_def by (rule rtranclp.rtrancl_into_rtrancl)

lemma auth_reachable_steps: "auth_reachable env s \<Longrightarrow> (auth_step env)\<^sup>*\<^sup>* s s' \<Longrightarrow> auth_reachable env s'"
  unfolding auth_reachable_def by (rule rtranclp_trans)

lemma demo_signed_in_reachable: "auth_reachable demo_env demo_signed_in"
proof -
  let ?db1 = "init_db\<lparr>ad_users := [demo_user], ad_nextUser := 2\<rparr>"
  let ?s1 = "on_db init_sys ?db1" let ?s2 = "?s1\<lparr>sy_users := [demo_user]\<rparr>" let ?s3 = "on_db ?s2 (sy_db demo_signed_in)"
  have 1: "auth_step demo_env init_sys ?s1"
    using as_create [of demo_env init_sys "''a@b.c''" "''password1''" False 0] demo_create by (simp add: init_sys_def)
  have 2: "auth_step demo_env ?s1 ?s2"
    using as_read_user [of demo_user ?s1 demo_env] by (simp add: on_db_def init_sys_def)
  have 3: "auth_step demo_env ?s2 ?s3"
    using as_start [of demo_user ?s2 demo_env "''r1''" "100 * Second"] demo_start by simp
  have 4: "auth_step demo_env ?s3 demo_signed_in"
    using as_read_token [of "demo_row 1 100" ?s3 demo_env] by (simp add: on_db_def init_sys_def demo_signed_in_def)
  show ?thesis by (rule auth_reachable_step [OF auth_reachable_step [OF auth_reachable_step [OF auth_reachable_step [OF auth_reachable_init 1] 2] 3] 4])
qed

lemma demo_mailed_reachable: "auth_reachable demo_env demo_mailed"
proof -
  let ?db1 = "(sy_db demo_signed_in)\<lparr>ad_links := [demo_link], ad_nextLink := 2\<rparr>"
  let ?s1 = "(on_db demo_signed_in ?db1)\<lparr>sy_links := [demo_link]\<rparr>" let ?s2 = "on_db ?s1 (sy_db demo_mailed)"
  have 1: "auth_step demo_env demo_signed_in ?s1"
    using as_issue [OF _ flow_reset demo_issue] by (simp add: demo_signed_in_def)
  have 2: "auth_step demo_env ?s1 ?s2"
    using as_activate [of demo_link ?s1 demo_env "101 * Second"] demo_activate by (simp add: demo_mailed_def)
  have 3: "auth_step demo_env ?s2 demo_mailed"
    using as_read_link [of demo_sent ?s2 demo_env] by (simp add: on_db_def demo_mailed_def)
  show ?thesis by (rule auth_reachable_step [OF auth_reachable_step [OF auth_reachable_step [OF demo_signed_in_reachable 1] 2] 3])
qed

subsection \<open>Properties\<close>

text \<open>C8: In every state the system can reach, however its requests interleave, the tables are
  well-formed: ids, emails and token hashes are unique; a refresh token that has a successor is
  revoked, its successor is a newer row of the same user, and no two rows share one; of the delivered
  unused links of a user for one purpose there is at most one; and every session of a disabled user is
  revoked and every link of theirs used.\<close>

theorem auth_well_formed:
  assumes "auth_reachable env s"
  shows "auth_ok (sy_db s)"
  using sys_okD(1) [OF auth_reachable_ok [OF assms]] .

theorem auth_well_formed_witness: "auth_ok (sy_db demo_mailed) \<and> ad_tokens (sy_db demo_mailed) \<noteq> [] \<and> ad_links (sy_db demo_mailed) \<noteq> []"
  using auth_well_formed [OF demo_mailed_reachable] by (simp add: demo_mailed_def demo_signed_in_def)

text \<open>C2: A session that ended stays ended. Once the row of a refresh token is revoked (by rotation,
  logout, a revocation, a password reset, a reuse or a disabled account), then in every later state the
  row is still there unchanged, no rotation of it succeeds, from whatever earlier read of the row, and
  no access token bound to it authenticates.\<close>

theorem ended_session_stays_ended:
  assumes "auth_reachable env s" "r \<in> set (ad_tokens (sy_db s))" "rt_RevokedAt r \<noteq> None" "(auth_step env)\<^sup>*\<^sup>* s s'"
  shows "r \<in> set (ad_tokens (sy_db s')) \<and>
    (rt_ID row = rt_ID r \<longrightarrow> (\<exists>e. fst (rotateLocked env (sy_db s') row raw now) = Inl e)) \<and>
    (\<forall>c. parseAccessToken env tok now = Some c \<longrightarrow> ac_RefreshID c = rt_ID r \<longrightarrow>
      parseAccess env (sy_db s') tok now now' = Inl ErrInvalidAccessToken)"
proof -
  have a: "advances (sy_db s) (sy_db s')" using auth_steps_advance [OF assms(4) auth_reachable_ok [OF assms(1)]] by blast
  have r: "r \<in> set (ad_tokens (sy_db s'))" by (rule revoked_row_stays [OF a assms(2,3)])
  show ?thesis
    using r revoked_row_not_rotated [OF advances_ok [OF a] r assms(3)] revoked_row_not_parsed [OF advances_ok [OF a] r assms(3)] by blast
qed

definition demo_rotated :: auth_sys where
  "demo_rotated = on_db demo_signed_in (snd (rotateLocked demo_env (sy_db demo_signed_in) (demo_row 1 100) ''r2'' (200 * Second)))"

lemma demo_rotate_step: "auth_step demo_env demo_signed_in demo_rotated"
  unfolding demo_rotated_def by (rule as_rotate) (simp add: demo_signed_in_def)

lemma demo_rotated_reachable: "auth_reachable demo_env demo_rotated"
  by (rule auth_reachable_step [OF demo_signed_in_reachable demo_rotate_step])

lemma demo_digits: "natDigits (Suc 0) = ''1''" "natDigits 2 = ''2''"
  by (code_simp, code_simp)

lemma demo_rotate: "rotateLocked demo_env (sy_db demo_signed_in) (demo_row 1 100) ''r2'' (200 * Second) =
    (Inr (\<lparr>tp_AccessToken = ''2'', tp_RefreshToken = ''r2'', tp_TokenType = ''Bearer'', tp_ExpiresIn = 900\<rparr>, demo_user),
     (sy_db demo_signed_in)\<lparr>ad_tokens := [(demo_row 1 100)\<lparr>rt_RevokedAt := Some (200 * Second), rt_ReplacedBy := Some 2\<rparr>, demo_row 2 200],
       ad_nextToken := 3\<rparr>)"
  by (simp add: rotateLocked_def demo_signed_in_def demo_row_def demo_env_def lockUserTx_def userByID_def demo_user_def Disabled_def
      rowsWhere_def revokeWhere_def updateRows_def issueTokens_def newRefreshRow_def hashRefreshToken_def signAccessToken_def
      accessClaimsOf_def readToken_def quot_def demo_digits)

lemma demo_rotated_db: "sy_db demo_rotated = (sy_db demo_signed_in)\<lparr>ad_tokens := [(demo_row 1 100)\<lparr>rt_RevokedAt := Some (200 * Second),
    rt_ReplacedBy := Some 2\<rparr>, demo_row 2 200], ad_nextToken := 3\<rparr>"
  unfolding demo_rotated_def on_db_fields demo_rotate by simp

lemma demo_uint: "ParseUint ''1'' = Some 1"
  using ParseUint_natDigits [of 1] demo_digits(1) by (simp add: MaxUint64_def)

lemma demo_parse_1: "parseAccessToken demo_env ''1'' (300 * Second) = Some (demo_claims 1)"
  by (simp add: parseAccessToken_def demo_env_def demo_parse_def demo_uint demo_claims_def)

theorem ended_session_stays_ended_witness:
  "(\<exists>e. fst (rotateLocked demo_env (sy_db demo_rotated) (demo_row 1 100) ''r3'' (300 * Second)) = Inl e) \<and>
   parseAccess demo_env (sy_db demo_rotated) ''1'' (300 * Second) (300 * Second) = Inl ErrInvalidAccessToken"
  using ended_session_stays_ended [OF demo_rotated_reachable _ _ rtranclp.rtrancl_refl, of "hd (ad_tokens (sy_db demo_rotated))"
      "demo_row 1 100" "''r3''" "300 * Second" "''1''" "300 * Second"] demo_parse_1
  unfolding demo_rotated_db by (simp add: demo_row_def demo_claims_def)

definition unrevoked :: "auth_db \<Rightarrow> RefreshToken set" where
  "unrevoked db = {r \<in> set (ad_tokens db). rt_RevokedAt r = None}"

lemma rotation_table:
  assumes ok: "auth_ok db" and rot: "rotateLocked env db row raw now = (Inr (pair, user), db')"
  shows "\<exists>n r. r \<in> unrevoked db \<and> rt_ID r = rt_ID row \<and> n \<notin> unrevoked db \<and> unrevoked db' = insert n (unrevoked db - {r}) \<and>
      rt_UserID n = us_ID user \<and> rt_TokenHash n = hashRefreshToken env raw \<and>
      r\<lparr>rt_RevokedAt := Some now, rt_ReplacedBy := Some (rt_ID n)\<rparr> \<in> set (ad_tokens db')"
proof -
  let ?g = "rotatedTo (rt_ID row) now (ad_nextToken db)" let ?n = "newRefreshRow env db user raw now"
  note t = rotateLocked_table [OF ok rot]
  obtain r where r: "r \<in> set (ad_tokens db)" "rt_ID r = rt_ID row" "rt_RevokedAt r = None" using t(3) by blast
  have un: "(?g x = x \<and> x \<noteq> r) \<or> (x = r \<and> rt_RevokedAt (?g x) \<noteq> None)" if "x \<in> set (ad_tokens db)" for x
  proof (cases "x = r")
    case False
    then have "rt_ID x \<noteq> rt_ID row" using row_unique [OF ok r(1) that] r(2) by metis
    then show ?thesis using False by (simp add: rotatedTo_def)
  qed (simp add: rotatedTo_def r(2))
  have toks: "set (ad_tokens db') = insert ?n (?g ` set (ad_tokens db))" using t(1) by simp
  have "unrevoked db' = insert ?n {y \<in> ?g ` set (ad_tokens db). rt_RevokedAt y = None}" unfolding unrevoked_def toks by auto
  also have "{y \<in> ?g ` set (ad_tokens db). rt_RevokedAt y = None} = unrevoked db - {r}"
  proof (intro set_eqI iffI)
    fix y assume "y \<in> {y \<in> ?g ` set (ad_tokens db). rt_RevokedAt y = None}"
    then obtain x where "x \<in> set (ad_tokens db)" "y = ?g x" "rt_RevokedAt (?g x) = None" by blast
    then show "y \<in> unrevoked db - {r}" using un [of x] by (auto simp: unrevoked_def)
  next
    fix y assume "y \<in> unrevoked db - {r}"
    then show "y \<in> {y \<in> ?g ` set (ad_tokens db). rt_RevokedAt y = None}" using un [of y] by (auto simp: unrevoked_def intro: rev_image_eqI)
  qed
  finally have "unrevoked db' = insert ?n (unrevoked db - {r})" .
  moreover have "?g r = r\<lparr>rt_RevokedAt := Some now, rt_ReplacedBy := Some (rt_ID ?n)\<rparr>" using r(2) by (simp add: rotatedTo_def)
  then have "r\<lparr>rt_RevokedAt := Some now, rt_ReplacedBy := Some (rt_ID ?n)\<rparr> \<in> set (ad_tokens db')" using toks r(1) by (metis image_eqI insertCI)
  moreover have "?n \<notin> unrevoked db" using t(2) by (auto simp: unrevoked_def image_iff dest!: bspec)
  moreover have "r \<in> unrevoked db" using r by (simp add: unrevoked_def)
  ultimately show ?thesis using r(2) by (intro exI [of _ ?n] exI [of _ r]) simp
qed

text \<open>C4: A refresh token rotates at most once. A successful rotation revokes exactly the row it was
  asked for and adds one unrevoked row of the same user under the new token's hash; the other rows are
  as they were; and in every later state another rotation of that token fails, also one that read the
  row before it was rotated.\<close>

theorem refresh_rotates_once:
  assumes "auth_reachable env s" "row \<in> set (sy_tokens s)"
    and rot: "rotateLocked env (sy_db s) row raw now = (Inr (pair, user), db')"
  shows "(\<exists>n r. r \<in> unrevoked (sy_db s) \<and> rt_ID r = rt_ID row \<and> n \<notin> unrevoked (sy_db s) \<and>
      unrevoked db' = insert n (unrevoked (sy_db s) - {r}) \<and>
      rt_UserID n = rt_UserID r \<and> rt_TokenHash n = hashRefreshToken env raw \<and>
      r\<lparr>rt_RevokedAt := Some now, rt_ReplacedBy := Some (rt_ID n)\<rparr> \<in> set (ad_tokens db')) \<and>
    (\<forall>s' row' raw' now'. (auth_step env)\<^sup>*\<^sup>* (on_db s db') s' \<longrightarrow> rt_ID row' = rt_ID row \<longrightarrow>
      (\<exists>e. fst (rotateLocked env (sy_db s') row' raw' now') = Inl e))"
proof (intro conjI allI impI)
  have sok: "sys_ok s" by (rule auth_reachable_ok [OF assms(1)])
  have ok: "auth_ok (sy_db s)" by (rule sys_okD(1) [OF sok])
  obtain n r where nr: "r \<in> unrevoked (sy_db s)" "rt_ID r = rt_ID row" "n \<notin> unrevoked (sy_db s)"
    "unrevoked db' = insert n (unrevoked (sy_db s) - {r})" "rt_UserID n = us_ID user" "rt_TokenHash n = hashRefreshToken env raw"
    "r\<lparr>rt_RevokedAt := Some now, rt_ReplacedBy := Some (rt_ID n)\<rparr> \<in> set (ad_tokens db')"
    using rotation_table [OF ok rot] by blast
  obtain r0 where r0: "r0 \<in> set (ad_tokens (sy_db s))" "row_later row r0" using sys_okD(2) [OF sok assms(2)] by blast
  have "r0 = r" using row_unique [OF ok _ r0(1), of r] r0(2) nr(1,2) by (simp add: unrevoked_def row_later_def)
  then have "rt_UserID n = rt_UserID r"
    using nr(5) r0(2) lockUserTx_Inr [OF rotateLocked_Inr(1) [OF rot]] by (simp add: row_later_def)
  then show "\<exists>n r. r \<in> unrevoked (sy_db s) \<and> rt_ID r = rt_ID row \<and> n \<notin> unrevoked (sy_db s) \<and>
      unrevoked db' = insert n (unrevoked (sy_db s) - {r}) \<and>
      rt_UserID n = rt_UserID r \<and> rt_TokenHash n = hashRefreshToken env raw \<and>
      r\<lparr>rt_RevokedAt := Some now, rt_ReplacedBy := Some (rt_ID n)\<rparr> \<in> set (ad_tokens db')" using nr by blast
  fix s' and row' :: RefreshToken and raw' now' assume st: "(auth_step env)\<^sup>*\<^sup>* (on_db s db') s'" and row': "rt_ID row' = rt_ID row"
  have "auth_step env s (on_db s db')" using as_rotate [OF assms(2), of env raw now] rot by simp
  then have "sys_ok (on_db s db')" using auth_step_advances sok by blast
  then have a: "advances db' (sy_db s')" using auth_steps_advance [OF st] by simp
  let ?r = "r\<lparr>rt_RevokedAt := Some now, rt_ReplacedBy := Some (rt_ID n)\<rparr>"
  have "?r \<in> set (ad_tokens (sy_db s'))" using revoked_row_stays [OF a nr(7)] by simp
  then show "\<exists>e. fst (rotateLocked env (sy_db s') row' raw' now') = Inl e"
    using revoked_row_not_rotated [OF advances_ok [OF a], of ?r row'] row' nr(2) by simp
qed

theorem refresh_rotates_once_witness:
  "\<exists>e. fst (rotateLocked demo_env (sy_db demo_rotated) (demo_row 1 100) ''r3'' (201 * Second)) = Inl e"
proof -
  have m: "demo_row 1 100 \<in> set (sy_tokens demo_signed_in)" by (simp add: demo_signed_in_def)
  have "on_db demo_signed_in (snd (rotateLocked demo_env (sy_db demo_signed_in) (demo_row 1 100) ''r2'' (200 * Second))) = demo_rotated"
    by (simp only: demo_rotated_def)
  then show ?thesis
    using refresh_rotates_once [OF demo_signed_in_reachable m demo_rotate, THEN conjunct2] unfolding demo_rotate snd_conv by (metis rtranclp.rtrancl_refl)
qed

end
