(* ===== verification/Auth_Lifecycle.thy ===== *)
theory Auth_Lifecycle
  imports Auth_Theorems
begin

section \<open>Accounts: reuse, links, passwords and disabled accounts\<close>

text \<open>
  The guarantees of the account lifecycle over the reachable states of \<open>Auth_System\<close>: what the
  presentation of a rotated token does, that a mailed link works once and only while it is the latest
  delivered, what a password reset ends, what a disabled account can still do (nothing), what
  \<open>revokeOtherSessions\<close> leaves, and for how long an access token authenticates.
\<close>

subsection \<open>Reuse of a rotated token\<close>

lemma others_image:
  assumes "\<And>x. P (g x) = P x" "\<And>x. P x \<Longrightarrow> g x = x"
  shows "{r \<in> g ` A. P r} = {r \<in> A. P r}"
proof (intro set_eqI iffI)
  fix r assume "r \<in> {r \<in> g ` A. P r}"
  then obtain x where x: "x \<in> A" "r = g x" "P r" by blast
  then have "g x = x" using assms(1) [of x] assms(2) [of x] by simp
  then show "r \<in> {r \<in> A. P r}" using x by simp
next
  fix r assume "r \<in> {r \<in> A. P r}"
  then show "r \<in> {r \<in> g ` A. P r}" using assms(2) [of r] by (auto intro: rev_image_eqI)
qed

lemma revokeAllTx_others:
  "{r \<in> set (ad_tokens (revokeAllTx i now db)). rt_UserID r \<noteq> i} = {r \<in> set (ad_tokens db). rt_UserID r \<noteq> i}"
proof -
  let ?g = "\<lambda>r. if rt_RevokedAt r = None \<and> rt_UserID r = i then r\<lparr>rt_RevokedAt := Some now\<rparr> else r"
  have t: "set (ad_tokens (revokeAllTx i now db)) = ?g ` set (ad_tokens db)" by (simp add: revokeAllTx_def revokeWhere_def updateRows_def)
  show ?thesis unfolding t by (rule others_image) auto
qed

lemma Audit_tokens [simp]: "ad_tokens (Audit a t db) = ad_tokens db" "ad_links (Audit a t db) = ad_links db" "ad_users (Audit a t db) = ad_users db"
  by (simp_all add: Audit_def)

text \<open>C9: Presenting a refresh token that was already rotated, while it is unexpired, is taken for
  theft: every session of its user ends, and no other user's row changes. The one exception is a token
  presented within the grace period whose successor has not been rotated in turn: a lost race, which
  revokes nothing.\<close>

theorem reuse_ends_every_session:
  assumes "auth_reachable env s" and row: "row \<in> set (ad_tokens (sy_db s))" "rt_RevokedAt row = Some a" "rt_ReplacedBy row = Some k"
    and "now < rt_ExpiresAt row" and u: "u \<in> set (ad_users (sy_db s))" "us_ID u = rt_UserID row" "\<not> Disabled u"
    and R: "rotateLocked env (sy_db s) row raw now = (res, db')"
  shows "\<exists>succ\<in>set (ad_tokens (sy_db s)). rt_ID succ = k \<and> rt_UserID succ = rt_UserID row \<and>
    (if 0 < cf_RefreshReuseGrace (ev_cfg env) \<and> now - cf_RefreshReuseGrace (ev_cfg env) < a \<and> rt_ReplacedBy succ = None
     then res = Inl (if activeRow now succ then ErrRotationRaced else ErrInvalidRefreshToken) \<and> ad_tokens db' = ad_tokens (sy_db s)
     else res = Inl ErrRefreshReuse \<and> {r \<in> unrevoked db'. rt_UserID r = rt_UserID row} = {} \<and>
       {r \<in> set (ad_tokens db'). rt_UserID r \<noteq> rt_UserID row} = {r \<in> set (ad_tokens (sy_db s)). rt_UserID r \<noteq> rt_UserID row})"
proof -
  have ok: "auth_ok (sy_db s)" by (rule sys_okD(1) [OF auth_reachable_ok [OF assms(1)]])
  then have "successor_ok (ad_tokens (sy_db s)) row" using row(1) by (simp add: auth_ok_def tokens_ok_def)
  then obtain succ where s: "succ \<in> set (ad_tokens (sy_db s))" "rt_ID succ = k" "rt_UserID succ = rt_UserID row"
    using row(3) unfolding successor_ok_def by blast
  have l: "lockRefreshRowTx (sy_db s) k = Inr succ" using tokenByID_row [OF ok s(1)] s(2) by (simp add: lockRefreshRowTx_def)
  have "rotateLocked env (sy_db s) row raw now = rotatedAgain env (sy_db s) row a k now"
    using lockUserTx_row [OF ok u(1)] u(2,3) row(2,3) assms(5) by (simp add: rotateLocked_def)
  then have R': "rotatedAgain env (sy_db s) row a k now = (res, db')" using R by simp
  have ended: "{r \<in> unrevoked (Audit AuditRefreshReuse t (revokeAllTx i now db)). rt_UserID r = i} = {}" for t i db
    using revokeAllTx_revokes [of _ i now db] by (auto simp: unrevoked_def)
  show ?thesis using s R' l ended revokeAllTx_others [of "rt_UserID row" now "sy_db s"]
    by (intro bexI [OF _ s(1)]) (auto simp: rotatedAgain_def Let_def split: if_splits)
qed

lemma demo_reuse: "fst (rotateLocked demo_env (sy_db demo_rotated) ((demo_row 1 100)\<lparr>rt_RevokedAt := Some (200 * Second), rt_ReplacedBy := Some 2\<rparr>)
    ''r3'' (300 * Second)) = Inl ErrRefreshReuse"
  by (simp add: demo_rotated_db rotateLocked_def rotatedAgain_def demo_signed_in_def demo_row_def demo_env_def lockUserTx_def userByID_def
      demo_user_def Disabled_def)

theorem reuse_ends_every_session_witness:
  "{r \<in> unrevoked (snd (rotateLocked demo_env (sy_db demo_rotated) ((demo_row 1 100)\<lparr>rt_RevokedAt := Some (200 * Second), rt_ReplacedBy := Some 2\<rparr>)
      ''r3'' (300 * Second))). rt_UserID r = 1} = {}"
proof -
  let ?row = "(demo_row 1 100)\<lparr>rt_RevokedAt := Some (200 * Second), rt_ReplacedBy := Some 2\<rparr>"
  let ?R = "rotateLocked demo_env (sy_db demo_rotated) ?row ''r3'' (300 * Second)"
  have R: "?R = (Inl ErrRefreshReuse, snd ?R)" using demo_reuse by (metis prod.collapse)
  have u: "demo_user \<in> set (ad_users (sy_db demo_rotated))" "?row \<in> set (ad_tokens (sy_db demo_rotated))"
    by (simp_all add: demo_rotated_db demo_signed_in_def)
  have "300 * Second < rt_ExpiresAt ?row" "us_ID demo_user = rt_UserID ?row" "\<not> Disabled demo_user" "rt_UserID ?row = 1"
    "rt_RevokedAt ?row = Some (200 * Second)" "rt_ReplacedBy ?row = Some 2"
    by (simp_all add: demo_row_def demo_user_def Disabled_def)
  from reuse_ends_every_session [OF demo_rotated_reachable u(2) this(5,6,1) u(1) this(2,3) R] this(4)
  show ?thesis by (auto split: if_splits)
qed

subsection \<open>Mailed links\<close>

text \<open>C11: A mailed link works once. After it verified an address, reset a password or changed an
  email, it is refused in every later state, for every purpose, whatever copy of its row the request
  had read.\<close>

theorem link_works_once:
  assumes "auth_reachable env s" "t \<in> set (sy_links s)"
    and use: "verifyLocked env (sy_db s) t now = (Inr u, db') \<or> resetLocked env (sy_db s) t hash now = (Inr u, db') \<or>
      emailChangeLocked (sy_db s) t now = (Inr u, db')"
    and steps: "(auth_step env)\<^sup>*\<^sup>* (on_db s db') s'" and t': "ot_ID t' = ot_ID t"
  shows "verifyLocked env (sy_db s') t' now' = (Inl ErrInvalidOneTimeToken, sy_db s') \<and>
    resetLocked env (sy_db s') t' hash' now' = (Inl ErrInvalidOneTimeToken, sy_db s') \<and>
    emailChangeLocked (sy_db s') t' now' = (Inl ErrInvalidOneTimeToken, sy_db s')"
proof -
  have sok: "sys_ok s" by (rule auth_reachable_ok [OF assms(1)])
  have "auth_step env s (on_db s db')"
    using use as_verify [OF assms(2), of env now] as_reset [OF assms(2), of env hash now] as_change_email [OF assms(2), of env now]
    by (auto simp: on_db_def)
  then have "sys_ok (on_db s db')" using auth_step_advances sok by blast
  then have a: "advances db' (sy_db s')" using auth_steps_advance [OF steps] by simp
  have "link_spent (sy_db s') (ot_ID t')" using link_spent_advances [OF a used_link_spent [OF sok assms(2) use]] t' by simp
  then have "consumeOneTimeToken (sy_db s') t' now' = (Inl ErrInvalidOneTimeToken, sy_db s')" by (rule spent_link_refused)
  then show ?thesis by (simp add: verifyLocked_def resetLocked_def emailChangeLocked_def)
qed

lemma demo_reset_works: "\<exists>u. fst (resetLocked demo_env (sy_db demo_mailed) demo_sent ''password2'' (200 * Second)) = Inr u"
  by (simp add: resetLocked_def consumeOneTimeToken_def demo_mailed_def demo_signed_in_def demo_sent_def demo_link_def lockUserTx_def
      userByID_def demo_user_def Disabled_def rowsWhere_def linkFrom_def Let_def)

theorem link_works_once_witness:
  "resetLocked demo_env (snd (resetLocked demo_env (sy_db demo_mailed) demo_sent ''password2'' (200 * Second))) demo_sent ''password3'' (201 * Second)
    = (Inl ErrInvalidOneTimeToken, snd (resetLocked demo_env (sy_db demo_mailed) demo_sent ''password2'' (200 * Second)))"
proof -
  let ?R = "resetLocked demo_env (sy_db demo_mailed) demo_sent ''password2'' (200 * Second)"
  obtain u where "?R = (Inr u, snd ?R)" using demo_reset_works by (metis prod.collapse)
  then have R: "verifyLocked demo_env (sy_db demo_mailed) demo_sent (200 * Second) = (Inr u, snd ?R) \<or> ?R = (Inr u, snd ?R) \<or>
      emailChangeLocked (sy_db demo_mailed) demo_sent (200 * Second) = (Inr u, snd ?R)" by blast
  have m: "demo_sent \<in> set (sy_links demo_mailed)" by (simp add: demo_mailed_def)
  show ?thesis using link_works_once [OF demo_mailed_reachable m R rtranclp.rtrancl_refl refl] by simp
qed

lemma activateToken_links:
  assumes "activateToken db t now = (Inr (), db')"
  shows "x \<in> set (ad_links db') \<Longrightarrow> ot_ID x \<noteq> ot_ID t \<Longrightarrow> ot_UserID x = ot_UserID t \<Longrightarrow> ot_Purpose x = ot_Purpose t \<Longrightarrow> \<not> liveLink x"
    "\<exists>x\<in>set (ad_links db'). ot_ID x = ot_ID t \<and> ot_SentAt x = Some now \<and> ot_UsedAt x = None"
proof -
  let ?P = "\<lambda>x. ot_ID x = ot_ID t \<and> ot_SentAt x = None \<and> ot_UsedAt x = None"
  let ?Q = "\<lambda>x. ot_UserID x = ot_UserID t \<and> ot_Purpose x = ot_Purpose t \<and> ot_SentAt x \<noteq> None \<and> ot_UsedAt x = None \<and> ot_ID x \<noteq> ot_ID t"
  let ?s = "\<lambda>x. if ?P x then x\<lparr>ot_SentAt := Some now\<rparr> else x"
  have one: "rowsWhere ?P (ad_links db) = 1" and db': "ad_links db' = map (markUsed ?Q now) (map ?s (ad_links db))"
    using assms by (auto simp: activateToken_def Let_def supersedeTokensTx_def updateRows_markUsed updateRows_def [of _ "ot_SentAt_update _"]
        split: sum.splits if_splits)
  show "\<not> liveLink x" if x: "x \<in> set (ad_links db')" "ot_ID x \<noteq> ot_ID t" "ot_UserID x = ot_UserID t" "ot_Purpose x = ot_Purpose t"
  proof -
    obtain y where "x = markUsed ?Q now y" using x(1) db' by auto
    then show ?thesis using x(2-4) by (auto simp: liveLink_def)
  qed
  obtain y where y: "y \<in> set (ad_links db)" "?P y" by (rule bexE [OF rowsWhere_one [OF one]])
  have "markUsed ?Q now (?s y) \<in> set (ad_links db')" unfolding db' set_map by (intro imageI y(1))
  moreover have "markUsed ?Q now (?s y) = y\<lparr>ot_SentAt := Some now\<rparr>" using y(2) by (simp add: markUsed_def)
  ultimately show "\<exists>x\<in>set (ad_links db'). ot_ID x = ot_ID t \<and> ot_SentAt x = Some now \<and> ot_UsedAt x = None"
    using y(2) by (intro bexI [of _ "y\<lparr>ot_SentAt := Some now\<rparr>"]) auto
qed

text \<open>C31: Only the latest delivered link works. Once a link is activated, every other link of the
  same user and purpose is refused; the one just activated is in the table, delivered and unused.\<close>

theorem latest_link_only:
  assumes "auth_reachable env s" "t \<in> set (sy_links s)" and act: "activateToken (sy_db s) t now = (Inr (), db')"
    and t': "t' \<in> set (sy_links s)" "ot_UserID t' = ot_UserID t" "ot_Purpose t' = ot_Purpose t" "ot_ID t' \<noteq> ot_ID t"
  shows "consumeOneTimeToken db' t' now' = (Inl ErrInvalidOneTimeToken, db') \<and>
    (\<exists>x\<in>set (ad_links db'). ot_ID x = ot_ID t \<and> ot_SentAt x = Some now \<and> ot_UsedAt x = None)"
proof -
  have sok: "sys_ok s" by (rule auth_reachable_ok [OF assms(1)])
  have "auth_step env s (on_db s db')" using as_activate [OF assms(2), of env now] act by simp
  then have s': "sys_ok (on_db s db')" using auth_step_advances sok by blast
  have "consumeOneTimeToken db' t' now' = (Inl ErrInvalidOneTimeToken, db')"
  proof (rule consume_fails)
    fix x assume x: "x \<in> set (ad_links db')" "ot_ID x = ot_ID t'" "ot_SentAt x \<noteq> None"
    have "link_later t' x" using sys_okD(3) [OF s'] x(1,2) t'(1) by simp
    then have "\<not> liveLink x" using activateToken_links(1) [OF act x(1)] x(2) t'(2-4) by (simp add: link_later_def)
    then show "ot_UsedAt x \<noteq> None" using x(3) by (simp add: liveLink_def)
  qed
  then show ?thesis using activateToken_links(2) [OF act] by blast
qed

definition demo_link2 :: OneTimeToken where
  "demo_link2 = demo_link\<lparr>ot_ID := 2, ot_TokenHash := ''l2'', ot_ExpiresAt := 3800 * Second, ot_CreatedAt := 200 * Second\<rparr>"

definition demo_again :: auth_sys where
  "demo_again = demo_mailed\<lparr>sy_db := (sy_db demo_mailed)\<lparr>ad_links := [demo_sent, demo_link2], ad_nextLink := 3\<rparr>,
     sy_links := [demo_link2, demo_sent, demo_link]\<rparr>"

lemmas demo_defs = demo_mailed_def demo_signed_in_def demo_sent_def demo_link_def demo_link2_def demo_user_def demo_env_def

lemma demo_issue2: "issueOneTimeToken demo_env (sy_db demo_mailed) demo_user (resetFlow demo_env) ''l2'' (200 * Second) =
    (Inr demo_link2, (sy_db demo_mailed)\<lparr>ad_links := [demo_sent, demo_link2], ad_nextLink := 3\<rparr>)"
  by (simp add: issueOneTimeToken_def demo_defs lockUserTx_def userByID_def Disabled_def resetFlow_def passwordResetTTL_def
      oneTimeWait_def sentInstant_def resendInterval_def DefaultPasswordResetTTL_def hashOpaqueToken_def Let_def)

lemma demo_again_reachable: "auth_reachable demo_env demo_again"
proof -
  have "demo_user \<in> set (sy_users demo_mailed)" by (simp add: demo_mailed_def demo_signed_in_def)
  from as_issue [OF this flow_reset demo_issue2] have "auth_step demo_env demo_mailed demo_again"
    by (simp add: demo_again_def on_db_def demo_mailed_def)
  then show ?thesis by (rule auth_reachable_step [OF demo_mailed_reachable])
qed

theorem latest_link_only_witness:
  "consumeOneTimeToken (snd (activateToken (sy_db demo_again) demo_link2 (201 * Second))) demo_sent (202 * Second) =
    (Inl ErrInvalidOneTimeToken, snd (activateToken (sy_db demo_again) demo_link2 (201 * Second)))"
proof -
  let ?R = "activateToken (sy_db demo_again) demo_link2 (201 * Second)"
  have m: "demo_link2 \<in> set (sy_links demo_again)" "demo_sent \<in> set (sy_links demo_again)" by (simp_all add: demo_again_def)
  have "fst ?R = Inr ()"
    by (simp add: activateToken_def demo_again_def demo_defs lockUserTx_def userByID_def rowsWhere_def Let_def)
  then have R: "?R = (Inr (), snd ?R)" by (metis prod.collapse)
  show ?thesis
    using latest_link_only [OF demo_again_reachable m(1) R m(2), of "202 * Second"] by (simp add: demo_sent_def demo_link2_def demo_link_def)
qed

subsection \<open>Passwords\<close>

lemma resetLocked_Inr:
  assumes "resetLocked env db t hash now = (Inr u, db')"
  obtains locked db1 where "consumeOneTimeToken db t now = (Inr locked, db1)" "u = locked\<lparr>us_PasswordHash := hash\<rparr>"
    "ad_users db' = updateRows (\<lambda>x. us_ID x = us_ID locked) (\<lambda>x. x\<lparr>us_PasswordHash := hash\<rparr>) (ad_users db)"
    "ad_tokens db' = (if cf_PasswordResetKeepSessions (ev_cfg env) then ad_tokens db else ad_tokens (revokeAllTx (us_ID locked) now db))"
proof -
  obtain res db1 where c: "consumeOneTimeToken db t now = (res, db1)" by (metis surj_pair)
  then obtain locked where l: "res = Inr locked" using assms by (cases res) (auto simp: resetLocked_def)
  have "ad_tokens db1 = ad_tokens db" "ad_users db1 = ad_users db" using consumeOneTimeToken_Inr(8) [OF c [unfolded l]] by simp_all
  then show thesis using assms c l
    by (intro that [of locked db1]) (auto simp: resetLocked_def Let_def voidPasswordBoundTokensTx_def voidTokensTx_def revokeAllTx_def
        revokeWhere_def updateUser_def)
qed

text \<open>A step that gives a user a password hash that was not theirs right before.\<close>

definition setsHash :: "nat \<Rightarrow> string \<Rightarrow> auth_sys \<Rightarrow> auth_sys \<Rightarrow> bool" where
  "setsHash i hash s s' \<longleftrightarrow> (\<exists>x\<in>set (ad_users (sy_db s')). us_ID x = i \<and> us_PasswordHash x = hash) \<and>
     \<not> (\<exists>x\<in>set (ad_users (sy_db s)). us_ID x = i \<and> us_PasswordHash x = hash)"

lemma hash_stays_away:
  assumes "(\<lambda>a b. auth_step env a b \<and> \<not> setsHash i hash a b)\<^sup>*\<^sup>* s s'"
    and "\<forall>x\<in>set (ad_users (sy_db s)). us_ID x = i \<longrightarrow> us_PasswordHash x \<noteq> hash"
  shows "\<forall>x\<in>set (ad_users (sy_db s')). us_ID x = i \<longrightarrow> us_PasswordHash x \<noteq> hash"
  using assms by (induction rule: rtranclp_induct) (auto simp: setsHash_def)

lemma startSession_other_hash:
  assumes "\<forall>x\<in>set (ad_users db). us_ID x = us_ID v \<longrightarrow> us_PasswordHash x \<noteq> us_PasswordHash v"
  shows "\<exists>e. fst (startSession env db v raw now) = Inl e"
  using assms by (auto simp: startSession_def dest!: lockUserTx_Inr split: sum.splits)

text \<open>C19: A password reset takes the account back. Unless the configuration keeps sessions over a
  reset (\<open>PasswordResetKeepSessions\<close>), every refresh token the user had is refused from then on, in
  every later state. And a login that had checked an old password before the reset cannot start its
  session right after it, nor in any later state that is reached without a step that gives the user
  that old password hash again.\<close>

theorem reset_ends_sessions:
  assumes "auth_reachable env s" "t \<in> set (sy_links s)" and R: "resetLocked env (sy_db s) t hash now = (Inr u, db')"
    and keep: "\<not> cf_PasswordResetKeepSessions (ev_cfg env)"
    and steps: "(auth_step env)\<^sup>*\<^sup>* (on_db s db') s'" and r: "r \<in> set (ad_tokens (sy_db s))" "rt_UserID r = us_ID u" "rt_ID row = rt_ID r"
    and v: "us_ID v = us_ID u" "us_PasswordHash v \<noteq> hash"
  shows "(\<exists>e. fst (rotateLocked env (sy_db s') row raw now') = Inl e) \<and>
    fst (startSession env db' v raw now') = Inl ErrInvalidCredentials \<and>
    ((\<lambda>a b. auth_step env a b \<and> \<not> setsHash (us_ID u) (us_PasswordHash v) a b)\<^sup>*\<^sup>* (on_db s db') s' \<longrightarrow>
       (\<exists>e. fst (startSession env (sy_db s') v raw now') = Inl e))"
proof (intro conjI impI)
  have sok: "sys_ok s" by (rule auth_reachable_ok [OF assms(1)])
  have "auth_step env s (on_db s db')" using as_reset [OF assms(2), of env hash now] R by simp
  then have s1: "sys_ok (on_db s db')" and a1: "advances (sy_db s) db'" using auth_step_advances sok by fastforce+
  then have a: "advances db' (sy_db s')" using auth_steps_advance [OF steps] by simp
  obtain locked db1 where l: "consumeOneTimeToken (sy_db s) t now = (Inr locked, db1)" "u = locked\<lparr>us_PasswordHash := hash\<rparr>"
    "ad_users db' = updateRows (\<lambda>x. us_ID x = us_ID locked) (\<lambda>x. x\<lparr>us_PasswordHash := hash\<rparr>) (ad_users (sy_db s))"
    "ad_tokens db' = ad_tokens (revokeAllTx (us_ID locked) now (sy_db s))"
    by (rule resetLocked_Inr [OF R]) (simp add: keep)
  obtain r' where r': "r' \<in> set (ad_tokens db')" "row_later r r'" using a1 r(1) unfolding advances_def db_later_def tokens_later_def by blast
  have "rt_UserID r' = us_ID locked" using r'(2) r(2) l(2) by (simp add: row_later_def)
  then have "rt_RevokedAt r' \<noteq> None" using revokeAllTx_revokes r'(1) unfolding l(4) by blast
  then show "\<exists>e. fst (rotateLocked env (sy_db s') row raw now') = Inl e"
    using revoked_row_not_rotated [OF advances_ok [OF a] revoked_row_stays [OF a r'(1)]] r'(2) r(3) by (simp add: row_later_def)
  note lk = lockUserTx_Inr [OF consumeOneTimeToken_Inr(1) [OF l(1)]] consumeOneTimeToken_Inr(2) [OF l(1)]
  have "u \<in> set (ad_users db')" unfolding l(3) updateRows_def set_map using lk(1) l(2) by (intro image_eqI [of _ _ locked]) auto
  then have "lockUserTx db' (us_ID v) = Inr u" using lockUserTx_row [OF advances_ok [OF a1]] v(1) by simp
  then show "fst (startSession env db' v raw now') = Inl ErrInvalidCredentials"
    using v(2) l(2) lk(2) by (simp add: startSession_def Disabled_def)
  assume fresh: "(\<lambda>a b. auth_step env a b \<and> \<not> setsHash (us_ID u) (us_PasswordHash v) a b)\<^sup>*\<^sup>* (on_db s db') s'"
  have "us_PasswordHash x \<noteq> us_PasswordHash v" if "x \<in> set (ad_users db')" "us_ID x = us_ID u" for x
    using that v(2) l(2) unfolding l(3) updateRows_def by (auto split: if_splits)
  then have "\<forall>x\<in>set (ad_users (sy_db s')). us_ID x = us_ID u \<longrightarrow> us_PasswordHash x \<noteq> us_PasswordHash v"
    using hash_stays_away [OF fresh] by simp
  then show "\<exists>e. fst (startSession env (sy_db s') v raw now') = Inl e" using startSession_other_hash v(1) by simp
qed

text \<open>The reset, then another step of the service: the old login still fails.\<close>

theorem reset_ends_sessions_witness:
  "let db = snd (resetLocked demo_env (sy_db demo_mailed) demo_sent ''password2'' (200 * Second)) in
   fst (startSession demo_env db demo_user ''r2'' (201 * Second)) = Inl ErrInvalidCredentials \<and>
   (\<exists>e. fst (startSession demo_env (Audit AuditLoginSucceeded None db) demo_user ''r2'' (201 * Second)) = Inl e)"
proof -
  let ?R = "resetLocked demo_env (sy_db demo_mailed) demo_sent ''password2'' (200 * Second)"
  let ?s = "on_db demo_mailed (snd ?R)"
  have "fst ?R = Inr (demo_user\<lparr>us_PasswordHash := ''password2''\<rparr>)"
    by (simp add: resetLocked_def consumeOneTimeToken_def demo_defs lockUserTx_def userByID_def Disabled_def rowsWhere_def linkFrom_def Let_def)
  then have R: "?R = (Inr (demo_user\<lparr>us_PasswordHash := ''password2''\<rparr>), snd ?R)" by (metis prod.collapse)
  have m: "demo_sent \<in> set (sy_links demo_mailed)" "demo_row 1 100 \<in> set (ad_tokens (sy_db demo_mailed))"
    "\<not> cf_PasswordResetKeepSessions (ev_cfg demo_env)" by (simp_all add: demo_mailed_def demo_signed_in_def demo_env_def)
  have step: "auth_step demo_env ?s (on_db ?s (Audit AuditLoginSucceeded None (sy_db ?s)))" by (rule as_audit)
  have "\<not> setsHash i hash ?s (on_db ?s (Audit AuditLoginSucceeded None (sy_db ?s)))" for i hash
    by (auto simp: setsHash_def Audit_def)
  then have fresh: "(\<lambda>a b. auth_step demo_env a b \<and> \<not> setsHash i hash a b)\<^sup>*\<^sup>* ?s (on_db ?s (Audit AuditLoginSucceeded None (sy_db ?s)))" for i hash
    using step by (intro r_into_rtranclp) simp
  show ?thesis
    using reset_ends_sessions [OF demo_mailed_reachable m(1) R m(3) r_into_rtranclp [of "auth_step demo_env", OF step] m(2) _ refl,
        of demo_user "''r2''" "201 * Second"] fresh
    by (simp add: demo_row_def demo_user_def Let_def)
qed

subsection \<open>Disabled accounts\<close>

text \<open>C13: A disabled account is locked out. In every state in which a user is disabled, none of
  their refresh tokens rotates, no link of theirs works, no access token that names them authenticates,
  no session can be started and the password cannot be changed, whatever was read before the account
  was disabled; and when the account is enabled again its old sessions stay revoked.\<close>

theorem disabled_locked_out:
  assumes "auth_reachable env s" and u: "u \<in> set (ad_users (sy_db s))" "Disabled u"
  shows "(rt_UserID row = us_ID u \<longrightarrow> rotateLocked env (sy_db s) row raw now = (Inl ErrInvalidRefreshToken, sy_db s)) \<and>
    (ot_UserID t = us_ID u \<longrightarrow> consumeOneTimeToken (sy_db s) t now = (Inl ErrInvalidOneTimeToken, sy_db s)) \<and>
    (us_ID v = us_ID u \<longrightarrow> fst (startSession env (sy_db s) v raw now) = Inl ErrAccountDisabled \<and>
      changePasswordLocked (sy_db s) v requester hash keepOther now = (Inl ErrAccountDisabled, sy_db s)) \<and>
    (\<forall>c. parseAccessToken env tok now = Some c \<longrightarrow> userIDFromSubject (ac_Subject c) = Some (us_ID u) \<longrightarrow>
      parseAccess env (sy_db s) tok now now' = Inl ErrInvalidAccessToken) \<and>
    {r \<in> unrevoked (snd (EnableUser (sy_db s) (us_ID u) now)). rt_UserID r = us_ID u} = {}"
proof (intro conjI impI allI)
  have ok: "auth_ok (sy_db s)" by (rule sys_okD(1) [OF auth_reachable_ok [OF assms(1)]])
  have l: "lockUserTx (sy_db s) (us_ID u) = Inr u" by (rule lockUserTx_row [OF ok u(1)])
  show "rotateLocked env (sy_db s) row raw now = (Inl ErrInvalidRefreshToken, sy_db s)" if "rt_UserID row = us_ID u"
    using that l u(2) by (simp add: rotateLocked_def)
  show "consumeOneTimeToken (sy_db s) t now = (Inl ErrInvalidOneTimeToken, sy_db s)" if "ot_UserID t = us_ID u"
    using that l u(2) by (simp add: consumeOneTimeToken_def)
  show "fst (startSession env (sy_db s) v raw now) = Inl ErrAccountDisabled" if "us_ID v = us_ID u"
    using that l u(2) by (simp add: startSession_def)
  show "changePasswordLocked (sy_db s) v requester hash keepOther now = (Inl ErrAccountDisabled, sy_db s)" if "us_ID v = us_ID u"
    using that l u(2) by (simp add: changePasswordLocked_def)
  show "parseAccess env (sy_db s) tok now now' = Inl ErrInvalidAccessToken"
    if "parseAccessToken env tok now = Some c" "userIDFromSubject (ac_Subject c) = Some (us_ID u)" for c
    using that userByID_row [OF ok u(1)] u(2) by (simp add: parseAccess_def)
  have "shut (us_ID u) (ad_tokens (sy_db s)) (ad_links (sy_db s))" using ok u by (simp add: auth_ok_def disabled_ok_def)
  then show "{r \<in> unrevoked (snd (EnableUser (sy_db s) (us_ID u) now)). rt_UserID r = us_ID u} = {}"
    using l u(2) by (auto simp: EnableUser_def setUserState_def unrevoked_def shut_def updateUser_def Disabled_def)
qed

definition demo_disabled :: auth_sys where
  "demo_disabled = on_db demo_mailed (snd (DisableUser (sy_db demo_mailed) 1 (150 * Second)))"

theorem disabled_locked_out_witness:
  "rotateLocked demo_env (sy_db demo_disabled) (demo_row 1 100) ''r2'' (200 * Second) = (Inl ErrInvalidRefreshToken, sy_db demo_disabled) \<and>
   consumeOneTimeToken (sy_db demo_disabled) demo_sent (200 * Second) = (Inl ErrInvalidOneTimeToken, sy_db demo_disabled)"
proof -
  have r: "auth_reachable demo_env demo_disabled"
    unfolding demo_disabled_def DisableUser_def by (rule auth_reachable_step [OF demo_mailed_reachable as_state])
  let ?u = "demo_user\<lparr>us_DisabledAt := Some (150 * Second)\<rparr>"
  have "ad_users (sy_db demo_disabled) = [?u]"
    by (simp add: demo_disabled_def DisableUser_def setUserState_def demo_defs lockUserTx_def userByID_def Disabled_def voidTokensTx_def
        revokeAllTx_def updateUser_def updateRows_def)
  then have u: "?u \<in> set (ad_users (sy_db demo_disabled))" "Disabled ?u" by (simp_all add: Disabled_def)
  show ?thesis
    using disabled_locked_out [OF r u, of "demo_row 1 100" "''r2''" "200 * Second" demo_sent]
    by (simp add: demo_row_def demo_user_def demo_sent_def demo_link_def)
qed

subsection \<open>Revoking the other sessions\<close>

lemma chainWalk_last:
  assumes "chainWalk db i hop nxt seen ids lst = (ids', Some r)" "\<And>l. lst = Some l \<Longrightarrow> l \<in> set (ad_tokens db)"
  shows "r \<in> set (ad_tokens db)"
  using assms
proof (induction db i hop nxt seen ids lst arbitrary: ids' rule: chainWalk.induct)
  case (1 db i hop nxt seen ids lst)
  show ?case
  proof (cases "hop < maxChainHops")
    case False
    then show ?thesis using 1(2,3) by (simp add: chainWalk.simps [of db i hop])
  next
    case hop: True
    show ?thesis
    proof (cases "find (\<lambda>r. rt_ID r = nxt \<and> rt_UserID r = i) (ad_tokens db)")
      case None
      then show ?thesis using hop 1(2,3) by (simp add: chainWalk.simps [of db i hop])
    next
      case (Some row)
      then have row: "row \<in> set (ad_tokens db)" using find_SomeD by fastforce
      show ?thesis
      proof (cases "\<exists>k. rt_ReplacedBy row = Some k \<and> k \<notin> set seen")
        case True
        then obtain k where k: "rt_ReplacedBy row = Some k" "k \<notin> set seen" by blast
        then have "chainWalk db i (hop + 1) k (k # seen) (ids @ [k]) (Some row) = (ids', Some r)"
          using 1(2) hop Some by (simp add: chainWalk.simps [of db i hop])
        then show ?thesis using 1(1) [OF _ Some k] hop row by simp
      next
        case False
        then have "r = row" using 1(2) hop Some by (auto simp: chainWalk.simps [of db i hop] split: option.splits if_splits)
        then show ?thesis using row by simp
      qed
    qed
  qed
qed

lemma chainWalk_head:
  assumes ok: "auth_ok db"
    and "chainWalk db i hop nxt seen ids lst = (ids', Some head)" "lst = None \<or> (\<exists>l. lst = Some l \<and> rt_ReplacedBy l \<noteq> None)"
    and "nxt \<in> set ids" "\<And>r. r \<in> set (ad_tokens db) \<Longrightarrow> rt_ID r \<in> set ids \<Longrightarrow> rt_ID r \<noteq> nxt \<Longrightarrow> rt_ReplacedBy r \<noteq> None"
    and "rt_ReplacedBy head = None"
  shows "head \<in> set (ad_tokens db) \<and> rt_UserID head = i \<and> rt_ID head \<in> set ids' \<and>
    (\<forall>r\<in>set (ad_tokens db). rt_ID r \<in> set ids' \<longrightarrow> rt_ID r \<noteq> rt_ID head \<longrightarrow> rt_ReplacedBy r \<noteq> None)"
  using assms
proof (induction db i hop nxt seen ids lst arbitrary: ids' rule: chainWalk.induct)
  case (1 db i hop nxt seen ids lst)
  let ?find = "find (\<lambda>r. rt_ID r = nxt \<and> rt_UserID r = i) (ad_tokens db)"
  have stop: "(ids', Some head) \<noteq> (ids, lst)" using 1(4,7) by auto
  then have hop: "hop < maxChainHops" using 1(3) by (auto simp: chainWalk.simps [of db i hop] split: if_splits)
  then obtain row where f: "?find = Some row" using 1(3) stop by (auto simp: chainWalk.simps [of db i hop] split: option.splits)
  then have row: "row \<in> set (ad_tokens db)" "rt_ID row = nxt" "rt_UserID row = i" using find_SomeD by fastforce+
  show ?case
  proof (cases "rt_ReplacedBy row")
    case None
    then have "ids' = ids" "head = row" using 1(3) hop f by (simp_all add: chainWalk.simps [of db i hop])
    then show ?thesis using row 1(5,6) by auto
  next
    case (Some k)
    have "k \<notin> set seen" using 1(3,7) hop f Some by (auto simp: chainWalk.simps [of db i hop])
    then have w: "chainWalk db i (hop + 1) k (k # seen) (ids @ [k]) (Some row) = (ids', Some head)"
      using 1(3) hop f Some by (simp add: chainWalk.simps [of db i hop])
    have rep: "rt_ReplacedBy r \<noteq> None" if "r \<in> set (ad_tokens db)" "rt_ID r \<in> set (ids @ [k])" "rt_ID r \<noteq> k" for r
      using that 1(6) [OF that(1)] row_unique [OF 1(2) row(1) that(1)] row(2) Some by (cases "rt_ID r = nxt") auto
    show ?thesis by (rule 1(1) [OF _ f Some \<open>k \<notin> set seen\<close> 1(2) w _ _ rep 1(7)]) (use hop Some in simp_all)
  qed
qed

text \<open>C20: Signing out everywhere else leaves one session. When \<open>revokeOtherSessions\<close> succeeds, the
  user has exactly one unrevoked refresh token left: the head of the requesting session, reached from
  the row the request was authenticated with, however often it rotated since; it is unexpired. No other
  user's row changes.\<close>

theorem revoke_others_keeps_one:
  assumes "auth_reachable env s" and R: "revokeOtherSessions (sy_db s) userID keepID now = (Inr (), db')"
  shows "\<exists>head. {r \<in> unrevoked db'. rt_UserID r = userID} = {head} \<and> head \<in> set (ad_tokens (sy_db s)) \<and> activeRow now head \<and>
    rt_ID head \<in> set (fst (sessionChain (sy_db s) userID keepID)) \<and>
    {r \<in> set (ad_tokens db'). rt_UserID r \<noteq> userID} = {r \<in> set (ad_tokens (sy_db s)). rt_UserID r \<noteq> userID}"
proof -
  let ?db = "sy_db s"
  have ok: "auth_ok ?db" by (rule sys_okD(1) [OF auth_reachable_ok [OF assms(1)]])
  obtain ids where ids: "requesterChain ?db userID keepID now = Inr ids"
    and db': "db' = Audit (AuditSessionRevoked ''others'') (Some userID) (revokeSessionsButTx userID ids now ?db)"
    using R by (auto simp: revokeOtherSessions_def revokeOtherSessionsTx_def split: sum.splits)
  then obtain head where c: "sessionChain ?db userID keepID = (ids, Some head)" and h: "rt_RevokedAt head = None" "now < rt_ExpiresAt head"
    by (auto simp: requesterChain_def split: prod.splits option.splits if_splits)
  have replaced: "rt_RevokedAt r \<noteq> None" if "r \<in> set (ad_tokens ?db)" "rt_ReplacedBy r \<noteq> None" for r
    using ok that unfolding auth_ok_def tokens_ok_def successor_ok_def by blast
  let ?g = "\<lambda>r. if rt_RevokedAt r = None \<and> rt_UserID r = userID \<and> rt_ID r \<notin> set ids then r\<lparr>rt_RevokedAt := Some now\<rparr> else r"
  have t: "set (ad_tokens db') = ?g ` set (ad_tokens ?db)"
    unfolding db' by (simp add: revokeSessionsButTx_def revokeWhere_def updateRows_def)
  have "head \<in> set (ad_tokens ?db)" using chainWalk_last [OF c [unfolded sessionChain_def]] by simp
  then have hn: "rt_ReplacedBy head = None" using replaced h(1) by blast
  have hd: "head \<in> set (ad_tokens ?db) \<and> rt_UserID head = userID \<and> rt_ID head \<in> set ids \<and>
      (\<forall>r\<in>set (ad_tokens ?db). rt_ID r \<in> set ids \<longrightarrow> rt_ID r \<noteq> rt_ID head \<longrightarrow> rt_ReplacedBy r \<noteq> None)"
    by (rule chainWalk_head [OF ok c [unfolded sessionChain_def] _ _ _ hn]) auto
  have live: "r = head" if "r \<in> set (ad_tokens ?db)" "rt_RevokedAt r = None" "rt_ID r \<in> set ids" for r
    using hd replaced that row_unique [OF ok _ that(1), of head] by metis
  have "{r \<in> unrevoked db'. rt_UserID r = userID} = {head}"
  proof (intro set_eqI iffI)
    fix r assume "r \<in> {r \<in> unrevoked db'. rt_UserID r = userID}"
    then obtain x where x: "x \<in> set (ad_tokens ?db)" "r = ?g x" "rt_RevokedAt r = None" "rt_UserID r = userID" unfolding unrevoked_def t by blast
    then have "rt_RevokedAt x = None \<and> rt_ID x \<in> set ids \<and> r = x" by (auto split: if_splits)
    then show "r \<in> {head}" using live [OF x(1)] by simp
  next
    fix r assume "r \<in> {head}"
    moreover have "?g head = head" using hd by simp
    ultimately show "r \<in> {r \<in> unrevoked db'. rt_UserID r = userID}" using hd h(1) unfolding unrevoked_def t by (auto intro: rev_image_eqI)
  qed
  moreover have "{r \<in> ?g ` set (ad_tokens ?db). rt_UserID r \<noteq> userID} = {r \<in> set (ad_tokens ?db). rt_UserID r \<noteq> userID}"
    by (rule others_image) auto
  ultimately show ?thesis using hd h c unfolding t by (intro exI [of _ head]) (simp add: activeRow_def)
qed

lemma demo_others: "fst (revokeOtherSessions (sy_db demo_rotated) 1 1 (300 * Second)) = Inr ()"
  by (simp add: revokeOtherSessions_def revokeOtherSessionsTx_def requesterChain_def sessionChain_def chainWalk.simps maxChainHops_def
      demo_rotated_db demo_defs demo_row_def lockUserTx_def userByID_def)

theorem revoke_others_keeps_one_witness:
  "\<exists>head. {r \<in> unrevoked (snd (revokeOtherSessions (sy_db demo_rotated) 1 1 (300 * Second))). rt_UserID r = 1} = {head}"
proof -
  let ?R = "revokeOtherSessions (sy_db demo_rotated) 1 1 (300 * Second)"
  have "?R = (Inr (), snd ?R)" using demo_others by (metis prod.collapse)
  from revoke_others_keeps_one [OF demo_rotated_reachable this] show ?thesis by blast
qed

subsection \<open>Access tokens\<close>

text \<open>What the JWT library does with a token it signed for \<open>c\<close>: its dates are kept to the second, the
  parser accepts it from \<open>nbf\<close> on and before \<open>exp\<close>, and returns the claims it was signed with.\<close>

definition numericDate :: "gotime \<Rightarrow> gotime" where
  "numericDate t = t - t mod Second"

definition inWindow :: "accessClaims \<Rightarrow> gotime \<Rightarrow> bool" where
  "inWindow c n \<longleftrightarrow> numericDate (ac_NotBefore c) \<le> n \<and> n < numericDate (ac_ExpiresAt c)"

definition jwt_accepts :: "auth_env \<Rightarrow> accessClaims \<Rightarrow> string \<Rightarrow> bool" where
  "jwt_accepts env c tok \<longleftrightarrow> (\<forall>n. ev_parse env tok n = (if inWindow c n then Some (c\<lparr>ac_IssuedAt := numericDate (ac_IssuedAt c),
     ac_NotBefore := numericDate (ac_NotBefore c), ac_ExpiresAt := numericDate (ac_ExpiresAt c)\<rparr>) else None))"

lemma userIDFromSubject_natDigits: "0 < n \<Longrightarrow> n \<le> MaxUint64 \<Longrightarrow> userIDFromSubject (natDigits n) = Some n"
  using natDigits_digits [of n] by (simp add: userIDFromSubject_def TrimSpace_digits ParseUint_natDigits)

lemma startSession_Inr:
  assumes "startSession env db v raw now = (Inr (u, pair), db')"
  shows "lockUserTx db (us_ID v) = Inr u" "\<not> Disabled u" "us_PasswordHash u = us_PasswordHash v"
    "\<exists>db1. issueTokens env db u raw now = (Inr pair, db1) \<and> db' = Audit AuditLoginSucceeded (Some (us_ID u)) db1"
  using assms by (auto simp: startSession_def split: sum.splits if_splits prod.splits)

text \<open>C12: An access token lasts exactly as long as its session. The token a login returns
  authenticates its user in a later state if and only if the clock is within the token's own window,
  the account is not disabled, and the refresh token row it is bound to is still unrevoked and
  unexpired.\<close>

theorem access_token_follows_session:
  assumes "auth_reachable env s" "v \<in> set (sy_users s)" and R: "startSession env (sy_db s) v raw now = (Inr (u, pair), db')"
    and jwt: "jwt_accepts env (accessClaimsOf u (ad_nextToken (sy_db s)) (cf_AccessTokenTTL (ev_cfg env)) now) (tp_AccessToken pair)"
    and bound: "us_ID u \<le> MaxUint64" and steps: "(auth_step env)\<^sup>*\<^sup>* (on_db s db') s'"
  shows "\<exists>r w. r \<in> set (ad_tokens (sy_db s')) \<and> rt_ID r = ad_nextToken (sy_db s) \<and> rt_ExpiresAt r = now + cf_RefreshTokenTTL (ev_cfg env) \<and>
    w \<in> set (ad_users (sy_db s')) \<and> us_ID w = us_ID u \<and>
    parseAccess env (sy_db s') (tp_AccessToken pair) n n' =
      (if inWindow (accessClaimsOf u (ad_nextToken (sy_db s)) (cf_AccessTokenTTL (ev_cfg env)) now) n \<and> \<not> Disabled w \<and> activeRow n' r
       then Inr (w, rt_ID r) else Inl ErrInvalidAccessToken)"
proof -
  let ?db = "sy_db s" let ?k = "ad_nextToken (sy_db s)" let ?c = "accessClaimsOf u ?k (cf_AccessTokenTTL (ev_cfg env)) now"
  have sok: "sys_ok s" by (rule auth_reachable_ok [OF assms(1)])
  have ok: "auth_ok ?db" by (rule sys_okD(1) [OF sok])
  have "auth_step env s (on_db s db')" using as_start [OF assms(2), of env raw now] R by simp
  then have s1: "sys_ok (on_db s db')" using auth_step_advances sok by blast
  then have a: "advances db' (sy_db s')" using auth_steps_advance [OF steps] by simp
  note i = startSession_Inr [OF R]
  obtain db1 where db1: "issueTokens env ?db u raw now = (Inr pair, db1)" "db' = Audit AuditLoginSucceeded (Some (us_ID u)) db1" using i(4) by blast
  have u: "u \<in> set (ad_users ?db)" "0 < us_ID u" "0 < ?k"
    using lockUserTx_Inr [OF i(1)] ok by (auto simp: auth_ok_def users_ok_def tokens_ok_def)
  have new: "newRefreshRow env ?db u raw now \<in> set (ad_tokens db')" "u \<in> set (ad_users db')"
    using issueTokens_Inr(1) [OF db1(1)] db1(2) u(1) by simp_all
  have later: "tokens_later (ad_tokens db') (ad_tokens (sy_db s'))" "us_ID ` set (ad_users db') \<subseteq> us_ID ` set (ad_users (sy_db s'))"
    using a by (simp_all add: advances_def db_later_def)
  obtain r where r: "r \<in> set (ad_tokens (sy_db s'))" "row_later (newRefreshRow env ?db u raw now) r"
    using later(1) new(1) unfolding tokens_later_def by blast
  have "us_ID u \<in> us_ID ` set (ad_users (sy_db s'))" using subsetD [OF later(2) imageI [OF new(2)]] .
  then obtain w where w: "w \<in> set (ad_users (sy_db s'))" "us_ID w = us_ID u" by auto
  have rf: "rt_ID r = ?k" "rt_UserID r = us_ID u" "rt_ExpiresAt r = now + cf_RefreshTokenTTL (ev_cfg env)" using r(2) by (simp_all add: row_later_def)
  have look: "userByID (sy_db s') (us_ID u) = Some w" "tokenByID (sy_db s') ?k = Some r"
    using userByID_row [OF advances_ok [OF a] w(1)] w(2) tokenByID_row [OF advances_ok [OF a] r(1)] rf(1) by simp_all
  have "parseAccess env (sy_db s') (tp_AccessToken pair) n n' =
      (if inWindow ?c n \<and> \<not> Disabled w \<and> activeRow n' r then Inr (w, rt_ID r) else Inl ErrInvalidAccessToken)"
    using jwt look rf w(2) u bound unfolding jwt_accepts_def
    by (simp add: parseAccess_def parseAccessToken_def accessClaimsOf_def natDigits_nonempty userIDFromSubject_natDigits activeRow_def)
  then show ?thesis using r(1) rf w by blast
qed

text \<open>The witness signs in again after a session exists, so that the token is bound to row 2.\<close>

theorem access_token_follows_session_witness:
  "\<exists>r w. rt_ID r = 2 \<and> us_ID w = 1 \<and> parseAccess demo_env (snd (startSession demo_env (sy_db demo_signed_in) demo_user ''r2'' (100 * Second))) ''2''
     (500 * Second) (500 * Second) =
     (if inWindow (accessClaimsOf demo_user 2 (900 * Second) (100 * Second)) (500 * Second) \<and> \<not> Disabled w \<and> activeRow (500 * Second) r
      then Inr (w, rt_ID r) else Inl ErrInvalidAccessToken)"
proof -
  let ?R = "startSession demo_env (sy_db demo_signed_in) demo_user ''r2'' (100 * Second)"
  let ?pair = "\<lparr>tp_AccessToken = ''2'', tp_RefreshToken = ''r2'', tp_TokenType = ''Bearer'', tp_ExpiresIn = 900\<rparr>"
  have "fst ?R = Inr (demo_user, ?pair)"
    by (simp add: startSession_def demo_defs demo_row_def demo_digits lockUserTx_def userByID_def Disabled_def issueTokens_def newRefreshRow_def
        hashRefreshToken_def signAccessToken_def accessClaimsOf_def quot_def Let_def)
  then have R: "?R = (Inr (demo_user, ?pair), snd ?R)" by (metis prod.collapse)
  have m: "demo_user \<in> set (sy_users demo_signed_in)" by (simp add: demo_signed_in_def)
  have p: "ParseUint ''2'' = Some 2" using ParseUint_natDigits [of 2] demo_digits(2) by (simp add: MaxUint64_def)
  have "jwt_accepts demo_env (accessClaimsOf demo_user 2 (900 * Second) (100 * Second)) ''2''"
    by (simp add: jwt_accepts_def inWindow_def accessClaimsOf_def numericDate_def demo_env_def demo_parse_def p demo_claims_def demo_user_def demo_digits)
  then have j: "jwt_accepts demo_env (accessClaimsOf demo_user (ad_nextToken (sy_db demo_signed_in)) (cf_AccessTokenTTL (ev_cfg demo_env)) (100 * Second))
      (tp_AccessToken ?pair)" by (simp add: demo_signed_in_def demo_env_def)
  have b: "us_ID demo_user \<le> MaxUint64" by (simp add: demo_user_def MaxUint64_def)
  from access_token_follows_session [OF demo_signed_in_reachable m R j b rtranclp.rtrancl_refl, of "500 * Second" "500 * Second"]
  obtain r w where "rt_ID r = ad_nextToken (sy_db demo_signed_in)" "us_ID w = us_ID demo_user"
    "parseAccess demo_env (sy_db (on_db demo_signed_in (snd ?R))) (tp_AccessToken ?pair) (500 * Second) (500 * Second) =
      (if inWindow (accessClaimsOf demo_user (ad_nextToken (sy_db demo_signed_in)) (cf_AccessTokenTTL (ev_cfg demo_env)) (100 * Second)) (500 * Second) \<and>
        \<not> Disabled w \<and> activeRow (500 * Second) r then Inr (w, rt_ID r) else Inl ErrInvalidAccessToken)" by (elim exE conjE)
  then show ?thesis by (intro exI [of _ r] exI [of _ w]) (simp add: demo_signed_in_def demo_user_def demo_env_def)
qed

end
