(* ===== verification/Go_URL.thy ===== *)
theory Go_URL
  imports Go_Strings
begin

section \<open>URL queries and signed numbers\<close>

text \<open>
  What the source uses of Go's \<open>net/url\<close> and \<open>strconv\<close> for signed links: \<open>url.Values\<close> with
  \<open>Get\<close>, \<open>Set\<close> and \<open>Encode\<close>, \<open>url.ParseQuery\<close> (as \<open>URL.Query\<close> calls it, malformed pairs
  dropped), \<open>url.QueryEscape\<close> and \<open>url.QueryUnescape\<close>, and \<open>strconv.ParseInt\<close> in base ten.  An
  encoded query parses back to the same values.
\<close>

subsection \<open>Percent encoding\<close>

definition upperHex :: "nat \<Rightarrow> char" where
  "upperHex n = (if n < 10 then char_of (48 + n) else char_of (55 + n))"

definition unhex :: "char \<Rightarrow> nat option" where
  "unhex c = (let n = of_char c in
     if 48 \<le> n \<and> n \<le> 57 then Some (n - 48)
     else if 65 \<le> n \<and> n \<le> 70 then Some (n - 55)
     else if 97 \<le> n \<and> n \<le> 102 then Some (n - 87) else None)"

definition unreserved :: "char \<Rightarrow> bool" where
  "unreserved c \<longleftrightarrow> (let n = (of_char c :: nat) in
     97 \<le> n \<and> n \<le> 122 \<or> 65 \<le> n \<and> n \<le> 90 \<or> 48 \<le> n \<and> n \<le> 57) \<or>
     c = CHR ''-'' \<or> c = CHR ''.'' \<or> c = CHR ''_'' \<or> c = CHR ''~''"

definition percent :: "char \<Rightarrow> string" where
  "percent c = [CHR ''%'', upperHex (of_char c div 16), upperHex (of_char c mod 16)]"

definition queryByte :: "char \<Rightarrow> string" where
  "queryByte c = (if unreserved c then [c] else if c = CHR '' '' then ''+'' else percent c)"

definition QueryEscape :: "string \<Rightarrow> string" where
  "QueryEscape s = concat (map queryByte s)"

fun QueryUnescape :: "string \<Rightarrow> string option" where
  "QueryUnescape [] = Some []"
| "QueryUnescape (c # cs) =
     (if c = CHR ''%'' then
        (case cs of
           a # b # rest \<Rightarrow>
             (case (unhex a, unhex b) of
                (Some x, Some y) \<Rightarrow> map_option (\<lambda>t. char_of (16 * x + y) # t) (QueryUnescape rest)
              | _ \<Rightarrow> None)
         | _ \<Rightarrow> None)
      else map_option (\<lambda>t. (if c = CHR ''+'' then CHR '' '' else c) # t) (QueryUnescape cs))"

subsection \<open>Values\<close>

type_synonym url_values = "(string \<times> string list) list"

definition valuesOf :: "url_values \<Rightarrow> string \<Rightarrow> string list" where
  "valuesOf q name = (case map_of q name of None \<Rightarrow> [] | Some vs \<Rightarrow> vs)"

definition Get :: "url_values \<Rightarrow> string \<Rightarrow> string" where
  "Get q name = (case valuesOf q name of [] \<Rightarrow> [] | v # _ \<Rightarrow> v)"

definition hasValue :: "url_values \<Rightarrow> string \<Rightarrow> bool" where
  "hasValue q name \<longleftrightarrow> map_of q name \<noteq> None"

definition queryPair :: "string \<times> string \<Rightarrow> string" where
  "queryPair kv = QueryEscape (fst kv) @ ''='' @ QueryEscape (snd kv)"

fun joinAmp :: "string list \<Rightarrow> string" where
  "joinAmp [] = []"
| "joinAmp [p] = p"
| "joinAmp (p # ps) = p @ CHR ''&'' # joinAmp ps"

text \<open>\<open>Values.Encode\<close>: the names sorted, each value with its name.\<close>

definition Encode :: "url_values \<Rightarrow> string" where
  "Encode q = joinAmp (concat (map (\<lambda>name. map (\<lambda>v. queryPair (name, v)) (valuesOf q name)) (sort (map fst q))))"

definition parsePair :: "string \<Rightarrow> (string \<times> string) option" where
  "parsePair piece =
     (if CHR '';'' \<in> set piece \<or> piece = [] then None
      else let (k, v) = (case CutByte CHR ''='' piece of None \<Rightarrow> (piece, []) | Some kv \<Rightarrow> kv) in
        (case (QueryUnescape k, QueryUnescape v) of
           (Some k, Some v) \<Rightarrow> Some (k, v)
         | _ \<Rightarrow> None))"

definition addPair :: "url_values \<Rightarrow> string \<times> string \<Rightarrow> url_values" where
  "addPair q kv = AList.update (fst kv) (valuesOf q (fst kv) @ [snd kv]) q"

definition ParseQuery :: "string \<Rightarrow> url_values" where
  "ParseQuery s = foldl addPair [] (List.map_filter parsePair (SplitByte CHR ''&'' s))"

subsection \<open>Escaping and back\<close>

lemma of_char_bound: "(of_char c :: nat) < 256"
  using of_char_mod_256 [of c] mod_less_divisor [of 256 "of_char c :: nat"] by simp

lemma nibbles: "of_char c div 16 < (16::nat)" "of_char c mod 16 < (16::nat)"
  using of_char_bound [of c] by (simp_all add: div_less_iff_less_mult)

lemma queryByte_unescape: "QueryUnescape (queryByte c @ cs) = map_option (\<lambda>t. c # t) (QueryUnescape cs)"
proof -
  have hex: "unhex (upperHex n) = Some n" if "n < 16" for n
    using that by (auto simp: unhex_def upperHex_def Let_def)
  have whole: "char_of (16 * (of_char c div 16) + of_char c mod (16::nat)) = c" by simp
  have plain: "unreserved c \<Longrightarrow> c \<noteq> CHR ''%'' \<and> c \<noteq> CHR ''+''" by (auto simp: unreserved_def)
  have "QueryUnescape (percent c @ cs) = map_option (\<lambda>t. c # t) (QueryUnescape cs)"
    using hex [OF nibbles(1) [of c]] hex [OF nibbles(2) [of c]] whole by (simp add: percent_def)
  then show ?thesis using plain by (simp add: queryByte_def)
qed

lemma QueryUnescape_Escape: "QueryUnescape (QueryEscape s) = Some s"
  by (induction s) (simp_all add: QueryEscape_def queryByte_unescape)

lemma queryByte_plain:
  "set (queryByte c) \<inter> {CHR ''&'', CHR '';'', CHR ''=''} = {}"
proof -
  have "upperHex n \<notin> {CHR ''&'', CHR '';'', CHR ''=''}" if "n < 16" for n
  proof -
    have "n \<in> set [0..<16]" using that by simp
    moreover have "list_all (\<lambda>n. upperHex n \<notin> {CHR ''&'', CHR '';'', CHR ''=''}) [0..<16]" by code_simp
    ultimately show ?thesis unfolding list_all_iff by blast
  qed
  from this [OF nibbles(1) [of c]] this [OF nibbles(2) [of c]]
  have "set (percent c) \<inter> {CHR ''&'', CHR '';'', CHR ''=''} = {}" unfolding percent_def by force
  moreover have "unreserved c \<Longrightarrow> c \<notin> {CHR ''&'', CHR '';'', CHR ''=''}" by (auto simp: unreserved_def)
  ultimately show ?thesis by (auto simp: queryByte_def)
qed

lemma QueryEscape_plain: "set (QueryEscape s) \<inter> {CHR ''&'', CHR '';'', CHR ''=''} = {}"
  using queryByte_plain unfolding QueryEscape_def by fastforce

lemma QueryEscape_unreserved: "list_all unreserved s \<Longrightarrow> QueryEscape s = s"
  by (induction s) (simp_all add: QueryEscape_def queryByte_def)

lemma parsePair_queryPair: "parsePair (queryPair (k, v)) = Some (k, v)"
proof -
  have no: "CHR ''='' \<notin> set (QueryEscape k)" "CHR '';'' \<notin> set (QueryEscape k)" "CHR '';'' \<notin> set (QueryEscape v)"
    using QueryEscape_plain by blast+
  then have "CutByte CHR ''='' (queryPair (k, v)) = Some (QueryEscape k, QueryEscape v)"
    by (simp add: queryPair_def CutByte_append)
  then show ?thesis using no by (auto simp: parsePair_def queryPair_def QueryUnescape_Escape)
qed

lemma SplitByte_joinAmp:
  "ps \<noteq> [] \<Longrightarrow> list_all (\<lambda>p. CHR ''&'' \<notin> set p) ps \<Longrightarrow> SplitByte CHR ''&'' (joinAmp ps) = ps"
  by (induction ps rule: joinAmp.induct) (simp_all add: SplitByte_none SplitByte_append)

lemma queryPair_plain: "CHR ''&'' \<notin> set (queryPair kv)"
  using QueryEscape_plain [of "fst kv"] QueryEscape_plain [of "snd kv"] by (auto simp: queryPair_def)

lemma ParseQuery_pairs:
  assumes "kvs \<noteq> []"
  shows "ParseQuery (joinAmp (map queryPair kvs)) = foldl addPair [] kvs"
proof -
  have "SplitByte CHR ''&'' (joinAmp (map queryPair kvs)) = map queryPair kvs"
    using assms by (intro SplitByte_joinAmp) (simp_all add: list_all_iff queryPair_plain)
  moreover have "List.map_filter parsePair (map queryPair kvs) = kvs"
    by (induction kvs) (auto simp: List.map_filter_simps parsePair_queryPair split: prod.splits)
  ultimately show ?thesis by (simp add: ParseQuery_def)
qed

lemma valuesOf_addPair:
  "valuesOf (addPair q (k, v)) name = (if name = k then valuesOf q k @ [v] else valuesOf q name)"
  by (simp add: addPair_def valuesOf_def)

subsection \<open>Signed numbers\<close>

text \<open>\<open>strconv.ParseInt(s, 10, 64)\<close>.\<close>

definition ParseInt :: "string \<Rightarrow> int option" where
  "ParseInt s =
     (let neg = (s \<noteq> [] \<and> hd s = CHR ''-'');
          ds = (if s \<noteq> [] \<and> (hd s = CHR ''-'' \<or> hd s = CHR ''+'') then tl s else s)
      in if ds = [] \<or> \<not> list_all isDigit ds then None
         else let n = (if neg then - int (digitsVal ds) else int (digitsVal ds)) in
           if in_int64 n then Some n else None)"

lemma isDigit_no_sign: "isDigit c \<Longrightarrow> c \<noteq> CHR ''-'' \<and> c \<noteq> CHR ''+''"
  by (auto simp: isDigit_def)

lemma natDigits_hd_sign: "hd (natDigits n) \<noteq> CHR ''-'' \<and> hd (natDigits n) \<noteq> CHR ''+''"
  using natDigits_digits [of n] isDigit_no_sign by (cases "natDigits n") auto

lemma ParseInt_FormatInt: "in_int64 i \<Longrightarrow> ParseInt (FormatInt i) = Some i"
  using natDigits_hd_sign [of "nat i"] natDigits_digits
  by (auto simp: ParseInt_def FormatInt_def Let_def)

end
