(* ===== verification/Storage_Presign.thy ===== *)
theory Storage_Presign
  imports Storage_Key Go_URL
begin

text \<open>
  Signed links (\<open>storage/presign/presign.go\<close>, with \<open>storage/url.go\<close>, \<open>storage/direct.go\<close> and the
  option rules of \<open>storage/key.go\<close>): the Signer makes a read link or an upload link for one key,
  and the handler decides, from a request's path and query alone, whether to read or store an
  object.  The handler's decision is modelled, with every check before it; the transfer of the
  bytes and the response headers are not.

  The keyed hash of the Signer's secret is the argument \<open>hmac\<close>: HMAC-SHA256 of a message, in
  base64url.  The properties hold of any function in its place; of a read link only that its output
  is made of characters a URL carries unchanged.  A hash has collisions, so the properties say what a
  request with a link's signature can do unless the very message the handler hashes for it collides
  with the one the link was signed for.  The JSON form of an upload's metadata is given by \<open>enc\<close> and
  \<open>dec\<close>.
\<close>

section \<open>Links and their rules\<close>

record URLOptions =
  uo_Signed :: bool
  uo_Expires :: duration

definition SignedURL :: "duration \<Rightarrow> URLOptions" where
  "SignedURL ttl = \<lparr>uo_Signed = True, uo_Expires = ttl\<rparr>"

definition MaxURLExpiry :: duration where
  "MaxURLExpiry = 7 * 24 * Hour"

definition ValidateURLOptions :: "URLOptions \<Rightarrow> bool" where
  "ValidateURLOptions opts =
     (if uo_Signed opts \<and> uo_Expires opts \<le> 0 then False
      else if uo_Signed opts \<and> uo_Expires opts mod Second \<noteq> 0 then False
      else if \<not> uo_Signed opts \<and> uo_Expires opts \<noteq> 0 then False
      else if uo_Expires opts > MaxURLExpiry then False
      else True)"

definition IsPublic :: "string \<Rightarrow> string \<Rightarrow> bool" where
  "IsPublic publicPrefix key \<longleftrightarrow> publicPrefix \<noteq> [] \<and> HasPrefix key publicPrefix"

definition ValidatePublicPrefix :: "string \<Rightarrow> bool" where
  "ValidatePublicPrefix p \<longleftrightarrow> PrefixProblem p = None"

definition EscapeKey :: "string \<Rightarrow> string" where
  "EscapeKey key = concat (map (\<lambda>c. if unreserved c \<or> c = CHR ''/'' then [c] else percent c) key)"

text \<open>The options of a stored object.  \<open>mediaType\<close> is \<open>mime.ParseMediaType\<close> without the
  parameters (\<open>None\<close> its error) and \<open>bEncode\<close> the RFC 2047 encoding of a value.\<close>

definition MaxContentTypeBytes :: int where "MaxContentTypeBytes = 256"
definition MaxMetadataBytes :: int where "MaxMetadataBytes = 2048"

definition MetadataValueWireLen :: "(string \<Rightarrow> string) \<Rightarrow> string \<Rightarrow> int" where
  "MetadataValueWireLen bEncode value =
     (if list_all (\<lambda>c. 0x20 \<le> (of_char c :: nat) \<and> of_char c \<le> (0x7e :: nat)) value
      then int (length value) else int (length (bEncode value)))"

definition metadataNameOk :: "string \<Rightarrow> bool" where
  "metadataNameOk name \<longleftrightarrow> name \<noteq> [] \<and>
     list_all (\<lambda>c. 97 \<le> (of_char c :: nat) \<and> of_char c \<le> (122 :: nat) \<or> isDigit c \<or> c = CHR ''-'') name"

definition containsEncodedWord :: "string \<Rightarrow> bool" where
  "containsEncodedWord v \<longleftrightarrow> list_ex (\<lambda>t. HasPrefix t ''=?'') (map (\<lambda>i. drop i v) [0..<length v])"

definition metadataValueOk :: "string \<Rightarrow> bool" where
  "metadataValueOk value =
     (case stringRunes value of
        None \<Rightarrow> False
      | Some rs \<Rightarrow>
          (value = [] \<or> hd value \<noteq> CHR '' '' \<and> last value \<noteq> CHR '' '') \<and>
          \<not> list_ex UnsafeRune rs \<and> \<not> containsEncodedWord value)"

definition ValidateMetadata :: "(string \<Rightarrow> string) \<Rightarrow> (string \<times> string) list \<Rightarrow> bool" where
  "ValidateMetadata bEncode md \<longleftrightarrow>
     list_all (\<lambda>(name, value). metadataNameOk name \<and> metadataValueOk value) md \<and>
     sum_list (map (\<lambda>(name, value). int (length ''x-amz-meta-'') + int (length name) +
       MetadataValueWireLen bEncode value) md) \<le> MaxMetadataBytes"

definition contentTypeOk :: "(string \<Rightarrow> string option) \<Rightarrow> string \<Rightarrow> bool" where
  "contentTypeOk mediaType ct =
     (if int (length ct) > MaxContentTypeBytes then False
      else if list_ex UnsafeRune (rangeRunes (map of_char ct)) then False
      else if ct = [] then True
      else (case mediaType ct of
              None \<Rightarrow> False
            | Some m \<Rightarrow> (case CutByte CHR ''/'' m of
                None \<Rightarrow> False
              | Some (typ, sub) \<Rightarrow> typ \<noteq> [] \<and> sub \<noteq> [] \<and> CHR ''/'' \<notin> set sub)))"

record UploadURLOptions =
  up_Expires :: duration
  up_Size :: int
  up_ContentType :: string
  up_Metadata :: "(string \<times> string) list"

definition ValidateUploadURLOptions ::
  "(string \<Rightarrow> string option) \<Rightarrow> (string \<Rightarrow> string) \<Rightarrow> UploadURLOptions \<Rightarrow> bool" where
  "ValidateUploadURLOptions mediaType bEncode opts \<longleftrightarrow>
     ValidateURLOptions (SignedURL (up_Expires opts)) \<and> \<not> up_Size opts < 0 \<and>
     contentTypeOk mediaType (up_ContentType opts) \<and> ValidateMetadata bEncode (up_Metadata opts)"

definition DefaultContentType :: string where
  "DefaultContentType = ''application/octet-stream''"

section \<open>The Signer\<close>

record Signer =
  sg_base :: string
  sg_path :: string
  sg_public :: string
  sg_scope :: string

datatype url_error = URLInvalidKey | URLInvalidOptions | URLNotPublic | URLMetadata

datatype link_error = ErrExpired | ErrSignature

text \<open>Go's clock as Unix seconds and back: a \<open>time.Time\<close> holds the seconds since year one, and
  \<open>time.Unix\<close> adds the difference in 64 bits.\<close>

definition unixToInternal :: int where "unixToInternal = 62135596800"

definition UnixSeconds :: "gotime \<Rightarrow> int" where
  "UnixSeconds now = now div Second - unixToInternal"

definition timeUnix :: "int \<Rightarrow> gotime" where
  "timeUnix sec = wrap64 (sec + unixToInternal) * Second"

definition lengthPrefixed :: "string \<Rightarrow> string" where
  "lengthPrefixed part = FormatInt (int (length part)) @ '':'' @ part"

definition macMessage :: "string list \<Rightarrow> string" where
  "macMessage parts = concat (map lengthPrefixed parts)"

definition mac :: "(string \<Rightarrow> string) \<Rightarrow> Signer \<Rightarrow> string \<Rightarrow> string \<Rightarrow> string list \<Rightarrow> string" where
  "mac hmac s kind key parts = hmac (macMessage ([kind, sg_scope s, sg_path s, key] @ parts))"

definition sign :: "(string \<Rightarrow> string) \<Rightarrow> Signer \<Rightarrow> string \<Rightarrow> string \<Rightarrow> string" where
  "sign hmac s key expires = mac hmac s ''gombit-storage-url-v2'' key [expires]"

definition signUpload :: "(string \<Rightarrow> string) \<Rightarrow> Signer \<Rightarrow> string \<Rightarrow> string \<Rightarrow> string \<Rightarrow> string \<Rightarrow> string \<Rightarrow> string" where
  "signUpload hmac s key e sz ct meta = mac hmac s ''gombit-storage-upload-v1'' key [e, sz, ct, meta]"

definition expiry :: "gotime \<Rightarrow> duration \<Rightarrow> int" where
  "expiry now ttl = wrap64 (UnixSeconds now + quot ttl Second)"

definition URL :: "(string \<Rightarrow> string) \<Rightarrow> Signer \<Rightarrow> gotime \<Rightarrow> string \<Rightarrow> URLOptions \<Rightarrow> url_error + string" where
  "URL hmac s now key opts =
     (if \<not> ValidateKey key then Inl URLInvalidKey
      else if \<not> ValidateURLOptions opts then Inl URLInvalidOptions
      else let u = sg_base s @ ''/'' @ EscapeKey key in
        if \<not> uo_Signed opts then
          (if \<not> IsPublic (sg_public s) key then Inl URLNotPublic else Inr u)
        else let e = FormatInt (expiry now (uo_Expires opts)) in
          Inr (u @ ''?expires='' @ e @ ''&signature='' @ sign hmac s key e))"

record UploadRequest =
  ur_Method :: string
  ur_URL :: string
  ur_Header :: "(string \<times> string) list"
  ur_Expires :: gotime

definition encodeMetadata :: "((string \<times> string) list \<Rightarrow> string option) \<Rightarrow> (string \<times> string) list \<Rightarrow> string option" where
  "encodeMetadata enc md = (if md = [] then Some [] else enc md)"

definition uploadQuery :: "string \<Rightarrow> string \<Rightarrow> string \<Rightarrow> string \<Rightarrow> string \<Rightarrow> url_values" where
  "uploadQuery e sz ct meta sig =
     [(''expires'', [e]), (''size'', [sz]), (''type'', [ct])] @
     (if meta \<noteq> [] then [(''meta'', [meta])] else []) @ [(''signature'', [sig])]"

definition UploadURL ::
  "(string \<Rightarrow> string) \<Rightarrow> ((string \<times> string) list \<Rightarrow> string option) \<Rightarrow> (string \<Rightarrow> string option) \<Rightarrow> (string \<Rightarrow> string)
   \<Rightarrow> Signer \<Rightarrow> gotime \<Rightarrow> string \<Rightarrow> UploadURLOptions \<Rightarrow> url_error + UploadRequest" where
  "UploadURL hmac enc mediaType bEncode s now key opts =
     (if \<not> ValidateKey key then Inl URLInvalidKey
      else if \<not> ValidateUploadURLOptions mediaType bEncode opts then Inl URLInvalidOptions
      else let ct = (if up_ContentType opts = [] then DefaultContentType else up_ContentType opts) in
        (case encodeMetadata enc (up_Metadata opts) of
           None \<Rightarrow> Inl URLMetadata
         | Some meta \<Rightarrow>
             let expires = expiry now (up_Expires opts);
                 e = FormatInt expires; sz = FormatInt (up_Size opts);
                 q = uploadQuery e sz ct meta (signUpload hmac s key e sz ct meta)
             in Inr \<lparr>ur_Method = ''PUT'', ur_URL = sg_base s @ ''/'' @ EscapeKey key @ ''?'' @ Encode q,
                     ur_Header = [(''Content-Type'', ct)], ur_Expires = timeUnix expires\<rparr>))"

section \<open>Checking a request\<close>

record grant =
  gr_size :: int
  gr_contentType :: string
  gr_metadata :: "(string \<times> string) list"
  gr_expires :: gotime

definition verifyUpload ::
  "(string \<Rightarrow> string) \<Rightarrow> (string \<Rightarrow> (string \<times> string) list option) \<Rightarrow> Signer \<Rightarrow> gotime \<Rightarrow> string \<Rightarrow> url_values
   \<Rightarrow> link_error + grant" where
  "verifyUpload hmac dec s now key q =
     (if list_ex (\<lambda>name. length (valuesOf q name) \<noteq> 1) [''expires'', ''size'', ''type'', ''signature'']
      then Inl ErrSignature
      else if length (valuesOf q ''meta'') > 1 then Inl ErrSignature
      else let e = Get q ''expires''; sz = Get q ''size''; ct = Get q ''type''; meta = Get q ''meta'' in
        if Get q ''signature'' \<noteq> signUpload hmac s key e sz ct meta then Inl ErrSignature
        else (case ParseInt e of
            None \<Rightarrow> Inl ErrSignature
          | Some expires \<Rightarrow>
              if \<not> now < timeUnix expires then Inl ErrExpired
              else (case ParseInt sz of
                  None \<Rightarrow> Inl ErrSignature
                | Some n \<Rightarrow>
                    if n < 0 then Inl ErrSignature
                    else let g = (\<lambda>md. \<lparr>gr_size = n, gr_contentType = ct, gr_metadata = md,
                                        gr_expires = timeUnix expires\<rparr>) in
                      if meta = [] then Inr (g [])
                      else (case dec meta of None \<Rightarrow> Inl ErrSignature | Some md \<Rightarrow> Inr (g md)))))"

definition Verify :: "(string \<Rightarrow> string) \<Rightarrow> Signer \<Rightarrow> gotime \<Rightarrow> string \<Rightarrow> url_values \<Rightarrow> link_error option" where
  "Verify hmac s now key q =
     (if \<not> hasValue q ''signature'' \<and> \<not> hasValue q ''expires'' \<and> IsPublic (sg_public s) key then None
      else let e = Get q ''expires''; sig = Get q ''signature'' in
        if length (valuesOf q ''expires'') \<noteq> 1 \<or> length (valuesOf q ''signature'') \<noteq> 1 then Some ErrSignature
        else (case ParseInt e of
            None \<Rightarrow> Some ErrSignature
          | Some expires \<Rightarrow>
              if expires \<le> 0 then Some ErrSignature
              else if sig \<noteq> sign hmac s key e then Some ErrSignature
              else if \<not> now < timeUnix expires then Some ErrExpired
              else None))"

record request =
  rq_Method :: string
  rq_Path :: string
  rq_Query :: string
  rq_ContentType :: string
  rq_ContentLength :: int

text \<open>What the handler does with a request: one of its refusals, opening an object, or storing
  the body under a key where nothing is stored yet, aborted at a deadline.\<close>

datatype action =
    MethodNotAllowed
  | FileNotFound
  | Forbidden
  | OpenObject string
  | PutIfAbsent string grant gotime

definition uploadTimeout :: duration where
  "uploadTimeout = Hour"

definition serveUpload ::
  "(string \<Rightarrow> string) \<Rightarrow> (string \<Rightarrow> (string \<times> string) list option) \<Rightarrow> Signer \<Rightarrow> gotime \<Rightarrow> request \<Rightarrow> string
   \<Rightarrow> url_values \<Rightarrow> action" where
  "serveUpload hmac dec s now r key q =
     (case verifyUpload hmac dec s now key q of
        Inl _ \<Rightarrow> Forbidden
      | Inr g \<Rightarrow>
          if rq_ContentType r \<noteq> gr_contentType g \<or> rq_ContentLength r \<noteq> gr_size g then Forbidden
          else PutIfAbsent key g (gr_expires g + uploadTimeout))"

definition Handler ::
  "(string \<Rightarrow> string) \<Rightarrow> (string \<Rightarrow> (string \<times> string) list option) \<Rightarrow> Signer \<Rightarrow> gotime \<Rightarrow> request \<Rightarrow> action" where
  "Handler hmac dec s now r =
     (if rq_Method r \<noteq> ''GET'' \<and> rq_Method r \<noteq> ''HEAD'' \<and> rq_Method r \<noteq> ''PUT'' then MethodNotAllowed
      else let root = sg_path s @ ''/''; key = drop (length root) (rq_Path r) in
        if \<not> HasPrefix (rq_Path r) root \<or> \<not> ValidateKey key then FileNotFound
        else let q = ParseQuery (rq_Query r) in
          if rq_Method r = ''PUT'' then serveUpload hmac dec s now r key q
          else (case Verify hmac s now key q of Some _ \<Rightarrow> Forbidden | None \<Rightarrow> OpenObject key))"

section \<open>A message splits one way only\<close>

lemma digits_colon:
  assumes "natDigits m @ CHR '':'' # x = natDigits n @ CHR '':'' # y"
  shows "m = n \<and> x = y"
proof -
  have colon: "\<not> isDigit CHR '':''" by (simp add: isDigit_def)
  have tw: "takeWhile isDigit (natDigits k @ CHR '':'' # z) = natDigits k"
    and dw: "dropWhile isDigit (natDigits k @ CHR '':'' # z) = CHR '':'' # z" for k z
    using natDigits_digits [of k] colon by (simp_all add: takeWhile_append dropWhile_append list_all_iff)
  have "natDigits m = natDigits n" using tw [of m x] tw [of n y] assms by simp
  moreover have "x = y" using dw [of m x] dw [of n y] assms by simp
  ultimately show ?thesis by (metis digitsVal_natDigits)
qed

lemma lengthPrefixed_inj:
  assumes "lengthPrefixed p @ x = lengthPrefixed q @ y"
  shows "p = q \<and> x = y"
proof -
  have "natDigits (length p) @ CHR '':'' # p @ x = natDigits (length q) @ CHR '':'' # q @ y"
    using assms by (simp add: lengthPrefixed_def FormatInt_def)
  from digits_colon [OF this] show ?thesis by auto
qed

lemma lengthPrefixed_nonempty: "lengthPrefixed p \<noteq> []"
  by (simp add: lengthPrefixed_def)

lemma macMessage_inj: "macMessage ps = macMessage qs \<Longrightarrow> ps = qs"
proof (induction ps arbitrary: qs)
  case Nil
  then show ?case by (cases qs) (simp_all add: macMessage_def lengthPrefixed_nonempty)
next
  case (Cons p ps)
  obtain q rest where qs: "qs = q # rest"
    using Cons.prems by (cases qs) (simp_all add: macMessage_def lengthPrefixed_nonempty)
  have "p = q \<and> macMessage ps = macMessage rest"
    using Cons.prems by (intro lengthPrefixed_inj) (simp add: macMessage_def qs)
  then show ?case using Cons.IH qs by simp
qed

text \<open>The messages a read link and an upload link are signed for.\<close>

definition readMessage :: "Signer \<Rightarrow> string \<Rightarrow> string \<Rightarrow> string" where
  "readMessage s key e = macMessage [''gombit-storage-url-v2'', sg_scope s, sg_path s, key, e]"

definition uploadMessage :: "Signer \<Rightarrow> string \<Rightarrow> string \<Rightarrow> string \<Rightarrow> string \<Rightarrow> string \<Rightarrow> string" where
  "uploadMessage s key e sz ct meta =
     macMessage [''gombit-storage-upload-v1'', sg_scope s, sg_path s, key, e, sz, ct, meta]"

text \<open>Two different messages with one hash.\<close>

definition collides :: "(string \<Rightarrow> string) \<Rightarrow> string \<Rightarrow> string \<Rightarrow> bool" where
  "collides hmac m m' \<longleftrightarrow> m \<noteq> m' \<and> hmac m = hmac m'"

lemma sign_message: "sign hmac s key e = hmac (readMessage s key e)"
  by (simp add: sign_def mac_def readMessage_def)

lemma signUpload_message: "signUpload hmac s key e sz ct meta = hmac (uploadMessage s key e sz ct meta)"
  by (simp add: signUpload_def mac_def uploadMessage_def)

lemma readMessage_inj: "readMessage s key e = readMessage s key' e' \<Longrightarrow> key = key' \<and> e = e'"
  unfolding readMessage_def by (drule macMessage_inj) simp

lemma uploadMessage_inj:
  "uploadMessage s key e sz ct meta = uploadMessage s key' e' sz' ct' meta' \<Longrightarrow>
   key = key' \<and> e = e' \<and> sz = sz' \<and> ct = ct' \<and> meta = meta'"
  unfolding uploadMessage_def by (drule macMessage_inj) simp

lemma read_not_upload: "readMessage s key e \<noteq> uploadMessage s key' e' sz ct meta"
  unfolding readMessage_def uploadMessage_def by (rule notI, drule macMessage_inj) simp

text \<open>What the handler hashes for a request of a key with a query.\<close>

definition readHashed :: "Signer \<Rightarrow> string \<Rightarrow> url_values \<Rightarrow> string" where
  "readHashed s key q = readMessage s key (Get q ''expires'')"

definition uploadHashed :: "Signer \<Rightarrow> string \<Rightarrow> url_values \<Rightarrow> string" where
  "uploadHashed s key q =
     uploadMessage s key (Get q ''expires'') (Get q ''size'') (Get q ''type'') (Get q ''meta'')"

section \<open>Queries and clocks\<close>

lemma valuesOf_foldl:
  "valuesOf (foldl addPair q kvs) name = valuesOf q name @ map snd (filter (\<lambda>kv. fst kv = name) kvs)"
proof (induction kvs arbitrary: q)
  case (Cons kv kvs)
  then show ?case by (cases kv) (simp add: valuesOf_addPair)
qed simp

lemma hasValue_foldl: "hasValue (foldl addPair q kvs) name \<longleftrightarrow> hasValue q name \<or> name \<in> fst ` set kvs"
proof (induction kvs arbitrary: q)
  case (Cons kv kvs)
  then show ?case by (auto simp: addPair_def hasValue_def)
qed simp

lemma ParseQuery_Nil: "ParseQuery [] = []"
  by (simp add: ParseQuery_def parsePair_def List.map_filter_simps)

lemma ParseQuery_joined: "ParseQuery (joinAmp (map queryPair kvs)) = foldl addPair [] kvs"
  by (cases "kvs = []") (simp_all add: ParseQuery_pairs ParseQuery_Nil)

lemma filter_pairs:
  assumes "distinct names"
  shows "map snd (filter (\<lambda>kv. fst kv = name) (concat (map (\<lambda>n. map (Pair n) (f n)) names))) =
    (if name \<in> set names then f name else [])"
  using assms by (induction names) (auto simp: filter_empty_conv comp_def filter_map)

lemma ParseQuery_Encode:
  assumes "distinct (map fst q)"
  shows "valuesOf (ParseQuery (Encode q)) name = valuesOf q name"
proof -
  let ?kvs = "concat (map (\<lambda>n. map (Pair n) (valuesOf q n)) (sort (map fst q)))"
  have "Encode q = joinAmp (map queryPair ?kvs)" by (simp add: Encode_def map_concat comp_def)
  then have "valuesOf (ParseQuery (Encode q)) name = map snd (filter (\<lambda>kv. fst kv = name) ?kvs)"
    by (simp only: ParseQuery_joined valuesOf_foldl) (simp add: valuesOf_def)
  also have "\<dots> = (if name \<in> set (sort (map fst q)) then valuesOf q name else [])"
    using assms by (intro filter_pairs) simp
  also have "\<dots> = valuesOf q name"
    by (auto simp: valuesOf_def split: option.splits dest: map_of_SomeD) (force dest: map_of_SomeD)
  finally show ?thesis .
qed

lemma FormatInt_unreserved: "list_all unreserved (FormatInt i)"
proof -
  have "isDigit c \<Longrightarrow> unreserved c" for c by (simp add: isDigit_def unreserved_def Let_def)
  then have "list_all unreserved (natDigits n)" for n using natDigits_digits [of n] by (simp add: list_all_iff)
  then show ?thesis by (simp add: FormatInt_def unreserved_def)
qed

text \<open>A clock between 1970 and far enough from the end of 64-bit seconds that a lifetime fits.\<close>

definition linkClock :: "gotime \<Rightarrow> bool" where
  "linkClock now \<longleftrightarrow> unixToInternal \<le> now div Second \<and> now div Second \<le> 2305843009213693952"

definition linkEnds :: "gotime \<Rightarrow> duration \<Rightarrow> gotime" where
  "linkEnds now ttl = now div Second * Second + ttl"

lemma expiry_valid:
  assumes "linkClock now" "ValidateURLOptions (SignedURL ttl)"
  shows "0 < expiry now ttl \<and> in_int64 (expiry now ttl) \<and> timeUnix (expiry now ttl) = linkEnds now ttl"
proof -
  have ttl: "0 < ttl" "ttl mod Second = 0" "ttl \<le> 604800000000000"
    using assms(2) by (simp_all add: ValidateURLOptions_def SignedURL_def MaxURLExpiry_def split: if_splits)
  define n where "n = ttl div Second"
  have n: "ttl = n * Second" "0 < n" "n \<le> 604800" using ttl by (auto simp: n_def)
  have q: "quot ttl Second = n" using ttl(1) by (simp add: quot_nonneg n_def)
  have "in_int64 (UnixSeconds now + n)"
    using assms(1) n by (auto simp: linkClock_def UnixSeconds_def unixToInternal_def int64_defs)
  then have e: "expiry now ttl = UnixSeconds now + n" by (simp add: expiry_def q)
  have "in_int64 (expiry now ttl + unixToInternal)"
    unfolding e using assms(1) n(2,3) by (auto simp: linkClock_def UnixSeconds_def unixToInternal_def int64_defs)
  then have "timeUnix (expiry now ttl) = (expiry now ttl + unixToInternal) * Second" by (simp add: timeUnix_def)
  also have "\<dots> = linkEnds now ttl"
    unfolding e linkEnds_def UnixSeconds_def by (simp only: n(1)) (simp add: algebra_simps)
  finally show ?thesis using e \<open>in_int64 (UnixSeconds now + n)\<close> n(2) assms(1)
    by (simp add: linkClock_def UnixSeconds_def)
qed

section \<open>What a link allows\<close>

lemma Get_single: "valuesOf q name = [v] \<Longrightarrow> Get q name = v"
  by (simp add: Get_def)

lemma Get_signed: "x \<in> set (valuesOf q name) \<Longrightarrow> length (valuesOf q name) = 1 \<Longrightarrow> Get q name = x"
  by (cases "valuesOf q name") (auto simp: Get_def)

lemma hasValue_valuesOf: "x \<in> set (valuesOf q name) \<Longrightarrow> hasValue q name"
  by (cases "map_of q name") (simp_all add: valuesOf_def hasValue_def)

text \<open>A query with some signature that a check of a read or an upload lets pass.\<close>

lemma Verify_sign:
  assumes "Verify hmac s now key q = None" "x \<in> set (valuesOf q ''signature'')"
  shows "x = hmac (readHashed s key q)" "\<exists>i. ParseInt (Get q ''expires'') = Some i \<and> now < timeUnix i"
proof -
  have "hasValue q ''signature''" using assms(2) by (rule hasValue_valuesOf)
  then have "length (valuesOf q ''signature'') = 1" "Get q ''signature'' = sign hmac s key (Get q ''expires'')"
    and i: "\<exists>i. ParseInt (Get q ''expires'') = Some i \<and> now < timeUnix i"
    using assms(1) by (auto simp: Verify_def Let_def split: if_splits option.splits)
  then show "x = hmac (readHashed s key q)" using Get_signed [OF assms(2)] by (simp add: sign_message readHashed_def)
  show "\<exists>i. ParseInt (Get q ''expires'') = Some i \<and> now < timeUnix i" by (rule i)
qed

text \<open>Any query with a read link's signature: it opens the link's key, until its end.\<close>

lemma Verify_signature:
  assumes "hmac (readMessage s key (FormatInt i)) \<in> set (valuesOf q ''signature'')"
    and "Verify hmac s now key' q = None" "in_int64 i"
  shows "key' = key \<and> now < timeUnix i \<or> collides hmac (readMessage s key (FormatInt i)) (readHashed s key' q)"
proof (cases "readMessage s key (FormatInt i) = readHashed s key' q")
  case True
  then have "key = key'" "FormatInt i = Get q ''expires''" unfolding readHashed_def by (auto dest: readMessage_inj)
  then show ?thesis using Verify_sign(2) [OF assms(2,1)] ParseInt_FormatInt [OF assms(3)] by auto
next
  case False
  then show ?thesis using Verify_sign(1) [OF assms(2,1)] by (simp add: collides_def)
qed

lemma verifyUpload_signature:
  assumes "verifyUpload hmac dec s now key q = Inr g"
  shows "length (valuesOf q ''signature'') = 1"
    and "Get q ''signature'' = hmac (uploadHashed s key q)"
    and "\<exists>x n. ParseInt (Get q ''expires'') = Some x \<and> ParseInt (Get q ''size'') = Some n \<and> 0 \<le> n \<and>
      now < timeUnix x \<and> gr_size g = n \<and> gr_contentType g = Get q ''type'' \<and> gr_expires g = timeUnix x \<and>
      (if Get q ''meta'' = [] then gr_metadata g = [] else dec (Get q ''meta'') = Some (gr_metadata g))"
  using assms by (auto simp: verifyUpload_def Let_def signUpload_message uploadHashed_def split: if_splits option.splits)

lemma Handler_OpenObject:
  assumes "Handler hmac dec s now r = OpenObject key"
  shows "Verify hmac s now key (ParseQuery (rq_Query r)) = None \<and> rq_Path r = sg_path s @ ''/'' @ key \<and> ValidateKey key"
proof -
  have "HasPrefix (rq_Path r) (sg_path s @ ''/'')" "key = drop (length (sg_path s @ ''/'')) (rq_Path r)"
      "Verify hmac s now key (ParseQuery (rq_Query r)) = None" "ValidateKey key"
    using assms by (auto simp: Handler_def serveUpload_def Let_def split: if_splits option.splits sum.splits)
  then show ?thesis by (metis HasPrefix_def append_assoc append_take_drop_id)
qed

lemma Handler_PutIfAbsent:
  assumes "Handler hmac dec s now r = PutIfAbsent key g d"
  shows "verifyUpload hmac dec s now key (ParseQuery (rq_Query r)) = Inr g \<and>
    rq_Path r = sg_path s @ ''/'' @ key \<and> rq_ContentType r = gr_contentType g \<and>
    rq_ContentLength r = gr_size g \<and> d = gr_expires g + Hour"
proof -
  have "HasPrefix (rq_Path r) (sg_path s @ ''/'')" "key = drop (length (sg_path s @ ''/'')) (rq_Path r)"
    and rest: "verifyUpload hmac dec s now key (ParseQuery (rq_Query r)) = Inr g"
      "rq_ContentType r = gr_contentType g" "rq_ContentLength r = gr_size g" "d = gr_expires g + Hour"
    using assms by (auto simp: Handler_def serveUpload_def uploadTimeout_def Let_def
        split: if_splits option.splits sum.splits)
  then have "rq_Path r = sg_path s @ ''/'' @ key" by (metis HasPrefix_def append_assoc append_take_drop_id)
  then show ?thesis using rest by simp
qed

lemma read_query:
  assumes "list_all unreserved sig"
  shows "ParseQuery (''expires='' @ FormatInt i @ ''&signature='' @ sig) =
    foldl addPair [] [(''expires'', FormatInt i), (''signature'', sig)]"
proof -
  have names: "QueryEscape ''expires'' = ''expires''" "QueryEscape ''signature'' = ''signature''"
    by (intro QueryEscape_unreserved; simp add: unreserved_def)+
  have "''expires='' @ FormatInt i @ ''&signature='' @ sig =
      joinAmp (map queryPair [(''expires'', FormatInt i), (''signature'', sig)])"
    using assms by (simp add: queryPair_def QueryEscape_unreserved names FormatInt_unreserved)
  then show ?thesis by (simp only: ParseQuery_joined)
qed

lemma Handler_read:
  assumes "rq_Method r = ''GET'' \<or> rq_Method r = ''HEAD''" "rq_Path r = sg_path s @ ''/'' @ key" "ValidateKey key"
  shows "Handler hmac dec s now r =
    (case Verify hmac s now key (ParseQuery (rq_Query r)) of Some _ \<Rightarrow> Forbidden | None \<Rightarrow> OpenObject key)"
  using assms by (auto simp: Handler_def HasPrefix_def)

text \<open>C14: A read link opens its object until it ends, and nothing else.  A request for the link's
  path with the link's query opens the object as long as the clock has not reached the link's
  end, the start of the second it was signed in plus its lifetime, and is refused from then on.
  And a request that carries the link's signature in any other way, with another key, another
  expiry, repeated or added values, opens nothing but that object, never past that end, and
  stores nothing, unless the message the handler hashes for that request differs from the link's
  and has the same keyed hash.\<close>

theorem read_link_exact:
  assumes "\<And>m. list_all unreserved (hmac m)"
    and "linkClock now" and "URL hmac s now key (SignedURL ttl) = Inr u"
    and "message = readMessage s key (FormatInt (expiry now ttl))"
  shows "\<exists>query. u = sg_base s @ ''/'' @ EscapeKey key @ ''?'' @ query \<and>
    (\<forall>r now'. rq_Method r = ''GET'' \<or> rq_Method r = ''HEAD'' \<longrightarrow> rq_Query r = query \<longrightarrow>
       rq_Path r = sg_path s @ ''/'' @ key \<longrightarrow>
       Handler hmac dec s now' r = (if now' < linkEnds now ttl then OpenObject key else Forbidden)) \<and>
    valuesOf (ParseQuery query) ''signature'' = [hmac message] \<and>
    (\<forall>r now' q. q = ParseQuery (rq_Query r) \<longrightarrow> hmac message \<in> set (valuesOf q ''signature'') \<longrightarrow>
       (\<forall>k. Handler hmac dec s now' r = OpenObject k \<longrightarrow>
          k = key \<and> now' < linkEnds now ttl \<or> collides hmac message (readHashed s k q)) \<and>
       (\<forall>k g d. Handler hmac dec s now' r = PutIfAbsent k g d \<longrightarrow> collides hmac message (uploadHashed s k q)))"
proof -
  define i where "i = expiry now ttl"
  define query where "query = ''expires='' @ FormatInt i @ ''&signature='' @ hmac message"
  have msg: "message = readMessage s key (FormatInt i)" by (simp add: assms(4) i_def)
  have key: "ValidateKey key" and opts: "ValidateURLOptions (SignedURL ttl)"
    and u: "u = sg_base s @ ''/'' @ EscapeKey key @ ''?'' @ query"
    using assms(3) by (auto simp: URL_def Let_def SignedURL_def i_def sign_message msg query_def split: if_splits)
  have i: "0 < i" "in_int64 i" "timeUnix i = linkEnds now ttl"
    using expiry_valid [OF assms(2) opts] by (simp_all add: i_def)
  have q: "ParseQuery query = foldl addPair [] [(''expires'', FormatInt i), (''signature'', hmac message)]"
    unfolding query_def by (rule read_query) (rule assms(1))
  have v: "valuesOf (ParseQuery query) ''expires'' = [FormatInt i]" "valuesOf (ParseQuery query) ''signature'' = [hmac message]"
    unfolding q valuesOf_foldl by (simp_all add: valuesOf_def)
  have "hasValue (ParseQuery query) ''signature''" using v(2) by (intro hasValue_valuesOf [of "hmac message"]) simp
  then have "Verify hmac s now' key (ParseQuery query) = (if now' < linkEnds now ttl then None else Some ErrExpired)" for now'
    using i v by (simp add: Verify_def Get_single ParseInt_FormatInt sign_message msg)
  then have "Handler hmac dec s now' r = (if now' < linkEnds now ttl then OpenObject key else Forbidden)"
    if "rq_Method r = ''GET'' \<or> rq_Method r = ''HEAD''" "rq_Query r = query" "rq_Path r = sg_path s @ ''/'' @ key" for r now'
    using Handler_read [OF that(1,3) key] that(2) by simp
  moreover have "k = key \<and> now' < linkEnds now ttl \<or> collides hmac message (readHashed s k (ParseQuery (rq_Query r)))"
    if "hmac message \<in> set (valuesOf (ParseQuery (rq_Query r)) ''signature'')" "Handler hmac dec s now' r = OpenObject k" for r now' k
    using Verify_signature [OF that(1) [unfolded msg] conjunct1 [OF Handler_OpenObject [OF that(2)]] i(2)]
    by (simp add: i(3) msg)
  moreover have "collides hmac message (uploadHashed s k (ParseQuery (rq_Query r)))"
    if "hmac message \<in> set (valuesOf (ParseQuery (rq_Query r)) ''signature'')" "Handler hmac dec s now' r = PutIfAbsent k g d" for r now' k g d
  proof -
    have "verifyUpload hmac dec s now' k (ParseQuery (rq_Query r)) = Inr g" using that(2) Handler_PutIfAbsent by blast
    note up = verifyUpload_signature(1,2) [OF this]
    then show ?thesis using Get_signed [OF that(1) up(1)] read_not_upload
      unfolding collides_def msg uploadHashed_def by metis
  qed
  ultimately show ?thesis using u v(2) by (intro exI [of _ query]) blast
qed

text \<open>The Signer and link of the examples; an encoding of the message in URL-safe letters stands for
  the keyed hash.\<close>

definition sampleSigner :: Signer where
  "sampleSigner = \<lparr>sg_base = ''/_storage'', sg_path = ''/_storage'', sg_public = ''public/'', sg_scope = ''app''\<rparr>"

text \<open>Two letters for every byte.\<close>

definition letters :: "string \<Rightarrow> string" where
  "letters m = concat (map (\<lambda>c. [char_of (97 + of_char c div (16 :: nat)), char_of (97 + of_char c mod (16 :: nat))]) m)"

lemma letters_safe: "list_all unreserved (letters m)"
proof -
  have "unreserved (char_of (97 + n))" if "n < (16 :: nat)" for n using that by (simp add: unreserved_def)
  then show ?thesis using nibbles by (induction m) (simp_all add: letters_def)
qed

theorem read_link_exact_witness:
  "\<exists>u. URL letters sampleSigner (63000000000 * Second + 5) ''a.txt'' (SignedURL Minute) = Inr u \<and>
    (\<exists>query. u = ''/_storage/a.txt?'' @ query \<and>
      Handler letters (\<lambda>_. None) sampleSigner (63000000059 * Second)
        \<lparr>rq_Method = ''GET'', rq_Path = ''/_storage/a.txt'', rq_Query = query, rq_ContentType = [], rq_ContentLength = 0\<rparr>
      = OpenObject ''a.txt'')"
proof -
  have esc: "EscapeKey ''a.txt'' = ''a.txt''" by (simp add: EscapeKey_def unreserved_def)
  have "ValidateKey ''a.txt''" by code_simp
  then obtain u where u: "URL letters sampleSigner (63000000000 * Second + 5) ''a.txt'' (SignedURL Minute) = Inr u"
    by (simp add: URL_def ValidateURLOptions_def SignedURL_def MaxURLExpiry_def Let_def)
  have now: "linkClock (63000000000 * Second + 5)" by (simp add: linkClock_def unixToInternal_def)
  obtain query where q: "u = sg_base sampleSigner @ ''/'' @ EscapeKey ''a.txt'' @ ''?'' @ query"
    and h: "\<forall>r now'. rq_Method r = ''GET'' \<or> rq_Method r = ''HEAD'' \<longrightarrow> rq_Query r = query \<longrightarrow>
       rq_Path r = sg_path sampleSigner @ ''/'' @ ''a.txt'' \<longrightarrow>
       Handler letters (\<lambda>_. None) sampleSigner now' r =
         (if now' < linkEnds (63000000000 * Second + 5) Minute then OpenObject ''a.txt'' else Forbidden)"
    using read_link_exact [OF letters_safe now u refl, of "\<lambda>_. None"] by (elim exE conjE) (rule that; assumption)
  have "u = ''/_storage/a.txt?'' @ query" using q by (simp add: sampleSigner_def esc)
  moreover have "Handler letters (\<lambda>_. None) sampleSigner (63000000059 * Second)
      \<lparr>rq_Method = ''GET'', rq_Path = ''/_storage/a.txt'', rq_Query = query, rq_ContentType = [], rq_ContentLength = 0\<rparr>
      = OpenObject ''a.txt''"
    by (subst h [rule_format]) (simp_all add: linkEnds_def sampleSigner_def)
  ultimately show ?thesis using u by blast
qed

lemma uploadQuery_values:
  fixes e sz ct meta sig :: string
  assumes "q = ParseQuery (Encode (uploadQuery e sz ct meta sig))"
  shows "valuesOf q ''expires'' = [e]" "valuesOf q ''size'' = [sz]" "valuesOf q ''type'' = [ct]"
    "valuesOf q ''signature'' = [sig]" "valuesOf q ''meta'' = (if meta = [] then [] else [meta])"
proof -
  have "distinct (map fst (uploadQuery e sz ct meta sig))" by (simp add: uploadQuery_def)
  note v = ParseQuery_Encode [OF this]
  show "valuesOf q ''expires'' = [e]" "valuesOf q ''size'' = [sz]" "valuesOf q ''type'' = [ct]"
    "valuesOf q ''signature'' = [sig]" "valuesOf q ''meta'' = (if meta = [] then [] else [meta])"
    unfolding assms v by (simp_all add: uploadQuery_def valuesOf_def)
qed

lemma Handler_put:
  assumes "rq_Method r = ''PUT''" "rq_Path r = sg_path s @ ''/'' @ key" "ValidateKey key"
  shows "Handler hmac dec s now r = serveUpload hmac dec s now r key (ParseQuery (rq_Query r))"
  using assms by (simp add: Handler_def HasPrefix_def)

definition grantOf :: "gotime \<Rightarrow> UploadURLOptions \<Rightarrow> grant" where
  "grantOf now opts =
     \<lparr>gr_size = up_Size opts,
      gr_contentType = (if up_ContentType opts = [] then DefaultContentType else up_ContentType opts),
      gr_metadata = up_Metadata opts, gr_expires = linkEnds now (up_Expires opts)\<rparr>"

lemma UploadURL_Inr:
  assumes "linkClock now" "in_int64 (up_Size opts)"
    and "UploadURL hmac enc mediaType bEncode s now key opts = Inr req"
    and "\<And>m. enc (up_Metadata opts) = Some m \<Longrightarrow> m \<noteq> [] \<and> dec m = Some (up_Metadata opts)"
  obtains e sz meta x where "ValidateKey key" "ParseInt e = Some x" "timeUnix x = linkEnds now (up_Expires opts)"
    "e = FormatInt (expiry now (up_Expires opts))" "sz = FormatInt (up_Size opts)"
    "encodeMetadata enc (up_Metadata opts) = Some meta"
    "ParseInt sz = Some (up_Size opts)" "0 \<le> up_Size opts"
    "if meta = [] then up_Metadata opts = [] else dec meta = Some (up_Metadata opts)"
    "ur_Header req = [(''Content-Type'', gr_contentType (grantOf now opts))]"
    "ur_URL req = sg_base s @ ''/'' @ EscapeKey key @ ''?'' @
       Encode (uploadQuery e sz (gr_contentType (grantOf now opts)) meta
         (signUpload hmac s key e sz (gr_contentType (grantOf now opts)) meta))"
proof -
  let ?x = "expiry now (up_Expires opts)"
  obtain meta where m: "encodeMetadata enc (up_Metadata opts) = Some meta"
    using assms(3) by (auto simp: UploadURL_def Let_def split: if_splits option.splits)
  have ok: "ValidateKey key" "ValidateUploadURLOptions mediaType bEncode opts"
    and req: "ur_Header req = [(''Content-Type'', gr_contentType (grantOf now opts))]"
      "ur_URL req = sg_base s @ ''/'' @ EscapeKey key @ ''?'' @
       Encode (uploadQuery (FormatInt ?x) (FormatInt (up_Size opts)) (gr_contentType (grantOf now opts)) meta
         (signUpload hmac s key (FormatInt ?x) (FormatInt (up_Size opts)) (gr_contentType (grantOf now opts)) meta))"
    using assms(3) m by (auto simp: UploadURL_def Let_def grantOf_def split: if_splits)
  have x: "in_int64 ?x" "timeUnix ?x = linkEnds now (up_Expires opts)"
    using expiry_valid [OF assms(1), of "up_Expires opts"] ok(2) by (simp_all add: ValidateUploadURLOptions_def)
  have md: "if meta = [] then up_Metadata opts = [] else dec meta = Some (up_Metadata opts)"
    using m assms(4) by (auto simp: encodeMetadata_def split: if_splits)
  have sz: "0 \<le> up_Size opts" using ok(2) by (simp add: ValidateUploadURLOptions_def)
  show ?thesis
    by (rule that [OF ok(1) ParseInt_FormatInt [OF x(1)] x(2) refl refl m ParseInt_FormatInt [OF assms(2)] sz md req])
qed

text \<open>Any query with an upload link's signature: it is a grant for the link's key, with the link's
  values.\<close>

lemma verifyUpload_binds:
  assumes "hmac (uploadMessage s key e sz ct meta) \<in> set (valuesOf q ''signature'')"
    and "verifyUpload hmac dec s now k q = Inr g" "ParseInt e = Some x" "ParseInt sz = Some n"
  shows "k = key \<and> now < timeUnix x \<and> gr_size g = n \<and> gr_contentType g = ct \<and> gr_expires g = timeUnix x \<and>
    (if meta = [] then gr_metadata g = [] else dec meta = Some (gr_metadata g)) \<or>
    collides hmac (uploadMessage s key e sz ct meta) (uploadHashed s k q)"
proof -
  note up = verifyUpload_signature [OF assms(2)]
  have eq: "hmac (uploadMessage s key e sz ct meta) = hmac (uploadHashed s k q)"
    using Get_signed [OF assms(1) up(1)] up(2) by simp
  show ?thesis
  proof (cases "uploadMessage s key e sz ct meta = uploadHashed s k q")
    case True
    from uploadMessage_inj [OF this [unfolded uploadHashed_def]] show ?thesis using up(3) assms(3,4) by auto
  next
    case False
    with eq show ?thesis by (simp add: collides_def)
  qed
qed

text \<open>C15: An upload link stores one object as it was granted, and nothing else.  A PUT to the
  link's path with its query, the signed content type and a body of the signed length is stored,
  only where nothing is stored yet and with a deadline an hour after the link's end, as long as
  the clock has not reached that end; it is refused from then on.  And a request that carries the
  link's signature with another key, size, type, metadata or expiry stores nothing else, and
  reads nothing, unless the message the handler hashes for that request differs from the link's and
  has the same keyed hash.\<close>

theorem upload_link_exact:
  assumes "\<forall>m. enc (up_Metadata opts) = Some m \<longrightarrow> m \<noteq> [] \<and> dec m = Some (up_Metadata opts)"
    and "linkClock now" and "in_int64 (up_Size opts)"
    and "UploadURL hmac enc mediaType bEncode s now key opts = Inr req"
    and "g = grantOf now opts"
    and "message = uploadMessage s key (FormatInt (expiry now (up_Expires opts))) (FormatInt (up_Size opts))
      (gr_contentType g) (the (encodeMetadata enc (up_Metadata opts)))"
  shows "\<exists>query. ur_URL req = sg_base s @ ''/'' @ EscapeKey key @ ''?'' @ query \<and>
    (\<forall>r now'. rq_Method r = ''PUT'' \<longrightarrow> rq_Query r = query \<longrightarrow> rq_Path r = sg_path s @ ''/'' @ key \<longrightarrow>
       rq_ContentType r = gr_contentType g \<longrightarrow> rq_ContentLength r = up_Size opts \<longrightarrow>
       Handler hmac dec s now' r =
         (if now' < gr_expires g then PutIfAbsent key g (gr_expires g + Hour) else Forbidden)) \<and>
    valuesOf (ParseQuery query) ''signature'' = [hmac message] \<and>
    (\<forall>r now' q. q = ParseQuery (rq_Query r) \<longrightarrow> hmac message \<in> set (valuesOf q ''signature'') \<longrightarrow>
       (\<forall>k g' d. Handler hmac dec s now' r = PutIfAbsent k g' d \<longrightarrow>
          k = key \<and> g' = g \<and> now' < gr_expires g \<and> rq_ContentLength r = up_Size opts \<or>
          collides hmac message (uploadHashed s k q)) \<and>
       (\<forall>k. Handler hmac dec s now' r = OpenObject k \<longrightarrow> collides hmac message (readHashed s k q)))"
proof -
  have gr: "gr_size g = up_Size opts" "gr_metadata g = up_Metadata opts" "gr_expires g = linkEnds now (up_Expires opts)"
    by (simp_all add: assms(5) grantOf_def)
  obtain e sz meta x where key: "ValidateKey key"
    and x: "ParseInt e = Some x" "timeUnix x = gr_expires g"
    and e: "e = FormatInt (expiry now (up_Expires opts))" "sz = FormatInt (up_Size opts)"
      "encodeMetadata enc (up_Metadata opts) = Some meta"
    and sz: "ParseInt sz = Some (up_Size opts)" "0 \<le> up_Size opts"
    and md: "if meta = [] then gr_metadata g = [] else dec meta = Some (gr_metadata g)"
    and "ur_Header req = [(''Content-Type'', gr_contentType g)]"
    and url: "ur_URL req = sg_base s @ ''/'' @ EscapeKey key @ ''?'' @
       Encode (uploadQuery e sz (gr_contentType g) meta (signUpload hmac s key e sz (gr_contentType g) meta))"
    unfolding gr(2,3) unfolding assms(5) by (rule UploadURL_Inr [where enc = enc and dec = dec, OF assms(2,3,4) assms(1) [rule_format]]) blast
  have msg: "message = uploadMessage s key e sz (gr_contentType g) meta" by (simp add: assms(6) e)
  define query where "query = Encode (uploadQuery e sz (gr_contentType g) meta (hmac message))"
  note gsz = gr(1)
  note v = uploadQuery_values [OF refl, of e sz "gr_contentType g" meta "hmac message", folded query_def]
  have get: "Get (ParseQuery query) ''meta'' = meta" using v(5) by (simp add: Get_def split: if_splits)
  have "verifyUpload hmac dec s now' key (ParseQuery query) = (if now' < gr_expires g then Inr g else Inl ErrExpired)" for now'
    using v x sz md get gsz by (auto simp: verifyUpload_def Get_single signUpload_message msg)
  then have "Handler hmac dec s now' r = (if now' < gr_expires g then PutIfAbsent key g (gr_expires g + Hour) else Forbidden)"
    if "rq_Method r = ''PUT''" "rq_Query r = query" "rq_Path r = sg_path s @ ''/'' @ key"
      "rq_ContentType r = gr_contentType g" "rq_ContentLength r = up_Size opts" for r now'
    using Handler_put [OF that(1,3) key] that(2,4,5) gsz by (simp add: serveUpload_def uploadTimeout_def)
  moreover have "k = key \<and> g' = g \<and> now' < gr_expires g \<and> rq_ContentLength r = up_Size opts \<or>
      collides hmac message (uploadHashed s k (ParseQuery (rq_Query r)))"
    if sg: "hmac message \<in> set (valuesOf (ParseQuery (rq_Query r)) ''signature'')"
      and put: "Handler hmac dec s now' r = PutIfAbsent k g' d" for r now' k g' d
  proof -
    note h = Handler_PutIfAbsent [OF put]
    have "k = key \<and> now' < gr_expires g \<and> g' = g \<or> collides hmac message (uploadHashed s k (ParseQuery (rq_Query r)))"
      using verifyUpload_binds [OF sg [unfolded msg] conjunct1 [OF h] x(1) sz(1)] x(2) md gsz
      unfolding msg by (auto split: if_splits)
    then show ?thesis using h gsz by auto
  qed
  moreover have "collides hmac message (readHashed s k (ParseQuery (rq_Query r)))"
    if "hmac message \<in> set (valuesOf (ParseQuery (rq_Query r)) ''signature'')" "Handler hmac dec s now' r = OpenObject k" for r now' k
  proof -
    have "Verify hmac s now' k (ParseQuery (rq_Query r)) = None" using that(2) Handler_OpenObject by blast
    from Verify_sign(1) [OF this that(1)] show ?thesis
      using read_not_upload unfolding collides_def msg readHashed_def by metis
  qed
  moreover have "valuesOf (ParseQuery query) ''signature'' = [hmac message]" using v(4) by simp
  moreover have "ur_URL req = sg_base s @ ''/'' @ EscapeKey key @ ''?'' @ query"
    unfolding query_def msg using url by (simp add: signUpload_message)
  ultimately show ?thesis by (intro exI [of _ query]) blast
qed

definition sampleUpload :: UploadURLOptions where
  "sampleUpload = \<lparr>up_Expires = Minute, up_Size = 3, up_ContentType = ''text/plain'', up_Metadata = [(''name'', ''b'')]\<rparr>"

theorem upload_link_exact_witness:
  "\<exists>req. UploadURL letters (\<lambda>md. if md = [(''name'', ''b'')] then Some ''m'' else None) Some id
      sampleSigner (63000000000 * Second) ''a.txt'' sampleUpload = Inr req \<and>
    (\<exists>query. ur_URL req = ''/_storage/a.txt?'' @ query \<and>
      Handler letters (\<lambda>m. if m = ''m'' then Some [(''name'', ''b'')] else None) sampleSigner (63000000059 * Second)
        \<lparr>rq_Method = ''PUT'', rq_Path = ''/_storage/a.txt'', rq_Query = query,
         rq_ContentType = ''text/plain'', rq_ContentLength = 3\<rparr>
      = PutIfAbsent ''a.txt'' (grantOf (63000000000 * Second) sampleUpload) (63000003660 * Second))"
proof -
  let ?enc = "\<lambda>md. if md = [(''name'', ''b'')] then Some ''m'' else None"
  let ?dec = "\<lambda>m. if m = ''m'' then Some [(''name'', ''b'')] else None"
  have esc: "EscapeKey ''a.txt'' = ''a.txt''" by (simp add: EscapeKey_def unreserved_def)
  have key: "ValidateKey ''a.txt''" by code_simp
  have "ValidateUploadURLOptions Some id sampleUpload" by code_simp
  then obtain req where req: "UploadURL letters ?enc Some id sampleSigner (63000000000 * Second) ''a.txt'' sampleUpload = Inr req"
    using key by (simp add: UploadURL_def encodeMetadata_def sampleUpload_def Let_def)
  have now: "linkClock (63000000000 * Second)" by (simp add: linkClock_def unixToInternal_def)
  have law: "\<forall>m. ?enc (up_Metadata sampleUpload) = Some m \<longrightarrow> m \<noteq> [] \<and> ?dec m = Some (up_Metadata sampleUpload)"
    by (auto split: if_splits)
  have sz: "in_int64 (up_Size sampleUpload)" by (simp add: sampleUpload_def int64_defs)
  obtain query where q: "ur_URL req = sg_base sampleSigner @ ''/'' @ EscapeKey ''a.txt'' @ ''?'' @ query"
    and h: "\<forall>r now'. rq_Method r = ''PUT'' \<longrightarrow> rq_Query r = query \<longrightarrow>
       rq_Path r = sg_path sampleSigner @ ''/'' @ ''a.txt'' \<longrightarrow>
       rq_ContentType r = gr_contentType (grantOf (63000000000 * Second) sampleUpload) \<longrightarrow>
       rq_ContentLength r = up_Size sampleUpload \<longrightarrow>
       Handler letters ?dec sampleSigner now' r =
         (if now' < gr_expires (grantOf (63000000000 * Second) sampleUpload)
          then PutIfAbsent ''a.txt'' (grantOf (63000000000 * Second) sampleUpload)
            (gr_expires (grantOf (63000000000 * Second) sampleUpload) + Hour) else Forbidden)"
    using upload_link_exact [where enc = ?enc and dec = ?dec and opts = sampleUpload, OF law now sz req refl refl] by (elim exE conjE) (rule that; assumption)
  have "ur_URL req = ''/_storage/a.txt?'' @ query" using q by (simp add: sampleSigner_def esc)
  moreover have "Handler letters ?dec sampleSigner (63000000059 * Second)
      \<lparr>rq_Method = ''PUT'', rq_Path = ''/_storage/a.txt'', rq_Query = query,
       rq_ContentType = ''text/plain'', rq_ContentLength = 3\<rparr> =
      PutIfAbsent ''a.txt'' (grantOf (63000000000 * Second) sampleUpload) (63000003660 * Second)"
    by (subst h [rule_format]) (simp_all add: linkEnds_def sampleSigner_def grantOf_def sampleUpload_def)
  ultimately show ?thesis using req by blast
qed

end
