(* ===== verification/Types_Decimal.thy ===== *)
theory Types_Decimal
  imports Go_Numbers
begin

text \<open>
  The size rule of decimal values (\<open>types/decimal.go\<close>).  A decimal is a coefficient and a
  power of ten; its shape is the number of digits its printed form has before and after the
  point.  The shape is measured in two ways: from the value (\<open>DecimalShapeOf\<close>, with a fast branch
  for coefficients of 64 bits and a bit-length estimate that refuses long ones before they are
  formatted) and from the text it was read from (\<open>spellingShape\<close>).  The lemmas show that both
  are the same function of the value, and what that function is.

  The decimal type itself is a third-party one.  Of it the model keeps what the code reads, the
  coefficient and the exponent; its parsers are arguments of the operations that call them.
\<close>

section \<open>The values\<close>

record decimal =
  dc_Coefficient :: int
  dc_Exponent :: int

record DecimalShape =
  ds_Whole :: int
  ds_Frac :: int
  ds_Significant :: int

text \<open>\<open>DecimalInvalid\<close> is an error of the library's parser, passed on.\<close>

datatype decimal_error = DecimalTooLarge | DecimalInvalid | DecimalNonFinite

definition MaxDecimalDigits :: int where
  "MaxDecimalDigits = 1000"

definition maxDecimalSpelling :: int where
  "maxDecimalSpelling = 3 * MaxDecimalDigits + 32"

definition noShape :: DecimalShape where
  "noShape = \<lparr>ds_Whole = 0, ds_Frac = 0, ds_Significant = 0\<rparr>"

definition Digits :: "DecimalShape \<Rightarrow> int" where
  "Digits s = max (ds_Whole s) 1 + ds_Frac s"

text \<open>The end of both measurements: \<open>n\<close> digits that neither start nor end with a zero, times ten
  to \<open>exponent\<close>.\<close>

definition shapeOfDigits :: "int \<Rightarrow> int \<Rightarrow> decimal_error + DecimalShape" where
  "shapeOfDigits n exponent =
     (let shape = \<lparr>ds_Whole = (if n + exponent > 0 then n + exponent else 0),
                   ds_Frac = (if exponent < 0 then - exponent else 0),
                   ds_Significant = (if exponent < 0 then n else n + exponent)\<rparr>
      in if Digits shape > MaxDecimalDigits then Inl DecimalTooLarge else Inr shape)"

section \<open>Measuring a value\<close>

text \<open>The two loops of the 64-bit branch.  The first would not end at zero, which the caller has
  excluded.\<close>

function stripZeros :: "nat \<Rightarrow> int \<Rightarrow> nat \<times> int" where
  "stripZeros v exponent =
     (if v \<noteq> 0 \<and> v mod 10 = 0 then stripZeros (v div 10) (exponent + 1) else (v, exponent))"
  by pat_completeness auto
termination
  by (relation "measure fst") auto

fun countDigits :: "nat \<Rightarrow> int \<Rightarrow> int" where
  "countDigits v n = (if v \<ge> 10 then countDigits (v div 10) (n + 1) else n)"

fun BitLen :: "nat \<Rightarrow> nat" where
  "BitLen c = (if c = 0 then 0 else Suc (BitLen (c div 2)))"

declare stripZeros.simps [simp del] countDigits.simps [simp del] BitLen.simps [simp del]

text \<open>\<open>int(float64(c.BitLen())*0.30102999566398119521) + 1\<close>, with the product exact.  Rounding
  can move it only where the product is next to an integer; at the one threshold it is compared
  with it is not (9969 bits give 3000.97 and 9970 bits 3001.27).\<close>

definition estimate :: "nat \<Rightarrow> int" where
  "estimate c = int (BitLen c * 30102999566398119521 div 10 ^ 20) + 1"

fun trimLen :: "string \<Rightarrow> nat \<Rightarrow> nat" where
  "trimLen digits 0 = 0"
| "trimLen digits (Suc n) =
     (if 0 < n \<and> digits ! n = CHR ''0'' then trimLen digits n else Suc n)"

definition DecimalShapeOf :: "decimal \<Rightarrow> decimal_error + DecimalShape" where
  "DecimalShapeOf d =
     (let exponent = dc_Exponent d in
      if exponent > MaxDecimalDigits \<or> exponent < - MaxDecimalDigits then Inl DecimalTooLarge
      else if dc_Coefficient d = 0 then Inr noShape
      else let c = nat \<bar>dc_Coefficient d\<bar> in
        if c < 2 ^ 64 then
          (let (v, exponent) = stripZeros c exponent
           in shapeOfDigits (countDigits v 1) exponent)
        else if estimate c > 3 * MaxDecimalDigits + 1 then Inl DecimalTooLarge
        else let digits = natDigits c;
                 n = trimLen digits (length digits)
             in shapeOfDigits (int n) (exponent + int (length digits - n)))"

definition CheckDecimalSize :: "decimal \<Rightarrow> decimal_error option" where
  "CheckDecimalSize d = (case DecimalShapeOf d of Inl e \<Rightarrow> Some e | Inr _ \<Rightarrow> None)"

definition CheckDecimalSpelling :: "string \<Rightarrow> decimal_error option" where
  "CheckDecimalSpelling s =
     (if int (length s) > maxDecimalSpelling then Some DecimalTooLarge else None)"

section \<open>Measuring a spelling\<close>

definition isSign :: "char \<Rightarrow> bool" where
  "isSign c \<longleftrightarrow> c = CHR ''+'' \<or> c = CHR ''-''"

definition skipSign :: "string \<Rightarrow> string" where
  "skipSign s = (if s \<noteq> [] \<and> isSign (hd s) then tl s else s)"

definition negSign :: "string \<Rightarrow> bool" where
  "negSign s \<longleftrightarrow> s \<noteq> [] \<and> hd s = CHR ''-''"

text \<open>The exponent part: \<open>None\<close> refuses the spelling.  The loop gives up at the tenth digit.\<close>

definition scanExponent :: "string \<Rightarrow> int option" where
  "scanExponent s =
     (if s = [] then Some 0
      else if hd s = CHR ''e'' \<or> hd s = CHR ''E'' then
        (let t = skipSign (tl s); ds = takeWhile isDigit t in
         if length ds > 9 \<or> ds = [] \<or> dropWhile isDigit t \<noteq> [] then None
         else Some (if negSign (tl s) then - int (digitsVal ds) else int (digitsVal ds)))
      else None)"

text \<open>The scan up to \<open>i != len(s)\<close>: the integer digits, the fraction digits and the exponent.\<close>

definition scanSpelling :: "string \<Rightarrow> (string \<times> string \<times> int) option" where
  "scanSpelling s =
     (let t = skipSign s; ints = takeWhile isDigit t; u = dropWhile isDigit t;
          point = (u \<noteq> [] \<and> hd u = CHR ''.'');
          frac = (if point then takeWhile isDigit (tl u) else []);
          v = (if point then dropWhile isDigit (tl u) else u)
      in if ints = [] \<and> frac = [] then None
         else (case scanExponent v of None \<Rightarrow> None | Some x \<Rightarrow> Some (ints, frac, x)))"

fun nonzeroSpan :: "string \<Rightarrow> int \<Rightarrow> int \<times> int \<Rightarrow> int \<times> int" where
  "nonzeroSpan [] k p = p"
| "nonzeroSpan (c # cs) k (first, last') =
     nonzeroSpan cs (k + 1)
       (if c \<noteq> CHR ''0'' then (if first < 0 then k else first, k) else (first, last'))"

definition spellingShape :: "string \<Rightarrow> (decimal_error + DecimalShape) option" where
  "spellingShape s =
     (case scanSpelling s of
        None \<Rightarrow> None
      | Some (ints, frac, x) \<Rightarrow> Some
          (let exponent = x - int (length frac) in
           if exponent > MaxDecimalDigits \<or> exponent < - MaxDecimalDigits
           then Inl DecimalTooLarge
           else let (first, last') = nonzeroSpan (ints @ frac) 0 (-1, -1) in
             if first < 0 then Inr noShape
             else let total = int (length ints + length frac)
                  in shapeOfDigits (last' - first + 1) (exponent + (total - 1 - last'))))"

definition IsPlainDecimalSpelling :: "string \<Rightarrow> bool" where
  "IsPlainDecimalSpelling s \<longleftrightarrow> spellingShape s \<noteq> None"

definition checkSpelledDecimal :: "string \<Rightarrow> decimal \<Rightarrow> decimal_error option" where
  "checkSpelledDecimal spelling parsed =
     (case spellingShape spelling of
        Some (Inl e) \<Rightarrow> Some e
      | Some (Inr _) \<Rightarrow> None
      | None \<Rightarrow> CheckDecimalSize parsed)"

section \<open>Reading a decimal\<close>

text \<open>The parsers of the decimal library are the argument \<open>inner\<close> (\<open>parse\<close>): \<open>None\<close> is its error,
  and \<open>d\<close> the receiver's value before the call.\<close>

definition unquoted :: "string \<Rightarrow> string" where
  "unquoted b = (if length b \<ge> 2 \<and> hd b = CHR 0x22 \<and> last b = CHR 0x22
                 then butlast (tl b) else b)"

definition UnmarshalJSON :: "(string \<Rightarrow> decimal option) \<Rightarrow> decimal \<Rightarrow> string \<Rightarrow> decimal_error + decimal" where
  "UnmarshalJSON inner d b =
     (if b = ''null'' then Inr d
      else if int (length b) > maxDecimalSpelling then Inl DecimalTooLarge
      else case inner b of
          None \<Rightarrow> Inl DecimalInvalid
        | Some v \<Rightarrow> (case checkSpelledDecimal (unquoted b) v of
                       Some e \<Rightarrow> Inl e | None \<Rightarrow> Inr v))"

definition UnmarshalText :: "(string \<Rightarrow> decimal option) \<Rightarrow> string \<Rightarrow> decimal_error + decimal" where
  "UnmarshalText inner b =
     (if int (length b) > maxDecimalSpelling then Inl DecimalTooLarge
      else case inner b of
          None \<Rightarrow> Inl DecimalInvalid
        | Some v \<Rightarrow> (case checkSpelledDecimal b v of Some e \<Rightarrow> Inl e | None \<Rightarrow> Inr v))"

definition NewDecimalFromString :: "(string \<Rightarrow> decimal option) \<Rightarrow> string \<Rightarrow> decimal_error + decimal" where
  "NewDecimalFromString parse s =
     (case CheckDecimalSpelling s of
        Some e \<Rightarrow> Inl e
      | None \<Rightarrow> (case parse s of
          None \<Rightarrow> Inl DecimalInvalid
        | Some v \<Rightarrow> (case checkSpelledDecimal s v of Some e \<Rightarrow> Inl e | None \<Rightarrow> Inr v)))"

text \<open>\<open>Scan\<close>: the driver's value is a float, a text (string or bytes) or anything else;
  \<open>nonFinite\<close> is \<open>math.IsNaN(v) || math.IsInf(v, 0)\<close>.\<close>

datatype ('f, 'o) scan_value = ScanFloat 'f | ScanText string | ScanOther 'o

definition Scan ::
  "('f \<Rightarrow> bool) \<Rightarrow> (('f, 'o) scan_value \<Rightarrow> decimal option) \<Rightarrow> ('f, 'o) scan_value
   \<Rightarrow> decimal_error + decimal" where
  "Scan nonFinite inner value =
     (let early = (case value of
                     ScanFloat v \<Rightarrow> if nonFinite v then Some DecimalNonFinite else None
                   | ScanText v \<Rightarrow> if int (length v) > maxDecimalSpelling then Some DecimalTooLarge
                                   else None
                   | ScanOther _ \<Rightarrow> None)
      in case early of
           Some e \<Rightarrow> Inl e
         | None \<Rightarrow> (case inner value of
             None \<Rightarrow> Inl DecimalInvalid
           | Some d \<Rightarrow> (case (case value of ScanText v \<Rightarrow> checkSpelledDecimal v d
                                        | _ \<Rightarrow> CheckDecimalSize d) of
               Some e \<Rightarrow> Inl e | None \<Rightarrow> Inr d)))"

section \<open>Digits without leading and trailing zeros\<close>

text \<open>\<open>canon c n z\<close>: \<open>c\<close> is a number of \<open>n\<close> digits that does not end with a zero, followed by \<open>z\<close>
  zeros.  Every positive number has exactly one such reading, and each measuring loop finds
  it.\<close>

definition canon :: "nat \<Rightarrow> nat \<Rightarrow> nat \<Rightarrow> bool" where
  "canon c n z \<longleftrightarrow> (\<exists>m. c = m * 10 ^ z \<and> \<not> 10 dvd m \<and> 10 ^ n \<le> 10 * m \<and> m < 10 ^ n)"

lemma pow10_between:
  assumes "(10::nat) ^ n \<le> 10 * m" "m < 10 ^ n" "(10::nat) ^ k \<le> 10 * m" "m < 10 ^ k"
  shows "n = k"
proof (rule ccontr)
  assume "n \<noteq> k"
  then consider "n < k" | "k < n" by linarith
  then show False
  proof cases
    case 1
    then have "(10::nat) ^ Suc n \<le> 10 ^ k" by (intro power_increasing) auto
    with assms show False by simp
  next
    case 2
    then have "(10::nat) ^ Suc k \<le> 10 ^ n" by (intro power_increasing) auto
    with assms show False by simp
  qed
qed

lemma trailing_unique:
  assumes "(m::nat) * 10 ^ z = m' * 10 ^ z'" "\<not> 10 dvd m" "\<not> 10 dvd m'"
  shows "z = z' \<and> m = m'"
  using assms
proof (induction z arbitrary: z')
  case 0
  then show ?case by (cases z') auto
next
  case (Suc z)
  show ?case
  proof (cases z')
    case 0
    have "m' = 10 * (m * 10 ^ z)" using Suc.prems 0 by simp
    then show ?thesis using Suc.prems by (metis dvd_triv_left)
  next
    case (Suc k)
    then show ?thesis using Suc.IH [of k] Suc.prems by simp
  qed
qed

lemma canon_unique: "canon c n z \<Longrightarrow> canon c n' z' \<Longrightarrow> n = n' \<and> z = z'"
  unfolding canon_def by (metis pow10_between trailing_unique)

lemma canon_bounds: "canon c n z \<Longrightarrow> c < 10 ^ (n + z)"
  by (auto simp: canon_def power_add)

lemma stripZeros_spec:
  assumes "0 < c"
  shows "\<exists>m z. stripZeros c e = (m, e + int z) \<and> c = m * 10 ^ z \<and> \<not> 10 dvd m"
  using assms
proof (induction c e rule: stripZeros.induct)
  case (1 v e)
  show ?case
  proof (cases "v mod 10 = 0")
    case True
    then have v: "v = 10 * (v div 10)" "0 < v div 10" using 1(2) by auto
    then obtain m z where "stripZeros (v div 10) (e + 1) = (m, e + 1 + int z)"
        "v div 10 = m * 10 ^ z" "\<not> 10 dvd m" using 1 True by auto
    then have "stripZeros v e = (m, e + int (Suc z)) \<and> v = m * 10 ^ Suc z \<and> \<not> 10 dvd m"
      using True v by (subst stripZeros.simps) auto
    then show ?thesis by blast
  next
    case False
    then show ?thesis by (intro exI [of _ v] exI [of _ 0]) (subst stripZeros.simps, auto)
  qed
qed

lemma countDigits_spec:
  assumes "0 < m"
  shows "\<exists>n. countDigits m k = k - 1 + int n \<and> (10::nat) ^ n \<le> 10 * m \<and> m < 10 ^ n"
  using assms
proof (induction m k rule: countDigits.induct)
  case (1 v k)
  show ?case
  proof (cases "v \<ge> 10")
    case True
    then have "0 < v div 10" by (simp add: div_greater_zero_iff)
    then obtain n where n: "countDigits (v div 10) (k + 1) = k + int n"
        "(10::nat) ^ n \<le> 10 * (v div 10)" "v div 10 < 10 ^ n" using 1 True by fastforce
    have "(10::nat) ^ Suc n \<le> 10 * v" using n(2) by simp
    moreover have "v < 10 ^ Suc n" using n(3) by (simp add: div_less_iff_less_mult)
    ultimately show ?thesis using n(1) True
      by (intro exI [of _ "Suc n"]) (subst countDigits.simps, simp)
  next
    case False
    then show ?thesis using 1(2) by (intro exI [of _ 1]) (subst countDigits.simps, auto)
  qed
qed

lemma canon_small:
  assumes "0 < c"
  shows "\<exists>n z v. canon c n z \<and> stripZeros c e = (v, e + int z) \<and> countDigits v 1 = int n"
proof -
  obtain m z where m: "stripZeros c e = (m, e + int z)" "c = m * 10 ^ z" "\<not> 10 dvd m"
    using stripZeros_spec [OF assms] by blast
  have "0 < m" using m(3) by (cases m) auto
  then obtain n where "countDigits m 1 = int n" "(10::nat) ^ n \<le> 10 * m" "m < 10 ^ n"
    using countDigits_spec [of m 1] by auto
  then show ?thesis using m unfolding canon_def by auto
qed

subsection \<open>Digit strings\<close>

lemma digitsVal_foldl: "foldl (\<lambda>a c. 10 * a + digitVal c) x ds = x * 10 ^ length ds + digitsVal ds"
proof (induction ds arbitrary: x)
  case (Cons d ds)
  show ?case using Cons [of "10 * x + digitVal d"] Cons [of "digitVal d"]
    by (simp add: digitsVal_def algebra_simps)
qed (simp add: digitsVal_def)

lemma digitsVal_append: "digitsVal (as @ bs) = digitsVal as * 10 ^ length bs + digitsVal bs"
  using digitsVal_foldl [of "digitsVal as" bs] by (simp add: digitsVal_def)

lemma digitsVal_Nil [simp]: "digitsVal [] = 0"
  by (simp add: digitsVal_def)

lemma digitsVal_Cons: "digitsVal (d # ds) = digitVal d * 10 ^ length ds + digitsVal ds"
  using digitsVal_append [of "[d]" ds] by (simp add: digitsVal_def)

lemma digitVal_zero [simp]: "digitVal CHR ''0'' = 0"
  by (simp add: digitVal_def)

lemma digitVal_pos: "isDigit d \<Longrightarrow> d \<noteq> CHR ''0'' \<Longrightarrow> 0 < digitVal d"
proof -
  assume d: "isDigit d" "d \<noteq> CHR ''0''"
  have "of_char d \<noteq> (of_char CHR ''0'' :: nat)" using d(2) by (metis of_char_eq_iff)
  then show ?thesis using d(1) by (simp add: isDigit_def digitVal_def)
qed

lemma digitVal_less: "isDigit d \<Longrightarrow> digitVal d < 10"
  by (auto simp: isDigit_def digitVal_def)

lemma digitsVal_zeros [simp]: "digitsVal (replicate k CHR ''0'') = 0"
  by (induction k) (simp_all add: digitsVal_Cons)

lemma digitsVal_less: "list_all isDigit ds \<Longrightarrow> digitsVal ds < 10 ^ length ds"
proof (induction ds)
  case (Cons d ds)
  then have "digitVal d \<le> 9" using digitVal_less [of d] by simp
  then have "digitVal d * 10 ^ length ds \<le> 9 * 10 ^ length ds" by (rule mult_right_mono) simp
  moreover have "digitsVal ds < 10 ^ length ds" using Cons by simp
  ultimately show ?case unfolding digitsVal_Cons length_Cons power_Suc by linarith
qed simp

lemma digitsVal_ge:
  assumes "list_all isDigit ds" "ds \<noteq> []" "hd ds \<noteq> CHR ''0''"
  shows "10 ^ length ds \<le> 10 * digitsVal ds"
proof -
  obtain d es where ds: "ds = d # es" using assms(2) by (cases ds) auto
  then have "1 \<le> digitVal d" using assms digitVal_pos [of d] by simp
  then have "1 * 10 ^ length es \<le> digitVal d * 10 ^ length es" by (rule mult_right_mono) simp
  then have "10 ^ length es \<le> digitsVal ds" unfolding ds digitsVal_Cons by (simp only: mult_1 trans_le_add1)
  then show ?thesis by (simp add: ds)
qed

lemma digitsVal_last:
  assumes "list_all isDigit ds" "ds \<noteq> []" "last ds \<noteq> CHR ''0''"
  shows "\<not> 10 dvd digitsVal ds"
proof -
  obtain es d where ds: "ds = es @ [d]" using assms(2) by (metis append_butlast_last_id)
  then have "digitsVal ds mod 10 = digitVal d" "0 < digitVal d"
    using assms digitVal_less [of d] digitVal_pos [of d]
    by (simp_all add: digitsVal_append digitsVal_Cons)
  then show ?thesis by (simp add: dvd_eq_mod_eq_0)
qed

definition coreDigits :: "string \<Rightarrow> bool" where
  "coreDigits ds \<longleftrightarrow> ds \<noteq> [] \<and> list_all isDigit ds \<and> hd ds \<noteq> CHR ''0'' \<and> last ds \<noteq> CHR ''0''"

lemma canon_digits:
  assumes "coreDigits ds"
  shows "canon (digitsVal (replicate a CHR ''0'' @ ds @ replicate b CHR ''0'')) (length ds) b"
proof -
  have "digitsVal (replicate a CHR ''0'' @ ds @ replicate b CHR ''0'') = digitsVal ds * 10 ^ b"
    by (simp add: digitsVal_append)
  then show ?thesis using assms digitsVal_less [of ds] digitsVal_ge [of ds] digitsVal_last [of ds]
    unfolding canon_def coreDigits_def by blast
qed

lemma core_exists:
  assumes "list_all isDigit ds" "\<not> list_all (\<lambda>c. c = CHR ''0'') ds"
  shows "\<exists>a core b. ds = replicate a CHR ''0'' @ core @ replicate b CHR ''0'' \<and> coreDigits core"
proof -
  let ?z = "\<lambda>c. c = CHR ''0''"
  define t where "t = dropWhile ?z ds"
  define core where "core = rev (dropWhile ?z (rev t))"
  have same: "takeWhile ?z xs = replicate (length (takeWhile ?z xs)) CHR ''0''" for xs
    by (metis (full_types) replicate_length_same set_takeWhileD)
  have ds: "ds = takeWhile ?z ds @ t" by (simp add: t_def)
  have t: "t = core @ rev (takeWhile ?z (rev t))"
    by (metis core_def rev_append rev_rev_ident takeWhile_dropWhile_id)
  have tne: "t \<noteq> []" using assms(2) unfolding t_def by (simp add: list_all_iff)
  then have hdt: "hd t \<noteq> CHR ''0''" using hd_dropWhile [of ?z ds] t_def by simp
  have cne: "core \<noteq> []"
  proof
    assume "core = []"
    then have "\<forall>c \<in> set (rev t). ?z c" by (simp add: core_def)
    then show False using hdt tne by simp
  qed
  have "last core \<noteq> CHR ''0''"
    using cne hd_dropWhile [of ?z "rev t"] by (simp add: core_def last_rev)
  moreover have "hd core \<noteq> CHR ''0''" using hdt cne t by (metis hd_append2)
  moreover have "set core \<subseteq> set ds" using ds t by (metis Un_upper1 set_append sup.coboundedI2)
  then have "list_all isDigit core" using assms(1) by (auto simp: list_all_iff)
  ultimately have "coreDigits core" using cne by (simp add: coreDigits_def)
  moreover have "ds = replicate (length (takeWhile ?z ds)) CHR ''0'' @ core @
      replicate (length (takeWhile ?z (rev t))) CHR ''0''"
    using ds t same [of ds] same [of "rev t"] by (metis rev_replicate)
  ultimately show ?thesis by blast
qed

subsection \<open>The loops over the digits\<close>

lemma nonzeroSpan_zeros:
  "nonzeroSpan (replicate a CHR ''0'' @ ds) k p = nonzeroSpan ds (k + int a) p"
  by (induction a arbitrary: k) (cases p; simp add: algebra_simps)+

lemma nonzeroSpan_rest:
  assumes "0 \<le> f" "ds \<noteq> []" "last ds \<noteq> CHR ''0''"
  shows "nonzeroSpan ds k (f, l) = (f, k + int (length ds) - 1)"
  using assms
proof (induction ds arbitrary: k l)
  case (Cons d ds)
  then show ?case by (cases "ds = []") auto
qed simp

lemma nonzeroSpan_append: "nonzeroSpan (as @ bs) k p = nonzeroSpan bs (k + int (length as)) (nonzeroSpan as k p)"
proof (induction as arbitrary: k p)
  case (Cons a as)
  then show ?case by (cases p) (simp add: algebra_simps)
qed simp

lemma nonzeroSpan_core:
  assumes "coreDigits ds"
  shows "nonzeroSpan (replicate a CHR ''0'' @ ds @ replicate b CHR ''0'') 0 (-1, -1) =
    (int a, int a + int (length ds) - 1)"
proof -
  obtain d es where ds: "ds = d # es" "d \<noteq> CHR ''0''" using assms by (cases ds) (auto simp: coreDigits_def)
  have "nonzeroSpan ds (int a) (-1, -1) = (int a, int a + int (length ds) - 1)"
    using assms ds by (cases "es = []") (simp_all add: coreDigits_def nonzeroSpan_rest)
  moreover have "nonzeroSpan (replicate b CHR ''0'') k p = p" for b k p
    using nonzeroSpan_zeros [of b "[]" k p] by simp
  ultimately show ?thesis by (simp add: nonzeroSpan_zeros nonzeroSpan_append)
qed

lemma nonzeroSpan_none:
  "list_all (\<lambda>c. c = CHR ''0'') ds \<Longrightarrow> nonzeroSpan ds k p = p"
  by (induction ds arbitrary: k; cases p) auto

lemma trimLen_zeros:
  assumes "ds \<noteq> []" "last ds \<noteq> CHR ''0''" "k \<le> b"
  shows "trimLen (ds @ replicate b CHR ''0'') (length ds + k) = length ds"
  using assms(3)
proof (induction k)
  case 0
  obtain n where n: "length ds = Suc n" using assms(1) by (cases ds) auto
  have "ds ! n \<noteq> CHR ''0''" using assms n by (simp add: last_conv_nth)
  then show ?case using n by (simp add: nth_append)
next
  case (Suc k)
  then show ?case using assms(1) by (simp add: nth_append)
qed

lemma trimLen_core:
  assumes "0 < c"
  shows "\<exists>z. canon c (trimLen (natDigits c) (length (natDigits c))) z \<and>
    length (natDigits c) - trimLen (natDigits c) (length (natDigits c)) = z"
proof -
  have nz: "hd (natDigits c) \<noteq> CHR ''0''" using assms by (simp add: natDigits_hd)
  have "\<not> list_all (\<lambda>c. c = CHR ''0'') (natDigits c)"
  proof
    assume "list_all (\<lambda>c. c = CHR ''0'') (natDigits c)"
    then show False using nz hd_in_set [OF natDigits_nonempty [of c]] by (simp add: list_all_iff)
  qed
  from core_exists [OF natDigits_digits this]
  obtain a core b where d: "natDigits c = replicate a CHR ''0'' @ core @ replicate b CHR ''0''"
      "coreDigits core" by blast
  have "a = 0" using nz d(1) by (cases a) auto
  then have nd: "natDigits c = core @ replicate b CHR ''0''" using d(1) by simp
  have "trimLen (core @ replicate b CHR ''0'') (length core + b) = length core"
    using d(2) trimLen_zeros [of core b b] by (simp add: coreDigits_def)
  then have "trimLen (natDigits c) (length (natDigits c)) = length core" by (simp add: nd)
  moreover have "canon c (length core) b"
    using canon_digits [OF d(2), of 0 b] digitsVal_natDigits [of c] by (simp add: nd)
  ultimately show ?thesis by (simp add: nd)
qed

subsection \<open>The estimate\<close>

lemma BitLen_bound: "0 < c \<Longrightarrow> 2 ^ BitLen c \<le> 2 * c"
proof (induction c rule: BitLen.induct)
  case (1 c)
  show ?case
  proof (cases "c div 2 = 0")
    case True
    then have "c = 1" using 1(2) by linarith
    then show ?thesis by (simp add: BitLen.simps [of "Suc 0"] BitLen.simps [of 0])
  next
    case False
    then have "2 ^ BitLen (c div 2) \<le> 2 * (c div 2)" using 1 by simp
    then show ?thesis using 1(2) by (simp add: BitLen.simps [of c])
  qed
qed

lemma BitLen_pow10:
  assumes "0 < c" "Suc (10 * k) \<le> BitLen c"
  shows "10 ^ (3 * k) \<le> c"
proof -
  have "(2::nat) ^ Suc (10 * k) \<le> 2 ^ BitLen c" using assms(2) by (intro power_increasing) auto
  then have "(2::nat) ^ Suc (10 * k) \<le> 2 * c" using BitLen_bound [OF assms(1)] by (rule order_trans)
  then have "(2::nat) ^ (10 * k) \<le> c" by simp
  moreover have "((10::nat) ^ 3) ^ k \<le> (2 ^ 10) ^ k" by (intro power_mono) auto
  then have "(10::nat) ^ (3 * k) \<le> 2 ^ (10 * k)" by (simp only: power_mult)
  ultimately show ?thesis by linarith
qed

lemma estimate_long:
  assumes "0 < c" "estimate c > 3 * MaxDecimalDigits + 1"
  shows "10 ^ (3 * 996) \<le> c"
proof -
  have "3001 \<le> BitLen c * 30102999566398119521 div 10 ^ 20"
    using assms(2) by (simp add: estimate_def MaxDecimalDigits_def)
  then have "3001 * 10 ^ 20 \<le> BitLen c * 30102999566398119521"
    by (simp add: less_eq_div_iff_mult_less_eq)
  then have "Suc (10 * 996) \<le> BitLen c" by simp
  then show ?thesis by (rule BitLen_pow10 [OF assms(1)])
qed

section \<open>The shape of a value\<close>

lemma shapeOfDigits_long: "n + e > MaxDecimalDigits \<Longrightarrow> shapeOfDigits n e = Inl DecimalTooLarge"
  by (simp add: shapeOfDigits_def Digits_def MaxDecimalDigits_def Let_def)

lemma DecimalShapeOf_canon:
  assumes "\<bar>dc_Exponent d\<bar> \<le> MaxDecimalDigits" "canon (nat \<bar>dc_Coefficient d\<bar>) n z"
  shows "DecimalShapeOf d = shapeOfDigits (int n) (dc_Exponent d + int z)"
proof -
  define c where "c = nat \<bar>dc_Coefficient d\<bar>"
  define e where "e = dc_Exponent d"
  have c: "canon c n z" using assms(2) by (simp add: c_def)
  then have c0: "0 < c" by (auto simp: canon_def intro!: Nat.gr0I)
  then have nz: "dc_Coefficient d \<noteq> 0" by (auto simp: c_def)
  have in_range: "\<not> (e > MaxDecimalDigits \<or> e < - MaxDecimalDigits)" using assms(1) by (auto simp: e_def)
  have small: "(case stripZeros c e of (v, x) \<Rightarrow> shapeOfDigits (countDigits v 1) x) =
      shapeOfDigits (int n) (e + int z)"
  proof -
    obtain n' z' v where "canon c n' z'" "stripZeros c e = (v, e + int z')"
        "countDigits v 1 = int n'" using canon_small [OF c0, of e] by blast
    then show ?thesis using canon_unique [OF c, of n' z'] by simp
  qed
  have long: "shapeOfDigits (int n) (e + int z) = Inl DecimalTooLarge"
    if "estimate c > 3 * MaxDecimalDigits + 1"
  proof -
    have "10 ^ (3 * 996) < (10::nat) ^ (n + z)"
      using estimate_long [OF c0 that] canon_bounds [OF c] by (rule order_le_less_trans)
    then have "3 * 996 < n + z" by (rule power_less_imp_less_exp [rotated]) simp
    then show ?thesis using in_range by (intro shapeOfDigits_long) (simp add: MaxDecimalDigits_def)
  qed
  obtain z' where "canon c (trimLen (natDigits c) (length (natDigits c))) z'"
      "length (natDigits c) - trimLen (natDigits c) (length (natDigits c)) = z'"
    using trimLen_core [OF c0] by blast
  then have big: "trimLen (natDigits c) (length (natDigits c)) = n"
      "length (natDigits c) - n = z" using canon_unique [OF c] by auto
  have "DecimalShapeOf d =
     (if c < 2 ^ 64 then (case stripZeros c e of (v, x) \<Rightarrow> shapeOfDigits (countDigits v 1) x)
      else if estimate c > 3 * MaxDecimalDigits + 1 then Inl DecimalTooLarge
      else shapeOfDigits (int n) (e + int z))"
    using in_range nz big by (simp only: DecimalShapeOf_def Let_def c_def [symmetric] e_def [symmetric] if_False)
  then show ?thesis using small long by (simp add: e_def)
qed

text \<open>The value a plain spelling stands for.  It is what the decimal library's parser documents
  for it: the digits as one integer, with the point moved by the exponent and every written
  fraction digit kept.\<close>

definition spelledDecimal :: "string \<Rightarrow> decimal" where
  "spelledDecimal s = (case scanSpelling s of
     None \<Rightarrow> \<lparr>dc_Coefficient = 0, dc_Exponent = 0\<rparr>
   | Some (ints, frac, x) \<Rightarrow>
       \<lparr>dc_Coefficient = (if negSign s then - int (digitsVal (ints @ frac))
                          else int (digitsVal (ints @ frac))),
        dc_Exponent = x - int (length frac)\<rparr>)"

lemma scanSpelling_digits:
  "scanSpelling s = Some (ints, frac, x) \<Longrightarrow> list_all isDigit (ints @ frac)"
  by (auto simp: scanSpelling_def Let_def list_all_iff split: option.splits if_splits
      dest: set_takeWhileD)

lemma spellingShape_value:
  assumes "spellingShape s = Some r"
  shows "DecimalShapeOf (spelledDecimal s) = r"
proof -
  obtain ints frac x where scan: "scanSpelling s = Some (ints, frac, x)"
    using assms by (auto simp: spellingShape_def split: option.splits)
  define e where "e = x - int (length frac)"
  define ds where "ds = ints @ frac"
  have exp: "dc_Exponent (spelledDecimal s) = e"
    and co: "nat \<bar>dc_Coefficient (spelledDecimal s)\<bar> = digitsVal ds"
    by (simp_all add: spelledDecimal_def scan e_def ds_def)
  show ?thesis
  proof (cases "e > MaxDecimalDigits \<or> e < - MaxDecimalDigits")
    case True
    then show ?thesis using assms
      by (auto simp: spellingShape_def scan e_def [symmetric] DecimalShapeOf_def exp Let_def)
  next
    case rng: False
    then have shape: "r = (case nonzeroSpan ds 0 (-1, -1) of (f, l) \<Rightarrow> if f < 0 then Inr noShape
        else shapeOfDigits (l - f + 1) (e + (int (length ds) - 1 - l)))"
      using assms by (auto simp: spellingShape_def scan e_def ds_def Let_def split: prod.splits)
    show ?thesis
    proof (cases "list_all (\<lambda>c. c = CHR ''0'') ds")
      case True
      then have "ds = replicate (length ds) CHR ''0''" by (simp add: list_all_iff replicate_length_same)
      then have "digitsVal ds = 0" by (metis digitsVal_zeros)
      then have "dc_Coefficient (spelledDecimal s) = 0" using co by simp
      then show ?thesis using rng shape nonzeroSpan_none [OF True]
        by (simp add: DecimalShapeOf_def exp Let_def)
    next
      case False
      then obtain a core b where d: "ds = replicate a CHR ''0'' @ core @ replicate b CHR ''0''"
          and core: "coreDigits core"
        using core_exists [of ds] scanSpelling_digits [OF scan] ds_def by blast
      have "r = shapeOfDigits (int (length core)) (e + int b)"
        using shape nonzeroSpan_core [OF core, of a b] by (simp add: d)
      moreover have "canon (digitsVal ds) (length core) b" unfolding d by (rule canon_digits [OF core])
      moreover have "\<bar>e\<bar> \<le> MaxDecimalDigits" using rng by linarith
      ultimately show ?thesis
        using DecimalShapeOf_canon [of "spelledDecimal s" "length core" b] by (simp add: exp co)
    qed
  qed
qed

lemma checkSpelled_size:
  assumes "IsPlainDecimalSpelling s \<Longrightarrow> d = spelledDecimal s"
  shows "checkSpelledDecimal s d = CheckDecimalSize d"
proof (cases "spellingShape s")
  case (Some r)
  then show ?thesis using assms spellingShape_value [OF Some]
    by (cases r) (simp_all add: checkSpelledDecimal_def CheckDecimalSize_def IsPlainDecimalSpelling_def)
qed (simp add: checkSpelledDecimal_def)

text \<open>The one size rule: a text is read when it is short enough, parses, and its value has a
  shape.\<close>

definition sizeRule :: "string \<Rightarrow> decimal option \<Rightarrow> decimal_error + decimal" where
  "sizeRule b parsed =
     (if int (length b) > 3032 then Inl DecimalTooLarge
      else case parsed of None \<Rightarrow> Inl DecimalInvalid
           | Some v \<Rightarrow> if isl (DecimalShapeOf v) then Inl DecimalTooLarge else Inr v)"

lemma DecimalShapeOf_error: "DecimalShapeOf d = Inl e \<Longrightarrow> e = DecimalTooLarge"
  by (auto simp: DecimalShapeOf_def shapeOfDigits_def Let_def split: if_splits prod.splits)

lemma CheckDecimalSize_isl:
  "CheckDecimalSize d = (if isl (DecimalShapeOf d) then Some DecimalTooLarge else None)"
  using DecimalShapeOf_error [of d] by (cases "DecimalShapeOf d") (simp_all add: CheckDecimalSize_def)

lemmas size_rule = sizeRule_def maxDecimalSpelling_def MaxDecimalDigits_def CheckDecimalSize_isl

lemmas decimal_shape_eval = DecimalShapeOf_def MaxDecimalDigits_def shapeOfDigits_def Digits_def
  stripZeros.simps countDigits.simps

text \<open>C21: One size rule for decimals.  Whether the shape is measured on the text or on the value
  parsed from it, through the 64-bit branch or the long one, makes no difference: parsing a
  string, decoding a text, decoding JSON (quoted or not) and scanning a column's text all accept
  exactly the texts of at most 3032 bytes that parse to a value whose shape \<open>DecimalShapeOf\<close>
  accepts, and return that value.  The decimal library is an argument, relied on to read a plain
  spelling as the number it spells.\<close>

theorem decimal_one_size_rule:
  assumes "\<And>s. IsPlainDecimalSpelling s \<Longrightarrow> parse s = Some (spelledDecimal s)"
    and "\<And>b. IsPlainDecimalSpelling (unquoted b) \<Longrightarrow> parseJSON b = Some (spelledDecimal (unquoted b))"
    and "\<And>s. IsPlainDecimalSpelling s \<Longrightarrow> scan (ScanText s) = Some (spelledDecimal s)"
  shows "NewDecimalFromString parse b = sizeRule b (parse b) \<and>
    UnmarshalText parse b = sizeRule b (parse b) \<and>
    UnmarshalJSON parseJSON d b = (if b = ''null'' then Inr d else sizeRule b (parseJSON b)) \<and>
    Scan nonFinite scan (ScanText b) = sizeRule b (scan (ScanText b))"
proof -
  have "checkSpelledDecimal b v = CheckDecimalSize v" if "parse b = Some v" for v
    using assms(1) [of b] that by (intro checkSpelled_size) simp
  then have "NewDecimalFromString parse b = sizeRule b (parse b)"
      "UnmarshalText parse b = sizeRule b (parse b)"
    by (auto simp: NewDecimalFromString_def UnmarshalText_def CheckDecimalSpelling_def size_rule
        split: option.splits)
  moreover have "checkSpelledDecimal (unquoted b) v = CheckDecimalSize v" if "parseJSON b = Some v" for v
    using assms(2) [of b] that by (intro checkSpelled_size) simp
  then have "UnmarshalJSON parseJSON d b = (if b = ''null'' then Inr d else sizeRule b (parseJSON b))"
    by (auto simp: UnmarshalJSON_def size_rule split: option.splits)
  moreover have "checkSpelledDecimal b v = CheckDecimalSize v" if "scan (ScanText b) = Some v" for v
    using assms(3) [of b] that by (intro checkSpelled_size) simp
  then have "Scan nonFinite scan (ScanText b) = sizeRule b (scan (ScanText b))"
    by (auto simp: Scan_def size_rule split: option.splits)
  ultimately show ?thesis by simp
qed

theorem decimal_one_size_rule_witness:
  "NewDecimalFromString (\<lambda>s. if IsPlainDecimalSpelling s then Some (spelledDecimal s) else None) ''12.50''
     = Inr \<lparr>dc_Coefficient = 1250, dc_Exponent = -2\<rparr>"
proof -
  have sp: "IsPlainDecimalSpelling ''12.50'' \<and> spelledDecimal ''12.50'' = \<lparr>dc_Coefficient = 1250, dc_Exponent = -2\<rparr>"
    by (simp add: IsPlainDecimalSpelling_def spellingShape_def spelledDecimal_def digitsVal_def digitVal_def
        scanSpelling_def scanExponent_def skipSign_def isSign_def negSign_def isDigit_def)
  let ?p = "\<lambda>s. if IsPlainDecimalSpelling s then Some (spelledDecimal s) else None"
  have "NewDecimalFromString ?p ''12.50'' = sizeRule ''12.50'' (?p ''12.50'')"
    by (rule conjunct1 [OF decimal_one_size_rule [where parseJSON = "\<lambda>b. ?p (unquoted b)"
          and scan = "\<lambda>v. case v of ScanText s \<Rightarrow> ?p s | _ \<Rightarrow> None"]]) simp_all
  also have "\<dots> = Inr \<lparr>dc_Coefficient = 1250, dc_Exponent = -2\<rparr>"
    using sp by (simp add: sizeRule_def decimal_shape_eval)
  finally show ?thesis .
qed

lemma canon_exists: "0 < c \<Longrightarrow> \<exists>n z. canon c n z"
  using canon_small [of c 0] by blast

lemma scaled_canon:
  fixes e :: int and c m :: nat
  assumes "c = m * 10 ^ z" "0 \<le> e + 1000"
  shows "c * 10 ^ nat (e + 1000) = m * 10 ^ nat (e + int z + 1000)"
proof -
  have "nat (e + int z + 1000) = z + nat (e + 1000)" using assms(2) by linarith
  then show ?thesis by (simp add: assms(1) power_add)
qed

lemma shapeOfDigits_Inr:
  "shapeOfDigits n e = Inr sh \<Longrightarrow>
    ds_Whole sh = max 0 (n + e) \<and> ds_Frac sh = max 0 (- e) \<and> Digits sh \<le> MaxDecimalDigits"
  by (auto simp: shapeOfDigits_def Let_def split: if_splits)

lemma pow10_scaled_upper:
  "m < 10 ^ n \<Longrightarrow> n + a \<le> b \<Longrightarrow> m * 10 ^ a < (10::nat) ^ b"
proof -
  assume m: "m < 10 ^ n" "n + a \<le> b"
  then have "m * 10 ^ a < 10 ^ n * 10 ^ a" by simp
  also have "\<dots> \<le> 10 ^ b" using m(2) by (simp only: power_add [symmetric]) (intro power_increasing, auto)
  finally show ?thesis .
qed

lemma pow10_scaled_lower:
  "10 ^ n \<le> 10 * m \<Longrightarrow> Suc b \<le> n + a \<Longrightarrow> (10::nat) ^ b \<le> m * 10 ^ a"
proof -
  assume m: "10 ^ n \<le> 10 * m" "Suc b \<le> n + a"
  have "(10::nat) ^ Suc b \<le> 10 ^ (n + a)" using m(2) by (intro power_increasing) auto
  also have "\<dots> \<le> 10 * m * 10 ^ a" unfolding power_add using m(1) by (intro mult_right_mono) auto
  finally show ?thesis by simp
qed

lemma pow10_scaled_ends: "\<not> 10 dvd m \<Longrightarrow> \<not> (10::nat) ^ Suc a dvd m * 10 ^ a"
  by (simp add: mult.commute)

text \<open>C27: What an accepted decimal's shape says.  Scale the absolute value by ten to the
  thousandth, which makes it an integer for every accepted exponent.  Then the value has exactly
  \<open>ds_Whole\<close> digits before the point (none below one) and \<open>ds_Frac\<close> after it, the last of them
  not zero, and its printed form has at most a thousand digits; so no accepted value makes a
  later step write more.\<close>

theorem decimal_shape_bounds:
  assumes "DecimalShapeOf d = Inr sh"
    and "V = nat \<bar>dc_Coefficient d\<bar> * 10 ^ nat (dc_Exponent d + 1000)"
    and "w = nat (ds_Whole sh)" and "f = nat (ds_Frac sh)"
  shows "\<bar>dc_Exponent d\<bar> \<le> 1000 \<and> max w 1 + f \<le> 1000 \<and> V < 10 ^ (w + 1000) \<and>
    (0 < w \<longrightarrow> 10 ^ (w + 999) \<le> V) \<and>
    10 ^ (1000 - f) dvd V \<and> (0 < f \<longrightarrow> \<not> 10 ^ (1001 - f) dvd V)"
proof -
  define e where "e = dc_Exponent d"
  have e: "\<bar>e\<bar> \<le> 1000"
    using assms(1) by (auto simp: DecimalShapeOf_def MaxDecimalDigits_def e_def Let_def split: if_splits)
  show ?thesis
  proof (cases "dc_Coefficient d = 0")
    case True
    then have "sh = noShape" using assms(1) e
      by (auto simp: DecimalShapeOf_def MaxDecimalDigits_def e_def Let_def split: if_splits)
    then have z: "V = 0" "w = 0" "f = 0" using True assms(2-4) by (simp_all add: noShape_def)
    have "V < 10 ^ (w + 1000)" unfolding z(1) by (rule zero_less_power) simp
    moreover have "10 ^ (1000 - f) dvd V" unfolding z(1) by (rule dvd_0_right)
    moreover have "max w 1 + f \<le> 1000" "\<not> 0 < w" "\<not> 0 < f" using z by simp_all
    ultimately show ?thesis using e unfolding e_def by blast
  next
    case False
    then obtain n z where c: "canon (nat \<bar>dc_Coefficient d\<bar>) n z" using canon_exists by fastforce
    then obtain m where m: "nat \<bar>dc_Coefficient d\<bar> = m * 10 ^ z" "\<not> 10 dvd m" "10 ^ n \<le> 10 * m" "m < 10 ^ n"
      by (auto simp: canon_def)
    define E where "E = e + int z"
    have sh: "shapeOfDigits (int n) E = Inr sh"
      using DecimalShapeOf_canon [OF _ c] e assms(1) by (simp add: e_def E_def MaxDecimalDigits_def)
    have V: "V = m * 10 ^ nat (E + 1000)"
      using scaled_canon [OF m(1), of e] e assms(2) by (simp add: e_def E_def)
    have w: "int w = max 0 (int n + E)" and f: "int f = max 0 (- E)"
      and dg: "max w 1 + f \<le> 1000"
      using shapeOfDigits_Inr [OF sh] assms(3,4) unfolding Digits_def MaxDecimalDigits_def by linarith+
    have E: "0 \<le> E + 1000" using e by (simp add: E_def)
    have "V < 10 ^ (w + 1000)" unfolding V by (rule pow10_scaled_upper [OF m(4)]) (use w E in linarith)
    moreover have "10 ^ (w + 999) \<le> V" if "0 < w"
      unfolding V by (rule pow10_scaled_lower [OF m(3)]) (use w E that in linarith)
    moreover have "10 ^ (1000 - f) dvd V" unfolding V
      by (rule dvd_mult, rule le_imp_power_dvd) (use f E in linarith)
    moreover have "\<not> 10 ^ (1001 - f) dvd V" if "0 < f"
    proof -
      have "1001 - f = Suc (nat (E + 1000))" using f E that by linarith
      then show ?thesis unfolding V using pow10_scaled_ends [OF m(2)] by simp
    qed
    ultimately show ?thesis using e dg unfolding e_def by blast
  qed
qed

theorem decimal_shape_bounds_witness:
  "DecimalShapeOf \<lparr>dc_Coefficient = -1250, dc_Exponent = -2\<rparr> =
     Inr \<lparr>ds_Whole = 2, ds_Frac = 1, ds_Significant = 3\<rparr> \<and>
   nat \<bar>-1250\<bar> * 10 ^ nat (-2 + 1000) < (10::nat) ^ (nat 2 + 1000)"
proof -
  have sh: "DecimalShapeOf \<lparr>dc_Coefficient = -1250, dc_Exponent = -2\<rparr> =
     Inr \<lparr>ds_Whole = 2, ds_Frac = 1, ds_Significant = 3\<rparr>" by (simp add: decimal_shape_eval)
  then show ?thesis using decimal_shape_bounds [OF sh refl refl refl]
    unfolding decimal.select_convs DecimalShape.select_convs by blast
qed

end
