(* ===== verification/Types_Clock.thy ===== *)
theory Types_Clock
  imports Go_Strings
begin

text \<open>
  Clock times without a date (\<open>types/timeofday.go\<close>): the accepted spellings, reading and
  printing, and the database's text.  The pattern is the regular expression of the source,
  written as a recogniser; on a text it accepts, Go's time parser reads the two-digit fields at
  their places and keeps the wall clock of an offset.
\<close>

section \<open>The pattern\<close>

definition between :: "char \<Rightarrow> char \<Rightarrow> char \<Rightarrow> bool" where
  "between lo hi c \<longleftrightarrow> (of_char lo :: nat) \<le> of_char c \<and> (of_char c :: nat) \<le> of_char hi"

definition hourField :: "char \<Rightarrow> char \<Rightarrow> bool" where
  "hourField a b \<longleftrightarrow> between CHR ''0'' CHR ''1'' a \<and> between CHR ''0'' CHR ''9'' b \<or>
     a = CHR ''2'' \<and> between CHR ''0'' CHR ''3'' b"

definition minuteField :: "char \<Rightarrow> char \<Rightarrow> bool" where
  "minuteField a b \<longleftrightarrow> between CHR ''0'' CHR ''5'' a \<and> between CHR ''0'' CHR ''9'' b"

fun offsetPattern :: "string \<Rightarrow> bool" where
  "offsetPattern [] = True"
| "offsetPattern [z] = (z = CHR ''Z'')"
| "offsetPattern [sg, a, b, c, d, e] =
     ((sg = CHR ''+'' \<or> sg = CHR ''-'') \<and> hourField a b \<and> c = CHR '':'' \<and> minuteField d e)"
| "offsetPattern _ = False"

fun secondPattern :: "string \<Rightarrow> bool" where
  "secondPattern [] = True"
| "secondPattern (c # a # b # rest) = (c = CHR '':'' \<and> minuteField a b \<and> offsetPattern rest)"
| "secondPattern _ = False"

fun timeOfDayPattern :: "string \<Rightarrow> bool" where
  "timeOfDayPattern (h1 # h2 # c # m1 # m2 # rest) =
     (hourField h1 h2 \<and> c = CHR '':'' \<and> minuteField m1 m2 \<and> secondPattern rest)"
| "timeOfDayPattern _ = False"

section \<open>Reading and printing\<close>

record TimeOfDay =
  td_hour :: int
  td_minute :: int
  td_second :: int

definition twoDigits :: "char \<Rightarrow> char \<Rightarrow> int" where
  "twoDigits a b = 10 * int (digitVal a) + int (digitVal b)"

text \<open>\<open>time.Parse\<close> with the layouts \<open>15:04:05\<close> and \<open>15:04:05Z07:00\<close> on a text the pattern accepts.\<close>

fun parseClock :: "string \<Rightarrow> TimeOfDay option" where
  "parseClock (h1 # h2 # _ # m1 # m2 # _ # s1 # s2 # _) =
     Some \<lparr>td_hour = twoDigits h1 h2, td_minute = twoDigits m1 m2, td_second = twoDigits s1 s2\<rparr>"
| "parseClock _ = None"

datatype clock_error = BadTimeOfDay string | CannotScan

definition UnmarshalTimeOfDay :: "string \<Rightarrow> clock_error + TimeOfDay" where
  "UnmarshalTimeOfDay b =
     (let s = TrimSpace b in
      if \<not> timeOfDayPattern s then Inl (BadTimeOfDay s)
      else let t = (if list_ex (\<lambda>c. c = CHR ''Z'' \<or> c = CHR ''+'' \<or> c = CHR ''-'') s then s
                    else if length s = length ''15:04'' then s @ '':00'' else s)
        in (case parseClock t of None \<Rightarrow> Inl (BadTimeOfDay s) | Some parsed \<Rightarrow> Inr parsed))"

definition ParseTimeOfDay :: "string \<Rightarrow> clock_error + TimeOfDay" where
  "ParseTimeOfDay s = UnmarshalTimeOfDay s"

text \<open>\<open>fmt.Sprintf("%02d", n)\<close>.\<close>

definition pad2 :: "int \<Rightarrow> string" where
  "pad2 n = (let s = FormatInt n in replicate (2 - length s) CHR ''0'' @ s)"

definition TimeString :: "TimeOfDay \<Rightarrow> string" where
  "TimeString t = pad2 (td_hour t) @ '':'' @ pad2 (td_minute t) @ '':'' @ pad2 (td_second t)"

definition TimeValue :: "TimeOfDay \<Rightarrow> string" where
  "TimeValue t = TimeString t"

text \<open>\<open>Scan\<close>: the driver's value is null, a time (of which the wall clock is read), a text, or
  something else.\<close>

datatype clock_source = SrcNil | SrcTime TimeOfDay | SrcText string | SrcOther

definition ScanTime :: "clock_source \<Rightarrow> clock_error + TimeOfDay" where
  "ScanTime src = (case src of
     SrcNil \<Rightarrow> Inr \<lparr>td_hour = 0, td_minute = 0, td_second = 0\<rparr>
   | SrcTime v \<Rightarrow> Inr \<lparr>td_hour = td_hour v, td_minute = td_minute v, td_second = td_second v\<rparr>
   | SrcText v \<Rightarrow> UnmarshalTimeOfDay v
   | SrcOther \<Rightarrow> Inl CannotScan)"

section \<open>What a clock's text says\<close>

definition clockValid :: "TimeOfDay \<Rightarrow> bool" where
  "clockValid t \<longleftrightarrow> 0 \<le> td_hour t \<and> td_hour t < 24 \<and> 0 \<le> td_minute t \<and> td_minute t < 60 \<and>
     0 \<le> td_second t \<and> td_second t < 60"

definition secondsOfDay :: "TimeOfDay \<Rightarrow> int" where
  "secondsOfDay t = td_hour t * 3600 + td_minute t * 60 + td_second t"

lemma twoDigits_hour: "hourField a b \<Longrightarrow> 0 \<le> twoDigits a b \<and> twoDigits a b < 24"
  by (auto simp: hourField_def between_def twoDigits_def digitVal_def)

lemma twoDigits_minute: "minuteField a b \<Longrightarrow> 0 \<le> twoDigits a b \<and> twoDigits a b < 60"
  by (auto simp: minuteField_def between_def twoDigits_def digitVal_def)

lemma pad2_digits:
  assumes "0 \<le> n" "n < 100"
  shows "pad2 n = [digitChar (nat n div 10), digitChar (nat n mod 10)]"
proof (cases "n < 10")
  case True
  then have "natDigits (nat n) = [digitChar (nat n)]" by (subst natDigits.simps) simp
  moreover have "CHR ''0'' = digitChar 0" using digitChar_0 [of 0] by (metis zero_less_numeral)
  ultimately show ?thesis using assms True by (simp add: pad2_def FormatInt_def nat_less_iff del: digitChar_0)
next
  case False
  then have "natDigits (nat n) = [digitChar (nat n div 10), digitChar (nat n mod 10)]"
    using assms by (subst natDigits.simps, subst natDigits.simps) auto
  then show ?thesis using assms by (simp add: pad2_def FormatInt_def)
qed

lemma of_char_digitChar: "d < 10 \<Longrightarrow> (of_char (digitChar d) :: nat) = 48 + d"
  by (simp add: digitChar_def)

lemma twoDigits_pad2: "0 \<le> n \<Longrightarrow> n < 100 \<Longrightarrow> twoDigits (digitChar (nat n div 10)) (digitChar (nat n mod 10)) = n"
  by (auto simp: twoDigits_def div_less_iff_less_mult nat_less_iff zdiv_int zmod_int)

lemma minuteField_pad2:
  assumes "0 \<le> n" "n < 60"
  shows "minuteField (digitChar (nat n div 10)) (digitChar (nat n mod 10))"
proof -
  have "nat n div 10 \<le> 5" "nat n mod 10 < 10" using assms by linarith+
  then show ?thesis by (simp add: minuteField_def between_def of_char_digitChar)
qed

lemma hourField_pad2:
  assumes "0 \<le> n" "n < 24"
  shows "hourField (digitChar (nat n div 10)) (digitChar (nat n mod 10))"
proof (cases "n < 20")
  case True
  then have "nat n div 10 \<le> 1" "nat n mod 10 \<le> 9" using assms by linarith+
  then show ?thesis by (simp add: hourField_def between_def of_char_digitChar)
next
  case False
  then have "20 \<le> nat n" "nat n < 24" using assms by linarith+
  then have h: "nat n div 10 = 2" "nat n < 24" by linarith+
  then have d: "nat n div 10 = 2" "nat n mod 10 \<le> 3" using div_mult_mod_eq [of "nat n" 10] by simp_all
  have "digitChar 2 = CHR ''2''" by code_simp
  then show ?thesis using d by (simp add: hourField_def between_def of_char_digitChar)
qed

lemma TimeString_chars:
  assumes "clockValid t"
  shows "TimeString t =
    [digitChar (nat (td_hour t) div 10), digitChar (nat (td_hour t) mod 10), CHR '':'',
     digitChar (nat (td_minute t) div 10), digitChar (nat (td_minute t) mod 10), CHR '':'',
     digitChar (nat (td_second t) div 10), digitChar (nat (td_second t) mod 10)]"
  using assms by (simp add: TimeString_def clockValid_def pad2_digits)

lemma TimeString_pattern: "clockValid t \<Longrightarrow> timeOfDayPattern (TimeString t)"
  using hourField_pad2 minuteField_pad2 unfolding TimeString_chars by (simp add: clockValid_def)

lemma digits_plain: "d < 10 \<Longrightarrow> digitChar d \<noteq> CHR ''Z'' \<and> digitChar d \<noteq> CHR ''+'' \<and> digitChar d \<noteq> CHR ''-''"
  using isDigit_digitChar [of d] by (auto simp: isDigit_def)

lemma tens_less: "q < 10 \<Longrightarrow> t < 10 \<Longrightarrow> 10 * p + q < 10 * r + t \<longleftrightarrow> p < r \<or> p = r \<and> q < (t :: nat)"
  by linarith

lemma pad2_less:
  assumes "0 \<le> a" "a < 100" "0 \<le> b" "b < 100"
  shows "pad2 a @ x < pad2 b @ y \<longleftrightarrow> a < b \<or> a = b \<and> x < y"
proof -
  have dg: "digitChar c < digitChar d \<longleftrightarrow> c < d" "digitChar c = digitChar d \<longleftrightarrow> c = d" if "c < 10" "d < 10" for c d
  proof -
    note v = of_char_digitChar [OF that(1)] of_char_digitChar [OF that(2)]
    show "digitChar c < digitChar d \<longleftrightarrow> c < d" unfolding less_char_def v by simp
    show "digitChar c = digitChar d \<longleftrightarrow> c = d" using v by (metis add_left_cancel)
  qed
  define m n where "m = nat a" and "n = nat b"
  have mn: "m < 100" "n < 100" "a = int m" "b = int n" using assms by (auto simp: m_def n_def)
  have "m div 10 < 10" "n div 10 < 10" using mn by (simp_all add: div_less_iff_less_mult)
  then have "pad2 a @ x < pad2 b @ y \<longleftrightarrow>
      m div 10 < n div 10 \<or> m div 10 = n div 10 \<and> (m mod 10 < n mod 10 \<or> m mod 10 = n mod 10 \<and> x < y)"
    using assms by (simp add: pad2_digits dg m_def [symmetric] n_def [symmetric])
  also have "\<dots> \<longleftrightarrow> m < n \<or> m = n \<and> x < y"
  proof -
    have "10 * (m div 10) + m mod 10 < 10 * (n div 10) + n mod 10 \<longleftrightarrow>
        m div 10 < n div 10 \<or> m div 10 = n div 10 \<and> m mod 10 < n mod 10" by (rule tens_less) simp_all
    then have "m < n \<longleftrightarrow> m div 10 < n div 10 \<or> m div 10 = n div 10 \<and> m mod 10 < n mod 10" by simp
    moreover have "m = n \<longleftrightarrow> m div 10 = n div 10 \<and> m mod 10 = n mod 10" by (metis div_mult_mod_eq)
    ultimately show ?thesis by blast
  qed
  finally show ?thesis by (simp add: mn)
qed

lemma clock_lex:
  assumes "clockValid t" "clockValid u"
  shows "secondsOfDay t < secondsOfDay u \<longleftrightarrow> td_hour t < td_hour u \<or> td_hour t = td_hour u \<and>
    (td_minute t < td_minute u \<or> td_minute t = td_minute u \<and> td_second t < td_second u)"
  using assms unfolding clockValid_def secondsOfDay_def by auto

lemma TimeString_less:
  assumes "clockValid t" "clockValid u"
  shows "TimeString t < TimeString u \<longleftrightarrow> secondsOfDay t < secondsOfDay u"
proof -
  have "pad2 (td_second t) < pad2 (td_second u) \<longleftrightarrow> td_second t < td_second u"
    using assms pad2_less [of "td_second t" "td_second u" "[]" "[]"] by (simp add: clockValid_def)
  then show ?thesis using assms unfolding TimeString_def clock_lex [OF assms]
    by (simp add: pad2_less clockValid_def)
qed

lemma pattern_parsed:
  assumes "timeOfDayPattern s"
  shows "\<exists>t. clockValid t \<and> (if length s = 5 then parseClock (s @ '':00'') = Some t \<and> td_second t = 0
    else parseClock s = Some t)"
proof -
  obtain h1 h2 m1 m2 rest where s: "s = h1 # h2 # CHR '':'' # m1 # m2 # rest"
    and f: "hourField h1 h2" "minuteField m1 m2" and r: "secondPattern rest"
    using assms by (cases s rule: timeOfDayPattern.cases) auto
  note b = twoDigits_hour [OF f(1)] twoDigits_minute [OF f(2)]
  from r show ?thesis
  proof (cases rest rule: secondPattern.cases)
    case 1
    then show ?thesis using b by (simp add: s clockValid_def twoDigits_def digitVal_def)
  next
    case (2 c a d zone)
    then have "minuteField a d" using r by simp
    then show ?thesis using 2 b twoDigits_minute [of a d] by (simp add: s clockValid_def)
  qed auto
qed

lemma UnmarshalTimeOfDay_accepts:
  "(\<exists>t. UnmarshalTimeOfDay b = Inr t \<and> clockValid t) \<longleftrightarrow> timeOfDayPattern (TrimSpace b)"
proof
  assume p: "timeOfDayPattern (TrimSpace b)"
  then obtain t where t: "clockValid t" and c: "if length (TrimSpace b) = 5
      then parseClock (TrimSpace b @ '':00'') = Some t \<and> td_second t = 0 else parseClock (TrimSpace b) = Some t"
    using pattern_parsed by blast
  have "\<not> list_ex (\<lambda>c. c = CHR ''Z'' \<or> c = CHR ''+'' \<or> c = CHR ''-'') (TrimSpace b)" if "length (TrimSpace b) = 5"
  proof -
    obtain h1 h2 m1 m2 rest where s: "TrimSpace b = h1 # h2 # CHR '':'' # m1 # m2 # rest" "hourField h1 h2" "minuteField m1 m2"
      using p by (cases "TrimSpace b" rule: timeOfDayPattern.cases) auto
    moreover have "rest = []" using that s(1) by simp
    ultimately show ?thesis by (auto simp: hourField_def minuteField_def between_def)
  qed
  then show "\<exists>t. UnmarshalTimeOfDay b = Inr t \<and> clockValid t"
    using p t c by (auto simp: UnmarshalTimeOfDay_def Let_def split: if_splits)
qed (auto simp: UnmarshalTimeOfDay_def Let_def split: if_splits)

lemma UnmarshalTimeOfDay_valid: "UnmarshalTimeOfDay b = Inr t \<Longrightarrow> clockValid t"
proof -
  assume u: "UnmarshalTimeOfDay b = Inr t"
  then have "timeOfDayPattern (TrimSpace b)" by (auto simp: UnmarshalTimeOfDay_def Let_def split: if_splits)
  then show ?thesis using u UnmarshalTimeOfDay_accepts [of b] by auto
qed

lemma UnmarshalTimeOfDay_TimeString:
  assumes "clockValid t"
  shows "UnmarshalTimeOfDay (TimeString t) = Inr t"
proof -
  let ?d = "\<lambda>n. [digitChar (nat n div 10), digitChar (nat n mod 10)]"
  have ten: "nat n div 10 < 10" if "n < 100" for n using that by linarith
  have v: "0 \<le> td_hour t" "td_hour t < 100" "0 \<le> td_minute t" "td_minute t < 100" "0 \<le> td_second t" "td_second t < 100"
    using assms by (simp_all add: clockValid_def)
  have "TrimSpace (TimeString t) = TimeString t"
    using ten [OF v(2)] by (intro TrimSpace_digit_ends) (simp_all add: TimeString_chars [OF assms])
  moreover have "\<not> list_ex (\<lambda>c. c = CHR ''Z'' \<or> c = CHR ''+'' \<or> c = CHR ''-'') (TimeString t)"
    using ten [OF v(2)] ten [OF v(4)] ten [OF v(6)] digits_plain by (simp add: TimeString_chars [OF assms])
  moreover have "parseClock (TimeString t) = Some t"
    using v by (simp add: TimeString_chars [OF assms] twoDigits_pad2)
  moreover have "length (TimeString t) = 8" by (simp add: TimeString_chars [OF assms])
  ultimately show ?thesis using TimeString_pattern [OF assms] by (simp add: UnmarshalTimeOfDay_def)
qed

text \<open>C34: A clock's text is its value.  A text is read exactly when, trimmed, it matches the
  pattern, and what is read is always a clock of the day.  Every such clock prints to a text that
  reads back as the same clock, from the API as from the database, and the texts sort as the
  clocks do, so a column of them is ordered by time.\<close>

theorem time_of_day_text:
  assumes "clockValid t" "clockValid u"
  shows "ParseTimeOfDay (TimeString t) = Inr t \<and> ScanTime (SrcText (TimeValue t)) = Inr t \<and>
    (TimeValue t < TimeValue u \<longleftrightarrow> secondsOfDay t < secondsOfDay u) \<and>
    (\<forall>s. (\<exists>v. ParseTimeOfDay s = Inr v) \<longleftrightarrow> timeOfDayPattern (TrimSpace s)) \<and>
    (\<forall>s v. ParseTimeOfDay s = Inr v \<longrightarrow> clockValid v)"
  using UnmarshalTimeOfDay_TimeString [OF assms(1)] TimeString_less [OF assms] UnmarshalTimeOfDay_accepts UnmarshalTimeOfDay_valid
  by (simp add: ParseTimeOfDay_def ScanTime_def TimeValue_def) blast

theorem time_of_day_text_witness:
  "ParseTimeOfDay ''09:05:00'' = Inr \<lparr>td_hour = 9, td_minute = 5, td_second = 0\<rparr> \<and>
   ''09:05:00'' < ''10:00:30''"
proof -
  let ?t = "\<lparr>td_hour = 9, td_minute = 5, td_second = 0\<rparr>"
  let ?u = "\<lparr>td_hour = 10, td_minute = 0, td_second = 30\<rparr>"
  have s: "TimeString ?t = ''09:05:00''" "TimeString ?u = ''10:00:30''" by code_simp+
  have "clockValid ?t" "clockValid ?u" by (simp_all add: clockValid_def)
  note t = time_of_day_text [OF this]
  have "secondsOfDay ?t < secondsOfDay ?u" by (simp add: secondsOfDay_def)
  then show ?thesis using t unfolding TimeValue_def s by blast
qed

end
