(* ===== verification/Resource_Policy.thy ===== *)
theory Resource_Policy
  imports Go_Strings
begin

text \<open>
  The API policy of a model's fields (\<open>resourcepolicy/policy.go\<close>): the \<open>gombit\<close> tag of a field and
  what the persistence layer says of its column decide where the field appears in the API and
  where its value comes from when a row is created.  \<open>Resolve\<close> refuses a combination that would
  leak a column, promise a write that is never made, or leave a required column to be filled
  with a zero value nobody chose.
\<close>

section \<open>Fields and policies\<close>

record FieldFacts =
  ff_GoName :: string
  ff_Column :: string
  ff_PrimaryKey :: bool
  ff_AutoIncrement :: bool
  ff_AutoTime :: bool
  ff_SoftDelete :: bool
  ff_NotNull :: bool
  ff_HasDefault :: bool
  ff_Creatable :: bool
  ff_Readable :: bool

definition dbBacked :: "FieldFacts \<Rightarrow> bool" where
  "dbBacked f \<longleftrightarrow> ff_Column f \<noteq> []"

definition managed :: "FieldFacts \<Rightarrow> bool" where
  "managed f \<longleftrightarrow> ff_AutoIncrement f \<or> ff_AutoTime f \<or> ff_SoftDelete f"

definition dbSuppliesCreateValue :: "FieldFacts \<Rightarrow> bool" where
  "dbSuppliesCreateValue f \<longleftrightarrow> ff_AutoIncrement f \<or> ff_AutoTime f \<and> ff_Creatable f"

definition requiresCreateValue :: "FieldFacts \<Rightarrow> bool" where
  "requiresCreateValue f =
     (if \<not> dbBacked f then False
      else (ff_NotNull f \<or> ff_PrimaryKey f) \<and> \<not> ff_HasDefault f \<and> \<not> dbSuppliesCreateValue f)"

datatype CreateSource = CreateSourceNone | CreateSourceRequest | CreateSourceServer

record Resolved =
  rv_Facts :: FieldFacts
  rv_InRequest :: bool
  rv_InResponse :: bool
  rv_CreateSource :: CreateSource
  rv_Filterable :: bool
  rv_Sortable :: bool
  rv_Searchable :: bool
  rv_Aggregatable :: bool

definition NeedsCreateValue :: "Resolved \<Rightarrow> bool" where
  "NeedsCreateValue r = requiresCreateValue (rv_Facts r)"

record PolicyField =
  pf_Facts :: FieldFacts
  pf_Tag :: string

record policyTag =
  pt_present :: bool
  pt_read :: bool
  pt_write :: bool
  pt_server :: bool
  pt_hidden :: bool
  pt_filterable :: bool
  pt_sortable :: bool
  pt_searchable :: bool
  pt_aggregatable :: bool

datatype policy_error =
    EmptyToken string
  | UnknownToken string
  | HiddenWithReadWrite
  | WriteAndServer
  | RelationshipTagged string
  | ManagedWritten string
  | NotCreatableWritten string
  | NotReadable string
  | QueryableHidden string
  | RequiredNotCreatable string
  | RequiredManaged string
  | RequiredNoSource string

section \<open>The tag\<close>

definition noTag :: policyTag where
  "noTag = \<lparr>pt_present = False, pt_read = False, pt_write = False, pt_server = False, pt_hidden = False,
     pt_filterable = False, pt_sortable = False, pt_searchable = False, pt_aggregatable = False\<rparr>"

definition policyToken :: "string \<Rightarrow> string \<Rightarrow> policyTag \<Rightarrow> policy_error + policyTag" where
  "policyToken tag tok p =
     (if tok = ''read'' then Inr (p\<lparr>pt_read := True\<rparr>)
      else if tok = ''write'' then Inr (p\<lparr>pt_write := True\<rparr>)
      else if tok = ''server'' then Inr (p\<lparr>pt_server := True\<rparr>)
      else if tok = ''-'' then Inr (p\<lparr>pt_hidden := True\<rparr>)
      else if tok = ''filterable'' then Inr (p\<lparr>pt_filterable := True\<rparr>)
      else if tok = ''sortable'' then Inr (p\<lparr>pt_sortable := True\<rparr>)
      else if tok = ''searchable'' then Inr (p\<lparr>pt_searchable := True\<rparr>)
      else if tok = ''aggregatable'' then Inr (p\<lparr>pt_aggregatable := True\<rparr>)
      else if tok = [] then Inl (EmptyToken tag)
      else Inl (UnknownToken tok))"

fun policyTokens :: "string \<Rightarrow> string list \<Rightarrow> policyTag \<Rightarrow> policy_error + policyTag" where
  "policyTokens tag [] p = Inr p"
| "policyTokens tag (t # ts) p =
     (case policyToken tag (TrimSpace t) p of
        Inl e \<Rightarrow> Inl e
      | Inr q \<Rightarrow> policyTokens tag ts q)"

definition parsePolicyTag :: "string \<Rightarrow> policy_error + policyTag" where
  "parsePolicyTag raw =
     (let tag = TrimSpace raw in
      if tag = [] then Inr noTag
      else case policyTokens tag (SplitByte CHR '','' tag) (noTag\<lparr>pt_present := True\<rparr>) of
          Inl e \<Rightarrow> Inl e
        | Inr p \<Rightarrow>
            if pt_hidden p \<and> (pt_read p \<or> pt_write p) then Inl HiddenWithReadWrite
            else if pt_write p \<and> pt_server p then Inl WriteAndServer
            else Inr p)"

section \<open>Resolving\<close>

text \<open>The checks of the tag against the column, and the surfaces it gives.\<close>

definition tagConflict :: "FieldFacts \<Rightarrow> policyTag \<Rightarrow> policy_error option" where
  "tagConflict facts tag =
     (if (pt_write tag \<or> pt_server tag) \<and> managed facts then Some (ManagedWritten (ff_Column facts))
      else if (pt_write tag \<or> pt_server tag) \<and> \<not> ff_Creatable facts
      then Some (NotCreatableWritten (ff_Column facts))
      else if pt_read tag \<and> \<not> ff_Readable facts then Some (NotReadable (ff_Column facts))
      else None)"

definition surfaces :: "FieldFacts \<Rightarrow> policyTag \<Rightarrow> Resolved" where
  "surfaces facts tag =
     (if pt_present tag then
        \<lparr>rv_Facts = facts, rv_InRequest = pt_write tag, rv_InResponse = pt_read tag,
         rv_CreateSource = (if pt_write tag then CreateSourceRequest
                            else if pt_server tag then CreateSourceServer else CreateSourceNone),
         rv_Filterable = pt_filterable tag, rv_Sortable = pt_sortable tag,
         rv_Searchable = pt_searchable tag, rv_Aggregatable = pt_aggregatable tag\<rparr>
      else let inRequest = (ff_Creatable facts \<and> \<not> managed facts) in
        \<lparr>rv_Facts = facts, rv_InRequest = inRequest,
         rv_InResponse = (ff_Readable facts \<and> \<not> ff_SoftDelete facts),
         rv_CreateSource = (if inRequest then CreateSourceRequest else CreateSourceNone),
         rv_Filterable = False, rv_Sortable = False, rv_Searchable = False, rv_Aggregatable = False\<rparr>)"

definition queryable :: "Resolved \<Rightarrow> bool" where
  "queryable r \<longleftrightarrow> rv_Filterable r \<or> rv_Sortable r \<or> rv_Searchable r \<or> rv_Aggregatable r"

definition relationship :: "FieldFacts \<Rightarrow> Resolved" where
  "relationship facts =
     \<lparr>rv_Facts = facts, rv_InRequest = False, rv_InResponse = False, rv_CreateSource = CreateSourceNone,
      rv_Filterable = False, rv_Sortable = False, rv_Searchable = False, rv_Aggregatable = False\<rparr>"

definition Resolve :: "FieldFacts \<Rightarrow> string \<Rightarrow> policy_error + Resolved" where
  "Resolve facts gombitTag =
     (case parsePolicyTag gombitTag of
        Inl e \<Rightarrow> Inl e
      | Inr tag \<Rightarrow>
          if \<not> dbBacked facts then
            (if pt_present tag then Inl (RelationshipTagged (ff_GoName facts))
             else Inr (relationship facts))
          else (case tagConflict facts tag of
              Some e \<Rightarrow> Inl e
            | None \<Rightarrow>
                let r = surfaces facts tag in
                if queryable r \<and> \<not> rv_InResponse r then Inl (QueryableHidden (ff_Column facts))
                else if requiresCreateValue facts \<and> rv_CreateSource r = CreateSourceNone then
                  Inl (if \<not> ff_Creatable facts then RequiredNotCreatable (ff_Column facts)
                       else if managed facts then RequiredManaged (ff_Column facts)
                       else RequiredNoSource (ff_Column facts))
                else Inr r))"

fun ResolveAll :: "PolicyField list \<Rightarrow> policy_error + Resolved list" where
  "ResolveAll [] = Inr []"
| "ResolveAll (f # fs) =
     (case Resolve (pf_Facts f) (pf_Tag f) of
        Inl e \<Rightarrow> Inl e
      | Inr r \<Rightarrow> (case ResolveAll fs of Inl e \<Rightarrow> Inl e | Inr rs \<Rightarrow> Inr (r # rs)))"

definition columnsWhere :: "Resolved list \<Rightarrow> (Resolved \<Rightarrow> bool) \<Rightarrow> string list" where
  "columnsWhere resolved keep =
     sort (map (\<lambda>r. ff_Column (rv_Facts r)) (filter (\<lambda>r. ff_Column (rv_Facts r) \<noteq> [] \<and> keep r) resolved))"

definition RequestColumns :: "Resolved list \<Rightarrow> string list" where
  "RequestColumns resolved = columnsWhere resolved rv_InRequest"

definition ResponseColumns :: "Resolved list \<Rightarrow> string list" where
  "ResponseColumns resolved = columnsWhere resolved rv_InResponse"

definition ServerColumns :: "Resolved list \<Rightarrow> string list" where
  "ServerColumns resolved = columnsWhere resolved (\<lambda>r. rv_CreateSource r = CreateSourceServer)"

section \<open>What a resolved policy promises\<close>

lemma policyTokens_present:
  "policyTokens tag ts p = Inr q \<Longrightarrow> pt_present q = pt_present p"
  by (induction ts arbitrary: p) (auto simp: policyToken_def split: sum.splits if_splits)

lemma parsePolicyTag_Inr:
  "parsePolicyTag raw = Inr p \<Longrightarrow> (pt_present p \<longleftrightarrow> TrimSpace raw \<noteq> []) \<and>
     \<not> (pt_hidden p \<and> (pt_read p \<or> pt_write p)) \<and> \<not> (pt_write p \<and> pt_server p)"
  by (auto simp: parsePolicyTag_def Let_def noTag_def split: sum.splits if_splits
      dest!: policyTokens_present)

definition policy_sound :: "FieldFacts \<Rightarrow> Resolved \<Rightarrow> bool" where
  "policy_sound facts r \<longleftrightarrow> rv_Facts r = facts \<and>
     (requiresCreateValue facts \<longrightarrow> rv_CreateSource r \<noteq> CreateSourceNone) \<and>
     (rv_CreateSource r \<noteq> CreateSourceNone \<longrightarrow> ff_Creatable facts \<and> \<not> managed facts) \<and>
     (rv_InRequest r \<longleftrightarrow> rv_CreateSource r = CreateSourceRequest) \<and>
     (rv_InResponse r \<longrightarrow> ff_Readable facts \<and> ff_Column facts \<noteq> []) \<and>
     (queryable r \<longrightarrow> rv_InResponse r)"

lemma Resolve_cases:
  assumes "Resolve facts raw = Inr r"
  obtains (relation) tag where "parsePolicyTag raw = Inr tag" "\<not> dbBacked facts" "\<not> pt_present tag"
      "r = relationship facts"
  | (column) tag where "parsePolicyTag raw = Inr tag" "dbBacked facts" "tagConflict facts tag = None"
      "r = surfaces facts tag" "queryable r \<longrightarrow> rv_InResponse r"
      "requiresCreateValue facts \<longrightarrow> rv_CreateSource r \<noteq> CreateSourceNone"
proof (cases "parsePolicyTag raw")
  case (Inr tag)
  show ?thesis
  proof (cases "dbBacked facts")
    case False
    then show ?thesis using assms Inr relation by (simp add: Resolve_def split: if_splits)
  next
    case True
    then have "tagConflict facts tag = None" using assms Inr by (simp add: Resolve_def split: option.splits)
    then show ?thesis using assms Inr True column
      by (simp add: Resolve_def Let_def split: if_splits)
  qed
qed (use assms in \<open>simp add: Resolve_def\<close>)

lemma surfaces_facts [simp]: "rv_Facts (surfaces facts tag) = facts"
  by (simp add: surfaces_def Let_def)

lemma surfaces_request:
  "rv_InRequest (surfaces facts tag) \<longleftrightarrow> rv_CreateSource (surfaces facts tag) = CreateSourceRequest"
  by (simp add: surfaces_def Let_def)

lemma surfaces_source:
  "tagConflict facts tag = None \<Longrightarrow> rv_CreateSource (surfaces facts tag) \<noteq> CreateSourceNone \<Longrightarrow>
    ff_Creatable facts \<and> \<not> managed facts"
  by (cases "pt_present tag") (auto simp: surfaces_def tagConflict_def Let_def split: if_splits)

lemma surfaces_response:
  "tagConflict facts tag = None \<Longrightarrow> rv_InResponse (surfaces facts tag) \<Longrightarrow> ff_Readable facts"
  by (cases "pt_present tag") (auto simp: surfaces_def tagConflict_def Let_def split: if_splits)

lemma Resolve_sound:
  assumes "Resolve facts raw = Inr r"
  shows "policy_sound facts r"
  using assms
proof (cases rule: Resolve_cases)
  case (relation tag)
  then show ?thesis
    by (simp add: policy_sound_def relationship_def requiresCreateValue_def queryable_def)
next
  case (column tag)
  then show ?thesis
    using surfaces_request surfaces_source [OF column(3)] surfaces_response [OF column(3)]
    by (simp add: policy_sound_def dbBacked_def)
qed

lemma ResolveAll_pointwise:
  "ResolveAll fs = Inr rs \<longleftrightarrow>
    list_all2 (\<lambda>f r. Resolve (pf_Facts f) (pf_Tag f) = Inr r) fs rs"
proof (induction fs arbitrary: rs)
  case (Cons f fs)
  show ?case by (cases rs) (auto simp: Cons [symmetric] split: sum.splits)
qed auto

lemma columnsWhere_set:
  "set (columnsWhere rs keep) = {ff_Column (rv_Facts r) | r. r \<in> set rs \<and> ff_Column (rv_Facts r) \<noteq> [] \<and> keep r}"
  by (auto simp: columnsWhere_def)

lemma ResolveAll_sound:
  assumes "ResolveAll fs = Inr rs"
  shows "list_all2 (\<lambda>f r. policy_sound (pf_Facts f) r) fs rs"
  using assms Resolve_sound by (auto simp: ResolveAll_pointwise elim!: list_all2_mono)

lemma policy_created:
  assumes "policy_sound facts r"
  shows "rv_InRequest r \<or> rv_CreateSource r = CreateSourceServer \<longleftrightarrow> rv_CreateSource r \<noteq> CreateSourceNone"
  using assms by (cases "rv_CreateSource r") (auto simp: policy_sound_def)

lemma createdColumns_set:
  assumes "list_all2 (\<lambda>f r. policy_sound (pf_Facts f) r) fs rs"
  shows "set (RequestColumns rs) \<union> set (ServerColumns rs) =
    {ff_Column (rv_Facts r) | r. r \<in> set rs \<and> ff_Column (rv_Facts r) \<noteq> [] \<and>
       rv_CreateSource r \<noteq> CreateSourceNone}"
proof -
  have "rv_InRequest r \<or> rv_CreateSource r = CreateSourceServer \<longleftrightarrow> rv_CreateSource r \<noteq> CreateSourceNone"
    if "r \<in> set rs" for r
  proof -
    obtain i where i: "i < length rs" "r = rs ! i" using \<open>r \<in> set rs\<close> unfolding in_set_conv_nth by blast
    then have "policy_sound (pf_Facts (fs ! i)) r" using assms by (simp add: list_all2_conv_all_nth)
    then show ?thesis by (rule policy_created)
  qed
  then show ?thesis unfolding RequestColumns_def ServerColumns_def columnsWhere_set by blast
qed

text \<open>C22: No required column is filled with a zero value nobody chose, and nothing leaks.  When a
  model's fields resolve, each keeps its own facts; a required column has a create source; a
  create source is only given to a column that persistence writes and does not manage; the
  request carries exactly the columns whose source is the request; a column in the response is
  readable; and only a column in the response can be filtered, sorted, searched or aggregated
  on.  So every required column is among the request's or the hooks' columns, and all of those
  are columns persistence will write.\<close>

theorem policy_no_silent_zero:
  assumes "ResolveAll fs = Inr rs"
  shows "length rs = length fs \<and>
    (\<forall>i < length fs. policy_sound (pf_Facts (fs ! i)) (rs ! i)) \<and>
    (\<forall>f \<in> set fs. requiresCreateValue (pf_Facts f) \<longrightarrow>
       ff_Column (pf_Facts f) \<in> set (RequestColumns rs) \<union> set (ServerColumns rs)) \<and>
    (\<forall>c \<in> set (RequestColumns rs) \<union> set (ServerColumns rs).
       \<exists>f \<in> set fs. ff_Column (pf_Facts f) = c \<and> ff_Creatable (pf_Facts f) \<and> \<not> managed (pf_Facts f)) \<and>
    sorted (RequestColumns rs) \<and> sorted (ServerColumns rs)"
proof -
  note all = ResolveAll_sound [OF assms]
  note created = createdColumns_set [OF all]
  have len: "length rs = length fs"
    and nth: "i < length fs \<Longrightarrow> policy_sound (pf_Facts (fs ! i)) (rs ! i)" for i
    using all by (auto simp: list_all2_conv_all_nth)
  have "ff_Column (pf_Facts f) \<in> set (RequestColumns rs) \<union> set (ServerColumns rs)"
    if "f \<in> set fs" "requiresCreateValue (pf_Facts f)" for f
  proof -
    obtain i where i: "i < length fs" "f = fs ! i" using \<open>f \<in> set fs\<close> by (metis in_set_conv_nth)
    then have "rs ! i \<in> set rs" "ff_Column (pf_Facts f) \<noteq> []" using len that(2)
      by (simp_all add: requiresCreateValue_def dbBacked_def split: if_splits)
    moreover have "rv_Facts (rs ! i) = pf_Facts f" "rv_CreateSource (rs ! i) \<noteq> CreateSourceNone"
      using nth [OF i(1)] that(2) i(2) by (simp_all add: policy_sound_def)
    ultimately show ?thesis unfolding created by force
  qed
  moreover have "\<exists>f \<in> set fs. ff_Column (pf_Facts f) = c \<and> ff_Creatable (pf_Facts f) \<and> \<not> managed (pf_Facts f)"
    if "c \<in> set (RequestColumns rs) \<union> set (ServerColumns rs)" for c
  proof -
    obtain r where r: "r \<in> set rs" "c = ff_Column (rv_Facts r)" "rv_CreateSource r \<noteq> CreateSourceNone"
      using \<open>c \<in> _\<close> unfolding created by blast
    then obtain i where i: "i < length fs" "r = rs ! i" using len by (metis in_set_conv_nth)
    then show ?thesis using nth [OF i(1)] r(2,3) nth_mem [OF i(1)]
      by (intro bexI [of _ "fs ! i"]) (simp_all add: policy_sound_def)
  qed
  moreover have "sorted (RequestColumns rs)" "sorted (ServerColumns rs)"
    by (simp_all add: RequestColumns_def ServerColumns_def columnsWhere_def)
  ultimately show ?thesis using len nth by simp
qed

text \<open>A key, a required column with a tag, and a hidden one a hook sets.\<close>

definition sampleFields :: "PolicyField list" where
  "sampleFields =
     (let facts = (\<lambda>name auto. \<lparr>ff_GoName = name, ff_Column = name, ff_PrimaryKey = auto, ff_AutoIncrement = auto,
        ff_AutoTime = False, ff_SoftDelete = False, ff_NotNull = True, ff_HasDefault = False,
        ff_Creatable = True, ff_Readable = True\<rparr>)
      in [\<lparr>pf_Facts = facts ''id'' True, pf_Tag = []\<rparr>,
          \<lparr>pf_Facts = facts ''title'' False, pf_Tag = ''read,write,filterable''\<rparr>,
          \<lparr>pf_Facts = facts ''owner'' False, pf_Tag = ''-,server''\<rparr>])"

theorem policy_no_silent_zero_witness:
  "\<exists>rs. ResolveAll sampleFields = Inr rs \<and>
     ''title'' \<in> set (RequestColumns rs) \<union> set (ServerColumns rs)"
proof -
  have ok: "case ResolveAll sampleFields of Inr rs \<Rightarrow> True | Inl _ \<Rightarrow> False" by code_simp
  then obtain rs where rs: "ResolveAll sampleFields = Inr rs" by (auto split: sum.splits)
  have f: "sampleFields ! 1 \<in> set sampleFields" "requiresCreateValue (pf_Facts (sampleFields ! 1))"
      "ff_Column (pf_Facts (sampleFields ! 1)) = ''title''"
    by (simp_all add: sampleFields_def requiresCreateValue_def dbBacked_def dbSuppliesCreateValue_def)
  show ?thesis using policy_no_silent_zero [OF rs] f rs by metis
qed

end
