(* ===== verification/Config_DotEnv.thy ===== *)
theory Config_DotEnv
  imports Go_Strings
begin

text \<open>
  The \<open>.env\<close> file (\<open>config/dotenv.go\<close>): the grammar of a line, the traversal that the loader and
  the key listing share, and the two ways its values reach the configuration, by filling the
  process environment (\<open>Load\<close>) and by a lookup over it (\<open>LoadFromDir\<close>).  The file system's answer to
  reading the file is an argument, and so is the process environment, an association list.
\<close>

section \<open>The grammar of a line\<close>

definition blank :: "char \<Rightarrow> bool" where
  "blank c \<longleftrightarrow> c = CHR '' '' \<or> c = CHR 0x09"

definition quoteMark :: "char \<Rightarrow> bool" where
  "quoteMark c \<longleftrightarrow> c = CHR 0x22 \<or> c = CHR 0x27"

text \<open>\<open>bytes.IndexByte\<close>.\<close>

definition IndexByte :: "string \<Rightarrow> char \<Rightarrow> nat option" where
  "IndexByte s c = (if c \<in> set s then Some (length (takeWhile (\<lambda>x. x \<noteq> c) s)) else None)"

definition commentFrom :: "string \<Rightarrow> nat" where
  "commentFrom v =
     (let lead = length v - length (dropWhile blank v) in
      if lead < length v \<and> quoteMark (v ! lead) then
        (case IndexByte (drop (lead + 1) v) (v ! lead) of
           Some end \<Rightarrow> lead + end + 2
         | None \<Rightarrow> 0)
      else 0)"

definition stripDotEnvComment :: "string \<Rightarrow> string" where
  "stripDotEnvComment v =
     (case find (\<lambda>i. v ! i = CHR ''#'' \<and> 0 < i \<and> blank (v ! (i - 1))) [commentFrom v ..< length v] of
        Some i \<Rightarrow> rev (dropWhile blank (rev (take i v)))
      | None \<Rightarrow> v)"

definition splitDotEnvLine :: "string \<Rightarrow> (string \<times> string) option" where
  "splitDotEnvLine raw =
     (let line = TrimSpace raw in
      if line = [] \<or> hd line = CHR ''#'' then None
      else (case CutByte CHR ''='' line of
              None \<Rightarrow> None
            | Some (k, v) \<Rightarrow>
                let k = TrimSpace k in
                if k = [] then None else Some (k, TrimSpace (stripDotEnvComment v))))"

definition unquoteDotEnv :: "string \<Rightarrow> string" where
  "unquoteDotEnv v =
     (if length v \<ge> 2 \<and> (hd v = CHR 0x22 \<and> last v = CHR 0x22 \<or> hd v = CHR 0x27 \<and> last v = CHR 0x27)
      then butlast (tl v) else v)"

definition parseDotEnvLine :: "string \<Rightarrow> (string \<times> string) option" where
  "parseDotEnvLine line =
     (case splitDotEnvLine line of None \<Rightarrow> None | Some (k, v) \<Rightarrow> Some (k, unquoteDotEnv v))"

definition DotEnvKey :: "string \<Rightarrow> string option" where
  "DotEnvKey line = (case splitDotEnvLine line of None \<Rightarrow> None | Some (k, _) \<Rightarrow> Some k)"

section \<open>The file\<close>

definition utf8BOM :: string where
  "utf8BOM = [CHR 0xEF, CHR 0xBB, CHR 0xBF]"

text \<open>The calls of \<open>fn\<close> in order: each assignment with its raw value.\<close>

definition scanDotEnv :: "string \<Rightarrow> (string \<times> string) list" where
  "scanDotEnv data =
     List.map_filter splitDotEnvLine (SplitByte CHR 0x0A (TrimPrefix data utf8BOM))"

definition DotEnvKeys :: "string \<Rightarrow> string list" where
  "DotEnvKeys data = map fst (scanDotEnv data)"

datatype read_file = FileMissing | FileUnreadable | FileData string

datatype dotenv_error = DotEnvUnreadable

fun addValue :: "(string \<times> string) list \<Rightarrow> string \<times> string \<Rightarrow> (string \<times> string) list" where
  "addValue values (key, value) =
     (if map_of values key = None then values @ [(key, unquoteDotEnv value)] else values)"

definition dotEnvValues :: "read_file \<Rightarrow> dotenv_error + (string \<times> string) list" where
  "dotEnvValues file = (case file of
     FileMissing \<Rightarrow> Inr []
   | FileUnreadable \<Rightarrow> Inl DotEnvUnreadable
   | FileData data \<Rightarrow> Inr (foldl addValue [] (scanDotEnv data)))"

section \<open>The environment\<close>

text \<open>\<open>os.Setenv\<close> refuses an empty name, a name with an equals sign or a zero byte, and a value
  with a zero byte; the loader ignores its error.\<close>

definition Setenv :: "(string \<times> string) list \<Rightarrow> string \<Rightarrow> string \<Rightarrow> (string \<times> string) list" where
  "Setenv env key value =
     (if key = [] \<or> CHR ''='' \<in> set key \<or> CHR 0x00 \<in> set key \<or> CHR 0x00 \<in> set value then env
      else AList.update key value env)"

fun applyValue :: "(string \<times> string) list \<Rightarrow> string \<times> string \<Rightarrow> (string \<times> string) list" where
  "applyValue env (key, value) = (if map_of env key \<noteq> None then env else Setenv env key value)"

definition loadDotEnv :: "(string \<times> string) list \<Rightarrow> read_file \<Rightarrow> dotenv_error + (string \<times> string) list" where
  "loadDotEnv env file = (case dotEnvValues file of
     Inl e \<Rightarrow> Inl e
   | Inr values \<Rightarrow> Inr (foldl applyValue env values))"

text \<open>The lookup that \<open>LoadFromDir\<close> reads the configuration through.\<close>

definition dirLookup :: "(string \<times> string) list \<Rightarrow> read_file \<Rightarrow> dotenv_error + (string \<Rightarrow> string option)" where
  "dirLookup env file = (case dotEnvValues file of
     Inl e \<Rightarrow> Inl e
   | Inr fileEnv \<Rightarrow> Inr (\<lambda>key. case map_of env key of Some v \<Rightarrow> Some v | None \<Rightarrow> map_of fileEnv key))"

section \<open>Values and keys\<close>

lemma addValue_lookup:
  "map_of (foldl addValue vs kvs) k =
    (case map_of vs k of Some v \<Rightarrow> Some v | None \<Rightarrow> map_option unquoteDotEnv (map_of kvs k))"
proof (induction kvs arbitrary: vs)
  case (Cons kv kvs)
  obtain k' v' where kv: "kv = (k', v')" by (cases kv)
  have "map_of (addValue vs kv) k = (case map_of vs k of Some v \<Rightarrow> Some v
      | None \<Rightarrow> if k = k' then Some (unquoteDotEnv v') else None)"
    by (auto simp: kv map_add_def split: option.splits)
  then show ?case using Cons [of "addValue vs kv"] by (simp add: kv split: option.splits)
qed (simp split: option.splits)

lemma dotEnvValues_lookup:
  "dotEnvValues (FileData data) = Inr vs \<Longrightarrow> map_of vs k = map_option unquoteDotEnv (map_of (scanDotEnv data) k)"
  by (auto simp: dotEnvValues_def addValue_lookup)

lemma addValue_keys:
  "distinct (map fst vs) \<Longrightarrow> distinct (map fst (foldl addValue vs kvs)) \<and>
    fst ` set (foldl addValue vs kvs) = fst ` set vs \<union> fst ` set kvs"
proof (induction kvs arbitrary: vs)
  case (Cons kv kvs)
  obtain k v where kv: "kv = (k, v)" by (cases kv)
  have "distinct (map fst (addValue vs kv))" "fst ` set (addValue vs kv) = insert k (fst ` set vs)"
    using Cons(2) by (auto simp: kv map_of_eq_None_iff)
  then show ?case using Cons(1) [of "addValue vs kv"] by (simp add: kv)
qed simp

lemma trimLeftOf_subset: "set (trimLeftOf ps s) \<subseteq> set s"
proof (induction ps s rule: trimLeftOf.induct)
  case (1 ps s)
  show ?case
  proof (cases "startsWithOne ps s")
    case (Some p)
    then show ?thesis using 1 [OF Some] set_drop_subset [of "length p" s]
      by (subst trimLeftOf.simps) auto
  qed (subst trimLeftOf.simps, simp)
qed

lemma TrimSpace_subset: "set (TrimSpace s) \<subseteq> set s"
  using trimLeftOf_subset [of "map rev spaceEncodings" "rev (trimLeftOf spaceEncodings s)"]
    trimLeftOf_subset [of spaceEncodings s] by (auto simp: TrimSpace_def)

lemma SplitByte_subset: "t \<in> set (SplitByte sep s) \<Longrightarrow> set t \<subseteq> set s"
proof (induction s arbitrary: t)
  case (Cons c cs)
  then show ?case by (fastforce split: if_splits list.splits)
qed simp

lemma stripDotEnvComment_subset: "set (stripDotEnvComment v) \<subseteq> set v"
  by (auto simp: stripDotEnvComment_def split: option.splits dest!: set_dropWhileD in_set_takeD)

lemma unquoteDotEnv_subset: "set (unquoteDotEnv v) \<subseteq> set v"
  by (auto simp: unquoteDotEnv_def dest!: in_set_butlastD list.set_sel(2) [rotated])

lemma splitDotEnvLine_key:
  assumes "splitDotEnvLine line = Some (k, v)"
  shows "k \<noteq> [] \<and> CHR ''='' \<notin> set k \<and> set k \<subseteq> set line \<and> set v \<subseteq> set line"
proof -
  obtain k0 v0 where cut: "CutByte CHR ''='' (TrimSpace line) = Some (k0, v0)"
      and k: "k = TrimSpace k0" "k \<noteq> []" and v: "v = TrimSpace (stripDotEnvComment v0)"
    using assms by (auto simp: splitDotEnvLine_def Let_def split: if_splits option.splits)
  have "set k0 \<subseteq> set (TrimSpace line)" "set v0 \<subseteq> set (TrimSpace line)"
    using CutByte_SomeD [OF cut] by auto
  then show ?thesis
    using k v CutByte_SomeD [OF cut] TrimSpace_subset [of k0] TrimSpace_subset [of line]
      TrimSpace_subset [of "stripDotEnvComment v0"] stripDotEnvComment_subset [of v0] by blast
qed

lemma scanDotEnv_entry:
  assumes "(k, v) \<in> set (scanDotEnv data)"
  shows "k \<noteq> [] \<and> CHR ''='' \<notin> set k \<and> set k \<subseteq> set data \<and> set v \<subseteq> set data"
proof -
  obtain line where line: "line \<in> set (SplitByte CHR 0x0A (TrimPrefix data utf8BOM))"
      "splitDotEnvLine line = Some (k, v)"
    using assms by (auto simp: scanDotEnv_def map_filter_def)
  have "set line \<subseteq> set data"
    using SplitByte_subset [OF line(1)] by (auto simp: TrimPrefix_def split: if_splits dest: in_set_dropD)
  then show ?thesis using splitDotEnvLine_key [OF line(2)] by blast
qed

lemma applyValue_lookup:
  assumes "distinct (map fst kvs)"
    and "\<And>k v. (k, v) \<in> set kvs \<Longrightarrow> k \<noteq> [] \<and> CHR ''='' \<notin> set k \<and> CHR 0x00 \<notin> set k \<and> CHR 0x00 \<notin> set v"
  shows "map_of (foldl applyValue env kvs) key =
    (case map_of env key of Some v \<Rightarrow> Some v | None \<Rightarrow> map_of kvs key)"
  using assms
proof (induction kvs arbitrary: env)
  case (Cons kv kvs)
  obtain k v where kv: "kv = (k, v)" by (cases kv)
  have step: "map_of (applyValue env kv) key =
      (case map_of env key of Some w \<Rightarrow> Some w | None \<Rightarrow> if key = k then Some v else None)"
    using Cons(3) [of k v] by (auto simp: kv Setenv_def split: option.splits)
  have "map_of kvs k = None" using Cons(2) by (simp add: kv map_of_eq_None_iff)
  moreover have "map_of (foldl applyValue (applyValue env kv) kvs) key =
      (case map_of (applyValue env kv) key of Some w \<Rightarrow> Some w | None \<Rightarrow> map_of kvs key)"
    using Cons(2,3) by (intro Cons(1)) auto
  ultimately show ?case unfolding step by (simp add: kv split: option.splits)
qed (simp split: option.splits)

text \<open>C30: The environment wins, then the file's first assignment.  Filling the process environment
  and looking up through it give the configuration the same variables: one that is set keeps its
  value, one that is not takes the file's first assignment to it, unquoted, and the variables the
  file sets are exactly those the key listing names.  A file that does not exist sets nothing.
  (A zero byte in the file is excluded: the operating system refuses it in a variable.)\<close>

theorem dotenv_precedence:
  assumes "CHR 0x00 \<notin> set data"
  shows "\<exists>env' lookup. loadDotEnv env (FileData data) = Inr env' \<and>
    dirLookup env (FileData data) = Inr lookup \<and>
    (\<forall>key. map_of env' key = lookup key \<and>
      lookup key = (case map_of env key of Some v \<Rightarrow> Some v
                    | None \<Rightarrow> map_option unquoteDotEnv (map_of (scanDotEnv data) key)) \<and>
      (lookup key \<noteq> None \<longleftrightarrow> map_of env key \<noteq> None \<or> key \<in> set (DotEnvKeys data)))"
proof -
  define vs where "vs = foldl addValue [] (scanDotEnv data)"
  have vs: "dotEnvValues (FileData data) = Inr vs" by (simp add: dotEnvValues_def vs_def)
  have lookup: "map_of vs key = map_option unquoteDotEnv (map_of (scanDotEnv data) key)" for key
    by (rule dotEnvValues_lookup [OF vs])
  have clean: "k \<noteq> [] \<and> CHR ''='' \<notin> set k \<and> CHR 0x00 \<notin> set k \<and> CHR 0x00 \<notin> set v"
    if "(k, v) \<in> set vs" for k v
  proof -
    have "map_of vs k = Some v" using that addValue_keys [of "[]" "scanDotEnv data"]
      by (simp add: vs_def)
    then obtain w where "(k, w) \<in> set (scanDotEnv data)" "v = unquoteDotEnv w"
      using lookup by (auto dest: map_of_SomeD)
    then show ?thesis using scanDotEnv_entry [of k w data] unquoteDotEnv_subset [of w] assms by blast
  qed
  have load: "map_of (foldl applyValue env vs) key =
      (case map_of env key of Some v \<Rightarrow> Some v | None \<Rightarrow> map_of vs key)" for key
    using addValue_keys [of "[]" "scanDotEnv data"] clean by (intro applyValue_lookup) (simp_all add: vs_def)
  have "map_of (scanDotEnv data) key \<noteq> None \<longleftrightarrow> key \<in> set (DotEnvKeys data)" for key
    by (simp add: DotEnvKeys_def map_of_eq_None_iff)
  then show ?thesis
    by (simp add: loadDotEnv_def dirLookup_def vs load lookup split: option.splits)
qed

theorem dotenv_precedence_witness:
  "\<exists>env'. loadDotEnv [(''A'', ''1'')] (FileData ''A=2'') = Inr env' \<and> map_of env' ''A'' = Some ''1''"
proof -
  have "CHR 0x00 \<notin> set ''A=2''" by simp
  from dotenv_precedence [OF this, of "[(''A'', ''1'')]"] show ?thesis by auto
qed

section \<open>The round trip\<close>

text \<open>A variable as a line with its value in double quotes.\<close>

definition quotedLine :: "string \<times> string \<Rightarrow> string" where
  "quotedLine kv = fst kv @ ''='' @ [CHR 0x22] @ snd kv @ [CHR 0x22]"

fun joinLines :: "string list \<Rightarrow> string" where
  "joinLines [] = []"
| "joinLines [l] = l"
| "joinLines (l # ls) = l @ CHR 0x0A # joinLines ls"

definition plainKey :: "string \<Rightarrow> bool" where
  "plainKey k \<longleftrightarrow> k \<noteq> [] \<and> TrimSpace k = k \<and> hd k \<noteq> CHR ''#'' \<and> CHR ''='' \<notin> set k \<and>
     CHR 0x0A \<notin> set k \<and> \<not> HasPrefix k utf8BOM"

definition plainValue :: "string \<Rightarrow> bool" where
  "plainValue v \<longleftrightarrow> CHR 0x22 \<notin> set v \<and> CHR 0x0A \<notin> set v"

lemma SplitByte_joinLines:
  "ls \<noteq> [] \<Longrightarrow> list_all (\<lambda>l. CHR 0x0A \<notin> set l) ls \<Longrightarrow> SplitByte CHR 0x0A (joinLines ls) = ls"
  by (induction ls rule: joinLines.induct) (simp_all add: SplitByte_none SplitByte_append)

lemma spaceEncodings_ascii:
  "list_all (\<lambda>p. p \<noteq> [] \<and> CHR ''='' \<notin> set p \<and> hd p \<noteq> CHR 0x22 \<and> last p \<noteq> CHR 0x22) spaceEncodings"
  by code_simp

lemma trimLeftOf_length: "length (trimLeftOf ps s) \<le> length s"
proof (induction ps s rule: trimLeftOf.induct)
  case (1 ps s)
  show ?case
  proof (cases "startsWithOne ps s")
    case (Some p)
    then show ?thesis using 1 [OF Some] by (subst trimLeftOf.simps) simp
  qed (subst trimLeftOf.simps, simp)
qed

lemma TrimSpace_fixed:
  assumes "TrimSpace k = k"
  shows "startsWithOne spaceEncodings k = None"
proof (rule ccontr)
  assume "startsWithOne spaceEncodings k \<noteq> None"
  then obtain p where p: "startsWithOne spaceEncodings k = Some p" by blast
  then have "length (drop (length p) k) < length k"
    using startsWithOne_Some [OF p] by (intro HasPrefix_drop) auto
  then have "length (trimLeftOf spaceEncodings k) < length k"
    using trimLeftOf_length [of spaceEncodings "drop (length p) k"] p
    by (subst trimLeftOf.simps) simp
  then have "length (TrimSpace k) < length k"
    using trimLeftOf_length [of "map rev spaceEncodings" "rev (trimLeftOf spaceEncodings k)"]
    by (simp add: TrimSpace_def)
  then show False using assms by simp
qed

lemma startsWithOne_None: "startsWithOne ps s = None \<longleftrightarrow> (\<forall>p \<in> set ps. p \<noteq> [] \<longrightarrow> \<not> HasPrefix s p)"
  by (auto simp: startsWithOne_def find_None_iff)

lemma HasPrefix_append_sep:
  assumes "HasPrefix (k @ c # r) p" "c \<notin> set p"
  shows "HasPrefix k p"
proof (cases "length p \<le> length k")
  case True
  then show ?thesis using assms(1) by (simp add: HasPrefix_def)
next
  case False
  then obtain n where "length p - length k = Suc n" by (cases "length p - length k") auto
  then have "c \<in> set (take (length p) (k @ c # r))" by simp
  moreover have "take (length p) (k @ c # r) = p" using assms(1) unfolding HasPrefix_def .
  ultimately show ?thesis using assms(2) by metis
qed

lemma TrimSpace_quoteEnd:
  assumes "startsWithOne spaceEncodings (s @ [CHR 0x22]) = None"
  shows "TrimSpace (s @ [CHR 0x22]) = s @ [CHR 0x22]"
proof -
  have "\<not> HasPrefix (CHR 0x22 # t) (rev p)" if "p \<in> set spaceEncodings" for p t
    using HasPrefix_hd [of "CHR 0x22 # t" "rev p"] that spaceEncodings_ascii
    by (auto simp: list_all_iff hd_rev)
  then have "startsWithOne (map rev spaceEncodings) (rev (s @ [CHR 0x22])) = None"
    by (simp add: startsWithOne_None)
  then show ?thesis using assms by (simp add: TrimSpace_def trimLeftOf_id)
qed

lemma TrimSpace_quoted:
  "TrimSpace (CHR 0x22 # v @ [CHR 0x22]) = CHR 0x22 # v @ [CHR 0x22]"
proof -
  have "\<not> HasPrefix (CHR 0x22 # t) p" if "p \<in> set spaceEncodings" for p t
    using HasPrefix_hd [of "CHR 0x22 # t" p] that spaceEncodings_ascii by (auto simp: list_all_iff)
  then show ?thesis using TrimSpace_quoteEnd [of "CHR 0x22 # v"] by (simp add: startsWithOne_None)
qed

lemma stripDotEnvComment_quoted:
  assumes "CHR 0x22 \<notin> set v"
  shows "stripDotEnvComment (CHR 0x22 # v @ [CHR 0x22]) = CHR 0x22 # v @ [CHR 0x22]"
proof -
  have "takeWhile (\<lambda>x. x \<noteq> CHR 0x22) (v @ [CHR 0x22]) = v" using assms by (induction v) auto
  then have "IndexByte (v @ [CHR 0x22]) CHR 0x22 = Some (length v)" by (simp add: IndexByte_def)
  then have "commentFrom (CHR 0x22 # v @ [CHR 0x22]) = length v + 2"
    by (simp add: commentFrom_def blank_def quoteMark_def)
  then show ?thesis by (simp add: stripDotEnvComment_def)
qed

lemma splitDotEnvLine_quoted:
  assumes "plainKey k" "plainValue v"
  shows "splitDotEnvLine (quotedLine (k, v)) = Some (k, CHR 0x22 # v @ [CHR 0x22])"
proof -
  have line: "quotedLine (k, v) = k @ CHR ''='' # CHR 0x22 # v @ [CHR 0x22]" by (simp add: quotedLine_def)
  have "startsWithOne spaceEncodings k = None" using assms(1) TrimSpace_fixed by (simp add: plainKey_def)
  then have "startsWithOne spaceEncodings (quotedLine (k, v)) = None"
    using spaceEncodings_ascii HasPrefix_append_sep unfolding line startsWithOne_None list_all_iff by blast
  then have "TrimSpace (quotedLine (k, v)) = quotedLine (k, v)"
    using TrimSpace_quoteEnd [of "k @ CHR ''='' # CHR 0x22 # v"] by (simp add: line)
  moreover have "CutByte CHR ''='' (quotedLine (k, v)) = Some (k, CHR 0x22 # v @ [CHR 0x22])"
    using assms(1) by (simp add: line CutByte_append plainKey_def)
  moreover have "quotedLine (k, v) \<noteq> []" "hd (quotedLine (k, v)) \<noteq> CHR ''#''"
    using assms(1) by (simp_all add: line plainKey_def)
  ultimately show ?thesis using assms
    by (simp add: splitDotEnvLine_def plainKey_def plainValue_def stripDotEnvComment_quoted TrimSpace_quoted)
qed

lemma unquoteDotEnv_quoted: "unquoteDotEnv (CHR 0x22 # v @ [CHR 0x22]) = v"
  by (simp add: unquoteDotEnv_def)

text \<open>C29: A value in double quotes comes back as it was written.  For a file with one line per
  variable, the value in double quotes, loading returns each variable's first value unchanged,
  whatever blanks, hash signs, equals signs or single quotes it holds, and the key listing names
  the variables in order.\<close>

theorem dotenv_roundtrip:
  assumes "kvs \<noteq> []" and "list_all (\<lambda>(k, v). plainKey k \<and> plainValue v) kvs"
  shows "\<exists>vs. dotEnvValues (FileData (joinLines (map quotedLine kvs))) = Inr vs \<and> map_of vs = map_of kvs \<and>
    DotEnvKeys (joinLines (map quotedLine kvs)) = map fst kvs"
proof -
  let ?data = "joinLines (map quotedLine kvs)"
  have "list_all (\<lambda>l. CHR 0x0A \<notin> set l) (map quotedLine kvs)"
    using assms(2) by (auto simp: list_all_iff quotedLine_def plainKey_def plainValue_def)
  then have lines: "SplitByte CHR 0x0A ?data = map quotedLine kvs"
    using assms(1) by (intro SplitByte_joinLines) simp_all
  obtain k v rest where kvs: "kvs = (k, v) # rest" using assms(1) by (cases kvs) auto
  have "\<not> HasPrefix ?data utf8BOM"
  proof
    assume pre: "HasPrefix ?data utf8BOM"
    have "\<exists>r. ?data = k @ CHR ''='' # r" unfolding kvs by (cases rest) (simp_all add: quotedLine_def)
    then have "HasPrefix k utf8BOM" using pre HasPrefix_append_sep by (auto simp: utf8BOM_def)
    then show False using assms(2) by (simp add: kvs plainKey_def)
  qed
  then have "scanDotEnv ?data = List.map_filter splitDotEnvLine (map quotedLine kvs)"
    by (simp add: scanDotEnv_def TrimPrefix_def lines)
  also have "\<dots> = map (\<lambda>(k, v). (k, CHR 0x22 # v @ [CHR 0x22])) kvs"
    using assms(2) by (induction kvs) (auto simp: List.map_filter_simps splitDotEnvLine_quoted)
  finally have scan: "scanDotEnv ?data = map (\<lambda>(k, v). (k, CHR 0x22 # v @ [CHR 0x22])) kvs" .
  have "map_option unquoteDotEnv (map_of (scanDotEnv ?data) key) = map_of kvs key" for key
    unfolding scan by (induction kvs) (auto simp: unquoteDotEnv_quoted)
  then show ?thesis
    by (auto simp: dotEnvValues_def addValue_lookup DotEnvKeys_def scan comp_def case_prod_beta intro!: ext)
qed

theorem dotenv_roundtrip_witness:
  "\<exists>vs. dotEnvValues (FileData (joinLines (map quotedLine [(''NAME'', ''a # 1 = one''), (''B'', [])]))) = Inr vs \<and>
    map_of vs ''NAME'' = Some ''a # 1 = one''"
proof -
  let ?kvs = "[(''NAME'', ''a # 1 = one''), (''B'', [])]"
  have "list_all (\<lambda>(k, v). plainKey k \<and> plainValue v) ?kvs" by code_simp
  then show ?thesis using dotenv_roundtrip [of ?kvs] by auto
qed

end
