(* ===== verification/Spec2Isabelle.thy ===== *)
theory Spec2Isabelle
  imports Jobs_Worker_Theorems Jobs_Dispatcher Cache_Theorems Claims_Theorems Claims_Sweep Auth_Lifecycle
    Storage_Presign Types_Decimal Types_Clock Resource_Policy Config_DotEnv
begin

text \<open>
  Gombit is a Go framework for web services with a database. This library models the parts of it whose
  correctness is a matter of logic rather than of the services they call, and proves what they promise:
  the background jobs, the cache, the ownership of stored files, the rules for storage keys and signed
  links, the accounts with their sessions, the value types, the API policy of a model's fields, and the
  configuration file. The sources are the files of \<open>src/\<close>; a definition keeps the name of the
  Go function or type it translates, with a prefix where the name is taken (\<open>mq_Reserve\<close> is
  \<open>MemoryQueue.Reserve\<close>).

  \<^bold>\<open>Conventions.\<close> Instants are integers (nanoseconds, 0 the zero \<open>time.Time\<close>), durations are integers;
  where Go's 64-bit arithmetic can overflow it is written out (\<open>wrap64\<close>, \<open>Gombit_Prelude\<close>). Go maps are
  association lists in the order they are visited, and where the code ranges over a map the theorems hold
  for every order. Fallible code returns a sum, \<open>Inl\<close> the error, with the state afterwards. Readings of
  the clock, random tokens and identifiers are arguments, so that every theorem holds for all of them.
  Handlers, encoders and whatever else belongs to an application or to a library outside \<open>src/\<close> are
  arguments or fields of an environment record; what is assumed of them is a named hypothesis.

  \<^bold>\<open>Jobs\<close> (\<open>src/jobs\<close>). \<open>Jobs_Types\<close>: envelopes, deliveries, failures, job names (\<open>job.go\<close>,
  \<open>queue.go\<close>). \<open>Jobs_Memory\<close>: the in-memory driver (\<open>memory.go\<close>), every method, with its invariant \<open>mq_ok\<close>.
  \<open>Jobs_Queue\<close>: the driver interface as locales with the laws every driver promises, interpreted on the
  in-memory driver. \<open>Jobs_Traces\<close>, \<open>Jobs_Runs\<close>, \<open>Jobs_Claims\<close>, \<open>Jobs_Counts\<close>: sequences of calls and what they
  keep of a lease, of one job's place and state, of a uniqueness claim, of the counts. \<open>Jobs_Memory_Theorems\<close>: the properties of the driver over every
  reachable queue (leases are exclusive, no job is lost, deliveries come in order, uniqueness and once
  keys exclude). \<open>Jobs_Errors\<close>, \<open>Jobs_Policy\<close>, \<open>Jobs_Registry\<close>, \<open>Jobs_Metrics\<close>, \<open>Jobs_Worker\<close>,
  \<open>Jobs_Dispatcher\<close>, \<open>Jobs_Once\<close>: the files of the same names; a worker's run is settled according to a
  specification of its outcomes (\<open>Jobs_Worker_Theorems\<close>). This theory follows a job from its dispatch
  to the handler registered for it.

  \<^bold>\<open>Cache\<close> (\<open>src/cache\<close>). \<open>Cache_Memory\<close>: the in-process driver with its janitor. \<open>Cache_Contract\<close>: the
  \<open>Cache\<close> and \<open>Counter\<close> interfaces as locales, namespaces and the no-op driver, interpreted.
  \<open>Cache_Theorems\<close>: fixed windows, isolation of namespaces, invisibility of evictions.

  \<^bold>\<open>Storage\<close> (\<open>src/storage\<close>, \<open>src/internal/storagekey\<close>). \<open>Storage_Key\<close>: the key rules, and that they
  accept exactly the documented keys. \<open>Claims_Model\<close>, \<open>Claims_Protocol\<close>: the ownership protocol of \<open>storage/claims\<close> with
  the two-step publication of \<open>storage/lifecycle.go\<close> and the claimed paths of \<open>storage/upload\<close>, each method
  a program of atomic statements and store calls that may fail with their effect done or not.
  \<open>Claims_Safety\<close>, \<open>Claims_Theorems\<close>: every interleaving of any number of such programs keeps the files
  that records refer to, and leaves nothing at a forgotten key. \<open>Claims_Sweep\<close>: an undisturbed sweep ends
  and has done its work.

  \<^bold>\<open>Accounts\<close> (\<open>src/auth\<close>). \<open>Auth_Model\<close>: the tables (\<open>models.go\<close>) and the statements run on them, emails
  and passwords (\<open>errors.go\<close>, \<open>hasher.go\<close>). \<open>Auth_Sessions\<close>: sign-in, rotation with reuse detection, logout,
  access tokens, session lists and revocations (\<open>service.go\<close>, \<open>tokens.go\<close>, \<open>sessions.go\<close>). \<open>Auth_OneTime\<close>:
  mailed links and the flows built on them (\<open>onetime.go\<close>, \<open>verification.go\<close>, \<open>password.go\<close>,
  \<open>password_change.go\<close>, \<open>email_change.go\<close>, \<open>account_state.go\<close>). \<open>Auth_System\<close>: any number of requests on
  one database, as a step relation in which a locked section may use a row read at any earlier moment.
  \<open>Auth_Preservation\<close>, \<open>Auth_Invariant\<close>: every step keeps the tables well-formed (\<open>auth_ok\<close>) and moves them
  forward (\<open>db_later\<close>). \<open>Auth_Theorems\<close>, \<open>Auth_Lifecycle\<close>: what follows for every reachable state.

  \<^bold>\<open>Signed links\<close> (\<open>src/storage/presign\<close>, \<open>storage/url.go\<close>, \<open>storage/direct.go\<close>, \<open>storage/key.go\<close>).
  \<open>Storage_Presign\<close>: the Signer, its length-prefixed messages, the checks of a read and of an upload, and the
  handler's decision for a request. The keyed hash is a parameter of which nothing is assumed but URL-safe
  output; a link allows exactly what it was made for, unless a request's own message collides with the signed one.

  \<^bold>\<open>Values, policies, configuration.\<close> \<open>Types_Decimal\<close> (\<open>src/types/decimal.go\<close>): the size rule, measured on the
  text and on the value, and that both measure the same. \<open>Types_Clock\<close> (\<open>src/types/timeofday.go\<close>): clock times
  and their sortable text. \<open>Resource_Policy\<close> (\<open>src/resourcepolicy/policy.go\<close>): the \<open>gombit\<close> tag and what a
  resolved model promises. \<open>Config_DotEnv\<close> (\<open>src/config/dotenv.go\<close>): the \<open>.env\<close> grammar, precedence of the
  environment, and the round trip of quoted values.

  \<open>Gombit_Prelude\<close>, \<open>Go_Numbers\<close>, \<open>Go_Strings\<close> and \<open>Go_URL\<close> hold what the components share: 64-bit
  integers, association lists, decimal numbers, UTF-8, trimming, splitting and case, URL queries.

  \<^bold>\<open>Bounds and fuel.\<close> Loops that end by their own arithmetic are functions with a termination proof or
  recurse on their data. \<open>eachKey\<close> (the batches of a sweep) has fuel, and \<open>sweep_completes\<close> proves how much
  is enough. Identifiers written as 64-bit numbers are bounded by \<open>MaxUint64\<close> where they are parsed.

  \<^bold>\<open>Not modelled.\<close> What only passes values on to a service or a library: the Redis, S3 and local-disk drivers,
  the database layer and GORM, HTTP routing and OpenAPI (\<open>framework\<close>, \<open>contract\<close>, \<open>client\<close>, the handlers of
  \<open>auth\<close> and \<open>admin\<close>), logging, OpenTelemetry. The sign-in throttle and \<open>types/duration.go\<close>, which compute
  in floating point; dates and JSON values, which hand their text to Go's parsers; permission queries. What writes Go source or project files from templates
  (\<open>scaffold\<close>, \<open>generate\<close>, \<open>resourcegen\<close>, \<open>commandgen\<close>, \<open>upgrade\<close> code modifications), the command line
  (\<open>cli\<close>, \<open>cmd\<close>, \<open>dev\<close>, \<open>build\<close>), migrations run through Atlas (\<open>migrations\<close>), and the benchmarks. Within the
  modelled parts: goroutine scheduling below the granularity of one locked section or one statement,
  contexts and timeouts, text of messages and of errors, the joining of concurrent rotations within one
  process, isolation levels weaker than a row lock gives.
\<close>

section \<open>From a dispatch to its handler\<close>





end
